(* ===== verification/Prelude.thy ===== *)
theory Prelude
  imports Complex_Main "HOL-Library.AList" "HOL-Library.Multiset" "HOL-Library.Char_ord" "HOL-Library.List_Lexorder"
begin

text \<open>
  What every component shares: Python's exceptions as values, results of fallible calls, floats
  with their non-finite values, bytes and text, decimal printing and parsing, and dictionaries
  as association lists in insertion order.

  Conventions.  A Python \<open>int\<close> is an \<open>int\<close>.  A finite \<open>float\<close> is the rational it denotes
  (a clock reading, a duration); rounding of a sum of floats is not modelled.  A \<open>str\<close> is a
  list of characters and a \<open>bytes\<close> object is a list of bytes, both of type \<open>string\<close>: code points
  above 255 are outside the model.
\<close>

section \<open>Results and exceptions\<close>

type_synonym time = rat
type_synonym bytes = string

datatype exc =
    KeyError | TypeError | ValueError | JSONDecodeError | AttributeError
  | RuntimeError | RecursionError | OverflowError | TimeoutError | OSError
  | FileNotFoundError | BinasciiError | EOFError | InvalidSignature | ConnectionClosed | SystemExit string
  | ServerAuthError string | OtherError string

text \<open>\<open>type(e).__name__\<close>.\<close>

primrec exc_name :: "exc \<Rightarrow> string" where
  "exc_name KeyError = ''KeyError''"
| "exc_name TypeError = ''TypeError''"
| "exc_name ValueError = ''ValueError''"
| "exc_name JSONDecodeError = ''JSONDecodeError''"
| "exc_name AttributeError = ''AttributeError''"
| "exc_name RuntimeError = ''RuntimeError''"
| "exc_name RecursionError = ''RecursionError''"
| "exc_name OverflowError = ''OverflowError''"
| "exc_name TimeoutError = ''TimeoutError''"
| "exc_name OSError = ''OSError''"
| "exc_name FileNotFoundError = ''FileNotFoundError''"
| "exc_name BinasciiError = ''Error''"
| "exc_name EOFError = ''EOFError''"
| "exc_name InvalidSignature = ''InvalidSignature''"
| "exc_name ConnectionClosed = ''ConnectionClosed''"
| "exc_name (SystemExit m) = ''SystemExit''"
| "exc_name (ServerAuthError m) = ''ServerAuthError''"
| "exc_name (OtherError n) = n"

text \<open>Instances of a class include those of its subclasses.\<close>

definition is_value_error :: "exc \<Rightarrow> bool" where
  "is_value_error e \<longleftrightarrow> e = ValueError \<or> e = JSONDecodeError \<or> e = BinasciiError"

definition is_runtime_error :: "exc \<Rightarrow> bool" where
  "is_runtime_error e \<longleftrightarrow> e = RuntimeError \<or> e = RecursionError"

definition is_os_error :: "exc \<Rightarrow> bool" where
  "is_os_error e \<longleftrightarrow> e = OSError \<or> e = FileNotFoundError \<or> e = TimeoutError"

type_synonym 'a result = "exc + 'a"

text \<open>Sequencing of fallible calls: the first exception ends the computation.\<close>

definition bindE :: "'a result \<Rightarrow> ('a \<Rightarrow> 'b result) \<Rightarrow> 'b result" where
  "bindE m f = (case m of Inl e \<Rightarrow> Inl e | Inr x \<Rightarrow> f x)"

named_theorems py_simps \<open>rewrite rules for the library of Python values\<close>

lemma bindE_simps [simp]:
  "bindE (Inl e) f = Inl e"
  "bindE (Inr x) f = f x"
  by (simp_all add: bindE_def)

lemma bindE_eq_Inr [py_simps]:
  "bindE m f = Inr y \<longleftrightarrow> (\<exists>x. m = Inr x \<and> f x = Inr y)"
  by (cases m) auto

lemma bindE_eq_Inl [py_simps]:
  "bindE m f = Inl e \<longleftrightarrow> m = Inl e \<or> (\<exists>x. m = Inr x \<and> f x = Inl e)"
  by (cases m) auto

text \<open>The same for calls that change a state: an exception skips the rest and keeps the state.\<close>

definition bindS :: "('s \<Rightarrow> 'a result \<times> 's) \<Rightarrow> ('a \<Rightarrow> 's \<Rightarrow> 'b result \<times> 's) \<Rightarrow> 's \<Rightarrow> 'b result \<times> 's" where
  "bindS m f s = (case m s of (Inl e, s') \<Rightarrow> (Inl e, s') | (Inr x, s') \<Rightarrow> f x s')"

lemma bindS_pres:
  assumes "P s" "\<And>s. P s \<Longrightarrow> P (snd (m s))" "\<And>x s. P s \<Longrightarrow> P (snd (f x s))"
  shows "P (snd (bindS m f s))"
proof (cases "m s")
  case (Pair r s')
  with assms(2) [OF assms(1)] have "P s'" by simp
  with Pair assms(3) show ?thesis by (cases r) (simp_all add: bindS_def)
qed

lemma bindS_InrD: "bindS m f s = (Inr y, s'') \<Longrightarrow> \<exists>x s'. m s = (Inr x, s') \<and> f x s' = (Inr y, s'')"
  by (auto simp: bindS_def split: prod.splits sum.splits)

lemma bindS_simps [simp]:
  "m s = (Inl e, s') \<Longrightarrow> bindS m f s = (Inl e, s')"
  "m s = (Inr x, s') \<Longrightarrow> bindS m f s = f x s'"
  by (simp_all add: bindS_def)

lemma bindS_InrE:
  assumes "bindS m f s = (Inr y, s')"
  obtains x s1 where "m s = (Inr x, s1)" "f x s1 = (Inr y, s')"
  using assms by (auto simp: bindS_def split: prod.splits sum.splits)

lemma bindS_eq [py_simps]:
  "bindS m f s = (r, s') \<longleftrightarrow>
    (\<exists>e. m s = (Inl e, s') \<and> r = Inl e) \<or> (\<exists>x s1. m s = (Inr x, s1) \<and> f x s1 = (r, s'))"
  by (auto simp: bindS_def split: prod.splits sum.splits)

section \<open>Floats\<close>

datatype pyfloat = Fin rat | PInf | NInf | NaN

text \<open>Python's \<open>x > y\<close> on floats: every comparison with a NaN is false.\<close>

fun fgt :: "pyfloat \<Rightarrow> pyfloat \<Rightarrow> bool" where
  "fgt (Fin x) (Fin y) = (x > y)"
| "fgt PInf (Fin y) = True"
| "fgt PInf NInf = True"
| "fgt (Fin x) NInf = True"
| "fgt _ _ = False"

fun fsub :: "pyfloat \<Rightarrow> pyfloat \<Rightarrow> pyfloat" where
  "fsub (Fin x) (Fin y) = Fin (x - y)"
| "fsub (Fin x) PInf = NInf"
| "fsub (Fin x) NInf = PInf"
| "fsub PInf (Fin y) = PInf"
| "fsub NInf (Fin y) = NInf"
| "fsub PInf NInf = PInf"
| "fsub NInf PInf = NInf"
| "fsub _ _ = NaN"

fun fabs :: "pyfloat \<Rightarrow> pyfloat" where
  "fabs (Fin x) = Fin \<bar>x\<bar>"
| "fabs PInf = PInf"
| "fabs NInf = PInf"
| "fabs NaN = NaN"

text \<open>\<open>int(x)\<close> on a finite float truncates towards zero.\<close>

definition py_trunc :: "rat \<Rightarrow> int" where
  "py_trunc x = (if x < 0 then \<lceil>x\<rceil> else \<lfloor>x\<rfloor>)"

lemma py_trunc_of_int [simp]: "py_trunc (of_int i) = i"
  by (simp add: py_trunc_def)

section \<open>Text\<close>

subsection \<open>Character classes\<close>

definition is_digit :: "char \<Rightarrow> bool" where
  "is_digit c \<longleftrightarrow> 48 \<le> (of_char c :: nat) \<and> (of_char c :: nat) \<le> 57"

definition is_lower :: "char \<Rightarrow> bool" where
  "is_lower c \<longleftrightarrow> 97 \<le> (of_char c :: nat) \<and> (of_char c :: nat) \<le> 122"

definition is_hex_lower :: "char \<Rightarrow> bool" where
  "is_hex_lower c \<longleftrightarrow> is_digit c \<or> (97 \<le> (of_char c :: nat) \<and> (of_char c :: nat) \<le> 102)"

definition is_ascii :: "char \<Rightarrow> bool" where
  "is_ascii c \<longleftrightarrow> (of_char c :: nat) < 128"

abbreviation newline_char :: char where
  "newline_char \<equiv> CHR 0x0A"

lemma char_neqI: "(of_char c :: nat) \<noteq> of_char d \<Longrightarrow> c \<noteq> d"
  by auto

subsection \<open>UTF-8 encoding of the code points of the model\<close>

definition utf8_char :: "char \<Rightarrow> bytes" where
  "utf8_char c =
     (if is_ascii c then [c]
      else [char_of (192 + (of_char c :: nat) div 64), char_of (128 + (of_char c :: nat) mod 64)])"

definition utf8 :: "string \<Rightarrow> bytes" where
  "utf8 s = concat (map utf8_char s)"

lemma utf8_simps [simp]: "utf8 [] = []" "utf8 (c # s) = utf8_char c @ utf8 s"
  by (simp_all add: utf8_def)

lemma utf8_append [simp]: "utf8 (s @ t) = utf8 s @ utf8 t"
  by (simp add: utf8_def)

lemma utf8_ascii: "list_all is_ascii s \<Longrightarrow> utf8 s = s"
  by (induction s) (auto simp: utf8_char_def)

text \<open>The encoding can be undone, so it is injective.\<close>

fun utf8_decode :: "bytes \<Rightarrow> string" where
  "utf8_decode [] = []"
| "utf8_decode (b # bs) =
     (if is_ascii b then b # utf8_decode bs
      else (case bs of
              [] \<Rightarrow> []
            | b' # bs' \<Rightarrow> char_of (((of_char b :: nat) - 192) * 64 + ((of_char b' :: nat) - 128)) # utf8_decode bs'))"

lemma utf8_decode_char: "utf8_decode (utf8_char c @ s) = c # utf8_decode s"
proof (cases "is_ascii c")
  case False
  define n where "n = (of_char c :: nat)"
  have n: "128 \<le> n" "n < 256" using False by (simp_all add: n_def is_ascii_def)
  have lead: "(of_char (char_of (192 + n div 64) :: char) :: nat) = 192 + n div 64"
    using n by (simp add: of_char_of)
  have trail: "(of_char (char_of (128 + n mod 64) :: char) :: nat) = 128 + n mod 64"
    using n by (simp add: of_char_of)
  have "n div 64 * 64 + n mod 64 = n" by simp
  moreover have "char_of n = c" by (simp add: n_def)
  moreover have "\<not> is_ascii (char_of (192 + n div 64))" using lead by (simp add: is_ascii_def)
  ultimately show ?thesis
    using False lead trail by (simp add: utf8_char_def n_def [symmetric])
qed (simp add: utf8_char_def)

lemma utf8_decode_utf8 [simp]: "utf8_decode (utf8 s) = s"
  by (induction s) (simp_all add: utf8_decode_char)

lemma utf8_inject [simp]: "utf8 s = utf8 t \<longleftrightarrow> s = t"
  by (metis utf8_decode_utf8)

subsection \<open>Decimal numbers\<close>

definition digit_char :: "nat \<Rightarrow> char" where
  "digit_char n = char_of (48 + n)"

definition digit_val :: "char \<Rightarrow> nat" where
  "digit_val c = of_char c - 48"

fun show_nat :: "nat \<Rightarrow> string" where
  "show_nat n = (if n < 10 then [digit_char n] else show_nat (n div 10) @ [digit_char (n mod 10)])"

declare show_nat.simps [simp del]

definition show_int :: "int \<Rightarrow> string" where
  "show_int i = (if i < 0 then CHR ''-'' # show_nat (nat (- i)) else show_nat (nat i))"

text \<open>The value of a run of digits.\<close>

definition digits_val :: "string \<Rightarrow> nat" where
  "digits_val s = foldl (\<lambda>a c. 10 * a + digit_val c) 0 s"

lemma of_char_digit [simp]: "n < 10 \<Longrightarrow> (of_char (digit_char n) :: nat) = 48 + n"
  by (simp add: digit_char_def)

lemma is_digit_digit_char [simp]: "n < 10 \<Longrightarrow> is_digit (digit_char n)"
  by (simp add: is_digit_def)

lemma digit_val_digit_char [simp]: "n < 10 \<Longrightarrow> digit_val (digit_char n) = n"
  by (simp add: digit_val_def)

lemma show_nat_nonempty [simp]: "show_nat n \<noteq> []"
  by (subst show_nat.simps) simp

lemma show_nat_digits: "list_all is_digit (show_nat n)"
proof (induction n rule: show_nat.induct)
  case (1 n)
  then show ?case by (subst show_nat.simps) simp
qed

lemma digits_val_show_nat [simp]: "digits_val (show_nat n) = n"
proof (induction n rule: show_nat.induct)
  case (1 n)
  then show ?case
    by (subst show_nat.simps) (auto simp: digits_val_def)
qed

lemma digit_char_0 [simp]: "digit_char 0 = CHR ''0''"
  by code_simp

lemma digit_0_iff: "n < 10 \<Longrightarrow> digit_char n = CHR ''0'' \<longleftrightarrow> n = 0"
proof
  assume n: "n < 10" and "digit_char n = CHR ''0''"
  then have "(of_char (digit_char n) :: nat) = of_char (CHR ''0'')" by simp
  with n show "n = 0" by simp
qed simp

text \<open>A number is printed without a leading zero.\<close>

lemma hd_show_nat: "hd (show_nat n) = CHR ''0'' \<longleftrightarrow> n = 0"
proof (induction n rule: show_nat.induct)
  case (1 n)
  show ?case
  proof (cases "n < 10")
    case True
    then show ?thesis by (subst show_nat.simps) (simp add: digit_0_iff)
  next
    case False
    then have "n div 10 \<noteq> 0" by simp
    with 1 False show ?thesis by (subst show_nat.simps) (simp add: hd_append)
  qed
qed

lemma show_nat_0 [simp]: "show_nat 0 = ''0''"
  by (subst show_nat.simps) simp

lemma show_nat_inject [simp]: "show_nat m = show_nat n \<longleftrightarrow> m = n"
  by (metis digits_val_show_nat)

lemma minus_not_digit [simp]: "\<not> is_digit (CHR ''-'')"
  by (simp add: is_digit_def)

lemma show_nat_not_minus [simp]: "show_nat m \<noteq> CHR ''-'' # s"
  using show_nat_digits [of m] by auto

lemma show_int_inject [simp]: "show_int i = show_int j \<longleftrightarrow> i = j"
  using show_nat_not_minus [symmetric] by (auto simp: show_int_def)

lemma show_int_nonempty [simp]: "show_int i \<noteq> []"
  by (simp add: show_int_def)

text \<open>A printed number contains no separator of the texts it is embedded in.\<close>

definition number_char :: "char \<Rightarrow> bool" where
  "number_char c \<longleftrightarrow> is_digit c \<or> c = CHR ''-''"

lemma show_int_number_chars: "list_all number_char (show_int i)"
  using show_nat_digits by (auto simp: show_int_def number_char_def list_all_iff)

subsection \<open>Splitting at a separator\<close>

lemma append_sep_inject:
  assumes "sep \<notin> set a" and "sep \<notin> set b"
  shows "a @ sep # x = b @ sep # y \<longleftrightarrow> a = b \<and> x = y"
  using assms
proof (induction a arbitrary: b)
  case Nil
  then show ?case by (cases b) auto
next
  case (Cons c a)
  then show ?case by (cases b) auto
qed

text \<open>\<open>s.startswith(p)\<close>.\<close>

fun starts_with :: "string \<Rightarrow> string \<Rightarrow> bool" where
  "starts_with s [] = True"
| "starts_with [] (c # p) = False"
| "starts_with (d # s) (c # p) = (d = c \<and> starts_with s p)"

lemma starts_with_iff: "starts_with s p \<longleftrightarrow> (\<exists>r. s = p @ r)"
  by (induction s p rule: starts_with.induct) auto

lemma starts_with_self [simp]: "starts_with s s"
  by (simp add: starts_with_iff)

lemma starts_with_take [simp]: "starts_with s (take n s)"
  by (metis append_take_drop_id starts_with_iff)

text \<open>\<open>s.strip()\<close> on the white space of the model.\<close>

definition is_space :: "char \<Rightarrow> bool" where
  "is_space c \<longleftrightarrow>
     c = CHR '' '' \<or> (9 \<le> (of_char c :: nat) \<and> (of_char c :: nat) \<le> 13)
     \<or> (28 \<le> (of_char c :: nat) \<and> (of_char c :: nat) \<le> 31)
     \<or> (of_char c :: nat) = 133 \<or> (of_char c :: nat) = 160"

definition lstrip_by :: "(char \<Rightarrow> bool) \<Rightarrow> string \<Rightarrow> string" where
  "lstrip_by p s = dropWhile p s"

definition rstrip_by :: "(char \<Rightarrow> bool) \<Rightarrow> string \<Rightarrow> string" where
  "rstrip_by p s = rev (dropWhile p (rev s))"

definition py_strip :: "string \<Rightarrow> string" where
  "py_strip s = rstrip_by is_space (lstrip_by is_space s)"

text \<open>\<open>s.lower()\<close> on the characters of the model.\<close>

definition lower_char :: "char \<Rightarrow> char" where
  "lower_char c =
     (let n = (of_char c :: nat)
      in if (65 \<le> n \<and> n \<le> 90) \<or> (192 \<le> n \<and> n \<le> 222 \<and> n \<noteq> 215) then char_of (n + 32) else c)"

definition py_lower :: "string \<Rightarrow> string" where
  "py_lower s = map lower_char s"

lemma py_lower_hex: "list_all is_hex_lower s \<Longrightarrow> py_lower s = s"
  unfolding py_lower_def
  by (rule map_idI) (auto simp: list_all_iff is_hex_lower_def is_digit_def lower_char_def Let_def)

text \<open>\<open>sep.join(parts)\<close>.\<close>

fun py_join :: "string \<Rightarrow> string list \<Rightarrow> string" where
  "py_join sep [] = []"
| "py_join sep [x] = x"
| "py_join sep (x # xs) = x @ sep @ py_join sep xs"

section \<open>Dictionaries\<close>

text \<open>
  A dictionary is an association list with distinct keys, in insertion order: reading is
  \<open>map_of\<close>, storing is \<open>AList.update\<close> (in place for an existing key, at the end for a new one),
  \<open>pop\<close> and \<open>del\<close> are \<open>AList.delete\<close>, and \<open>len\<close> is the length.
\<close>

definition dict_ok :: "('k \<times> 'v) list \<Rightarrow> bool" where
  "dict_ok d \<longleftrightarrow> distinct (map fst d)"

definition dict_keep :: "('k \<Rightarrow> 'v \<Rightarrow> bool) \<Rightarrow> ('k \<times> 'v) list \<Rightarrow> ('k \<times> 'v) list" where
  "dict_keep p d = filter (\<lambda>(k, v). p k v) d"

text \<open>\<open>d.update(e)\<close> stores the items of \<open>e\<close> one after the other.\<close>

definition dict_update :: "('k \<times> 'v) list \<Rightarrow> ('k \<times> 'v) list \<Rightarrow> ('k \<times> 'v) list" where
  "dict_update d e = fold (\<lambda>(k, v) d'. AList.update k v d') e d"

lemma dict_ok_Nil [simp, intro]: "dict_ok []"
  by (simp add: dict_ok_def)

lemma dict_ok_update [simp]: "dict_ok d \<Longrightarrow> dict_ok (AList.update k v d)"
  by (simp add: dict_ok_def distinct_update)

lemma dict_ok_delete [simp]: "dict_ok d \<Longrightarrow> dict_ok (AList.delete k d)"
  by (simp add: dict_ok_def distinct_delete)

lemma dict_ok_keep [simp]: "dict_ok d \<Longrightarrow> dict_ok (dict_keep p d)"
  unfolding dict_ok_def dict_keep_def by (rule distinct_map_filter)

lemma map_of_dict_update_in: "k \<in> fst ` set e \<Longrightarrow> dict_ok e \<Longrightarrow>
    map_of (dict_update d e) k = map_of e k"
proof (induction e arbitrary: d)
  case Nil
  then show ?case by simp
next
  case (Cons a e)
  have other: "k \<notin> fst ` set e \<Longrightarrow> map_of (fold (\<lambda>(k, v) d'. AList.update k v d') e d) k = map_of d k" for d
    by (induction e arbitrary: d) (auto simp: update_conv')
  obtain k' v where a: "a = (k', v)" by (cases a)
  show ?case
  proof (cases "k \<in> fst ` set e")
    case True
    with Cons a show ?thesis by (auto simp: dict_update_def dict_ok_def)
  next
    case False
    with Cons.prems a have "k = k'" by auto
    with False a other [of "AList.update k' v d"] show ?thesis
      by (simp add: dict_update_def update_conv')
  qed
qed

lemma map_of_dict_update_notin: "k \<notin> fst ` set e \<Longrightarrow> map_of (dict_update d e) k = map_of d k"
  by (induction e arbitrary: d) (auto simp: dict_update_def update_conv')

lemma map_of_dict_keep:
  "dict_ok d \<Longrightarrow>
    map_of (dict_keep p d) k = (case map_of d k of None \<Rightarrow> None | Some v \<Rightarrow> if p k v then Some v else None)"
proof (induction d)
  case Nil
  then show ?case by (simp add: dict_keep_def)
next
  case (Cons a d)
  obtain k' v where a: "a = (k', v)" by (cases a)
  have "map_of (filter (\<lambda>(k, v). p k v) d) k' = None" if "k' \<notin> fst ` set d"
    using that by (auto simp: map_of_eq_None_iff)
  moreover from Cons.prems a have "k' \<notin> fst ` set d" by (simp add: dict_ok_def)
  ultimately show ?case
    using Cons a by (auto simp: dict_keep_def dict_ok_def)
qed

lemma length_dict_keep: "length (dict_keep p d) \<le> length d"
  by (simp add: dict_keep_def)

lemma length_update: "length (AList.update k v d) = (if k \<in> fst ` set d then length d else Suc (length d))"
  by (induction d) auto

lemma set_update_subset: "set (AList.update k v d) \<subseteq> insert (k, v) (set d)"
  by (induction d) auto

lemmas dict_lookup [py_simps] = update_conv' delete_conv' map_of_dict_keep

end
