(* ===== verification/Json.thy ===== *)
theory Json
  imports Prelude
begin

text \<open>
  JSON values and the two functions of Python's \<^verbatim>\<open>json\<close> module the program uses:
  \<open>dumps\<close> with its separators, \<open>sort_keys\<close> and \<open>ensure_ascii=True\<close>, and \<open>loads\<close>.
  \<open>dumps\<close> takes the printer of finite floats (\<open>float.__repr__\<close>) as an argument.  The texts
  of the model have code points up to 255.  The theory proves that parsing inverts printing and
  that a canonical text determines its value; both are stated once in the locale \<open>codec\<close>.
\<close>

section \<open>Values\<close>

datatype json =
    JNull | JBool bool | JInt int | JFloat pyfloat | JStr string
  | JList "json list" | JObj "(string \<times> json) list"

text \<open>Truth value of an object (\<open>bool(x)\<close>).\<close>

fun py_truthy :: "json \<Rightarrow> bool" where
  "py_truthy JNull = False"
| "py_truthy (JBool b) = b"
| "py_truthy (JInt i) = (i \<noteq> 0)"
| "py_truthy (JFloat x) = (x \<noteq> Fin 0)"
| "py_truthy (JStr s) = (s \<noteq> [])"
| "py_truthy (JList xs) = (xs \<noteq> [])"
| "py_truthy (JObj d) = (d \<noteq> [])"

text \<open>Python's \<open>x == i\<close> for an integer \<open>i\<close>: Booleans and floats compare by value.\<close>

fun py_eq_int :: "json \<Rightarrow> int \<Rightarrow> bool" where
  "py_eq_int (JInt j) i = (j = i)"
| "py_eq_int (JBool b) i = ((if b then 1 else 0) = i)"
| "py_eq_int (JFloat (Fin x)) i = (x = of_int i)"
| "py_eq_int _ i = False"

definition py_eq_str :: "json \<Rightarrow> string \<Rightarrow> bool" where
  "py_eq_str v s \<longleftrightarrow> v = JStr s"

text \<open>\<open>d.get(k)\<close>, whose default is \<open>None\<close>.\<close>

definition jget :: "(string \<times> json) list \<Rightarrow> string \<Rightarrow> json" where
  "jget d k = (case map_of d k of None \<Rightarrow> JNull | Some v \<Rightarrow> v)"

text \<open>\<open>d.get(k, v)\<close>.\<close>

definition jget_default :: "(string \<times> json) list \<Rightarrow> string \<Rightarrow> json \<Rightarrow> json" where
  "jget_default d k v = (case map_of d k of None \<Rightarrow> v | Some w \<Rightarrow> w)"

text \<open>\<open>d[k]\<close>, on an object and on any value.\<close>

definition jitem :: "(string \<times> json) list \<Rightarrow> string \<Rightarrow> json result" where
  "jitem d k = (case map_of d k of None \<Rightarrow> Inl KeyError | Some v \<Rightarrow> Inr v)"

definition subscript :: "json \<Rightarrow> string \<Rightarrow> json result" where
  "subscript v k = (case v of JObj d \<Rightarrow> jitem d k | _ \<Rightarrow> Inl TypeError)"

text \<open>What a \<open>for\<close> loop over a value runs through.\<close>

definition py_iter :: "json \<Rightarrow> json list result" where
  "py_iter v =
     (case v of
        JList xs \<Rightarrow> Inr xs
      | JStr s \<Rightarrow> Inr (map (\<lambda>c. JStr [c]) s)
      | JObj d \<Rightarrow> Inr (map (\<lambda>(k, w). JStr k) d)
      | _ \<Rightarrow> Inl TypeError)"

section \<open>Printing\<close>

abbreviation quote_char :: char where "quote_char \<equiv> CHR 0x22"
abbreviation backslash_char :: char where "backslash_char \<equiv> CHR 0x5C"

definition hex_char :: "nat \<Rightarrow> char" where
  "hex_char n = (if n < 10 then char_of (48 + n) else char_of (87 + n))"

definition esc_char :: "char \<Rightarrow> string" where
  "esc_char c =
     (if c = quote_char then [backslash_char, quote_char]
      else if c = backslash_char then [backslash_char, backslash_char]
      else if c = CHR 0x0A then [backslash_char, CHR ''n'']
      else if c = CHR 0x0D then [backslash_char, CHR ''r'']
      else if c = CHR 0x09 then [backslash_char, CHR ''t'']
      else if c = CHR 0x0C then [backslash_char, CHR ''f'']
      else if c = CHR 0x08 then [backslash_char, CHR ''b'']
      else if 32 \<le> (of_char c :: nat) \<and> (of_char c :: nat) \<le> 126 then [c]
      else [backslash_char, CHR ''u'', CHR ''0'', CHR ''0'',
            hex_char (of_char c div 16), hex_char (of_char c mod 16)])"

definition quote_str :: "string \<Rightarrow> string" where
  "quote_str s = quote_char # concat (map esc_char s) @ [quote_char]"

definition show_float :: "(rat \<Rightarrow> string) \<Rightarrow> pyfloat \<Rightarrow> string" where
  "show_float fr x = (case x of Fin q \<Rightarrow> fr q | PInf \<Rightarrow> ''Infinity'' | NInf \<Rightarrow> ''-Infinity'' | NaN \<Rightarrow> ''NaN'')"

text \<open>How \<open>dumps\<close> is called: the item and the key separator, and \<open>sort_keys\<close>.\<close>

record style =
  item_sep :: string
  key_sep :: string
  sort_keys :: bool

definition default_style :: style where
  "default_style = \<lparr>item_sep = '', '', key_sep = '': '', sort_keys = False\<rparr>"

definition canon_style :: style where
  "canon_style = \<lparr>item_sep = '','', key_sep = '':'', sort_keys = True\<rparr>"

fun dumps :: "(rat \<Rightarrow> string) \<Rightarrow> style \<Rightarrow> json \<Rightarrow> string" where
  "dumps fr st JNull = ''null''"
| "dumps fr st (JBool b) = (if b then ''true'' else ''false'')"
| "dumps fr st (JInt i) = show_int i"
| "dumps fr st (JFloat x) = show_float fr x"
| "dumps fr st (JStr s) = quote_str s"
| "dumps fr st (JList xs) = ''['' @ py_join (item_sep st) (map (dumps fr st) xs) @ '']''"
| "dumps fr st (JObj d) =
     (let items = map (\<lambda>(k, v). (k, dumps fr st v)) d;
          items = (if sort_keys st then sort_key fst items else items)
      in ''{'' @ py_join (item_sep st) (map (\<lambda>(k, t). quote_str k @ key_sep st @ t) items) @ ''}'')"

text \<open>What \<open>sort_keys\<close> does to a value, and the values whose text does not depend on the float
  printer and whose dictionaries have distinct keys.\<close>

fun jnorm :: "bool \<Rightarrow> json \<Rightarrow> json" where
  "jnorm b (JList xs) = JList (map (jnorm b) xs)"
| "jnorm b (JObj d) =
     (let items = map (\<lambda>(k, v). (k, jnorm b v)) d
      in JObj (if b then sort_key fst items else items))"
| "jnorm b v = v"

fun plain :: "json \<Rightarrow> bool" where
  "plain (JFloat x) = False"
| "plain (JList xs) = list_all plain xs"
| "plain (JObj d) = (dict_ok d \<and> list_all (\<lambda>(k, v). plain v) d)"
| "plain v = True"

section \<open>Parsing\<close>

definition is_ws :: "char \<Rightarrow> bool" where
  "is_ws c \<longleftrightarrow> c = CHR '' '' \<or> c = CHR 0x09 \<or> c = CHR 0x0A \<or> c = CHR 0x0D"

definition ws :: "string \<Rightarrow> string" where
  "ws s = dropWhile is_ws s"

definition hex_val :: "char \<Rightarrow> nat option" where
  "hex_val c =
     (let n = (of_char c :: nat)
      in if 48 \<le> n \<and> n \<le> 57 then Some (n - 48)
         else if 97 \<le> n \<and> n \<le> 102 then Some (n - 87)
         else if 65 \<le> n \<and> n \<le> 70 then Some (n - 55)
         else None)"

text \<open>The code point of \<open>\uXXXX\<close>, where it is one of the model's characters.\<close>

definition hex4 :: "char \<Rightarrow> char \<Rightarrow> char \<Rightarrow> char \<Rightarrow> char option" where
  "hex4 a b c d =
     (case (hex_val a, hex_val b, hex_val c, hex_val d) of
        (Some w, Some x, Some y, Some z) \<Rightarrow>
          (let n = ((w * 16 + x) * 16 + y) * 16 + z in if n < 256 then Some (char_of n) else None)
      | _ \<Rightarrow> None)"

definition unesc :: "char \<Rightarrow> char option" where
  "unesc e =
     (if e = quote_char \<or> e = backslash_char \<or> e = CHR ''/'' then Some e
      else if e = CHR ''n'' then Some (CHR 0x0A)
      else if e = CHR ''r'' then Some (CHR 0x0D)
      else if e = CHR ''t'' then Some (CHR 0x09)
      else if e = CHR ''f'' then Some (CHR 0x0C)
      else if e = CHR ''b'' then Some (CHR 0x08)
      else None)"

text \<open>The rest of a string after its opening quote.\<close>

definition cons_fst :: "char \<Rightarrow> (string \<times> string) option \<Rightarrow> (string \<times> string) option" where
  "cons_fst c p = map_option (\<lambda>(x, r). (c # x, r)) p"

fun pstr :: "string \<Rightarrow> (string \<times> string) option" where
  "pstr [] = None"
| "pstr (c # s) =
     (if c = quote_char then Some ([], s)
      else if c = backslash_char then
        (case s of
           [] \<Rightarrow> None
         | e # s' \<Rightarrow>
             if e = CHR ''u'' then
               (case s' of
                  h1 # h2 # h3 # h4 # s'' \<Rightarrow>
                    (case hex4 h1 h2 h3 h4 of None \<Rightarrow> None | Some x \<Rightarrow> cons_fst x (pstr s''))
                | _ \<Rightarrow> None)
             else (case unesc e of None \<Rightarrow> None | Some x \<Rightarrow> cons_fst x (pstr s')))
      else if (of_char c :: nat) < 32 then None
      else cons_fst c (pstr s))"

text \<open>Numbers: \<open>-?(0|[1-9]\d*)(\.\d+)?([eE][-+]?\d+)?\<close>.\<close>

definition pfrac :: "string \<Rightarrow> string option \<times> string" where
  "pfrac s =
     (case s of
        c # r \<Rightarrow> if c = CHR ''.'' \<and> takeWhile is_digit r \<noteq> []
                 then (Some (takeWhile is_digit r), dropWhile is_digit r) else (None, s)
      | [] \<Rightarrow> (None, s))"

definition pexp :: "string \<Rightarrow> int option \<times> string" where
  "pexp s =
     (case s of
        [] \<Rightarrow> (None, s)
      | c # r \<Rightarrow>
          if c = CHR ''e'' \<or> c = CHR ''E'' then
            (let neg = (case r of d # _ \<Rightarrow> d = CHR ''-'' | [] \<Rightarrow> False);
                 r' = (case r of d # t \<Rightarrow> if d = CHR ''-'' \<or> d = CHR ''+'' then t else r | [] \<Rightarrow> r);
                 ds = takeWhile is_digit r'
             in if ds = [] then (None, s)
                else (Some (if neg then - int (digits_val ds) else int (digits_val ds)), dropWhile is_digit r'))
          else (None, s))"

definition to_float :: "rat \<Rightarrow> pyfloat" where
  "to_float x = (if x \<ge> 2 ^ 1024 - 2 ^ 970 then PInf else if x \<le> - (2 ^ 1024 - 2 ^ 970) then NInf else Fin x)"

definition scale10 :: "int \<Rightarrow> rat \<Rightarrow> rat" where
  "scale10 e x = (if e \<ge> 0 then x * 10 ^ nat e else x / 10 ^ nat (- e))"

definition pnum :: "string \<Rightarrow> (json \<times> string) option" where
  "pnum s =
     (let neg = (case s of c # _ \<Rightarrow> c = CHR ''-'' | [] \<Rightarrow> False);
          r = (if neg then tl s else s)
      in case r of
           [] \<Rightarrow> None
         | c # r' \<Rightarrow>
             if \<not> is_digit c then None
             else
               (let ip = (if c = CHR ''0'' then [c] else takeWhile is_digit r);
                    r1 = (if c = CHR ''0'' then r' else dropWhile is_digit r);
                    fr = pfrac r1;
                    ex = pexp (snd fr);
                    i = int (digits_val ip)
                in if fst fr = None \<and> fst ex = None
                   then Some (JInt (if neg then - i else i), r1)
                   else
                     (let fd = (case fst fr of None \<Rightarrow> [] | Some d \<Rightarrow> d);
                          e = (case fst ex of None \<Rightarrow> 0 | Some e \<Rightarrow> e);
                          m = scale10 (e - int (length fd)) (of_nat (digits_val (ip @ fd)))
                      in Some (JFloat (to_float (if neg then - m else m)), snd ex))))"

text \<open>Values without components.\<close>

definition pscalar :: "string \<Rightarrow> (json \<times> string) option" where
  "pscalar s =
     (if starts_with s [quote_char] then map_option (\<lambda>(x, r). (JStr x, r)) (pstr (tl s))
      else if starts_with s ''null'' then Some (JNull, drop 4 s)
      else if starts_with s ''true'' then Some (JBool True, drop 4 s)
      else if starts_with s ''false'' then Some (JBool False, drop 5 s)
      else if starts_with s ''NaN'' then Some (JFloat NaN, drop 3 s)
      else if starts_with s ''Infinity'' then Some (JFloat PInf, drop 8 s)
      else if starts_with s ''-Infinity'' then Some (JFloat NInf, drop 9 s)
      else pnum s)"

text \<open>The key of a member, up to its value.\<close>

definition pkey :: "string \<Rightarrow> (string \<times> string) option" where
  "pkey s =
     (case s of
        [] \<Rightarrow> None
      | q # r \<Rightarrow>
          if q \<noteq> quote_char then None
          else (case pstr r of
                  None \<Rightarrow> None
                | Some (k, r1) \<Rightarrow>
                    (case ws r1 of [] \<Rightarrow> None | c # r2 \<Rightarrow> if c = CHR '':'' then Some (k, ws r2) else None)))"

fun pval :: "nat \<Rightarrow> string \<Rightarrow> (json \<times> string) option"
  and pelems :: "nat \<Rightarrow> json list \<Rightarrow> string \<Rightarrow> (json \<times> string) option"
  and pmembers :: "nat \<Rightarrow> (string \<times> json) list \<Rightarrow> string \<Rightarrow> (json \<times> string) option" where
  "pval 0 s = None"
| "pval (Suc n) s =
     (case s of
        [] \<Rightarrow> None
      | c # r \<Rightarrow>
          if c = CHR ''{'' then
            (case ws r of [] \<Rightarrow> None
             | d # r' \<Rightarrow> if d = CHR ''}'' then Some (JObj [], r') else pmembers n [] (d # r'))
          else if c = CHR ''['' then
            (case ws r of [] \<Rightarrow> None
             | d # r' \<Rightarrow> if d = CHR '']'' then Some (JList [], r') else pelems n [] (d # r'))
          else pscalar s)"
| "pelems 0 acc s = None"
| "pelems (Suc n) acc s =
     (case pval n s of
        None \<Rightarrow> None
      | Some (v, r) \<Rightarrow>
          (case ws r of
             [] \<Rightarrow> None
           | c # r' \<Rightarrow>
               if c = CHR '','' then pelems n (acc @ [v]) (ws r')
               else if c = CHR '']'' then Some (JList (acc @ [v]), r')
               else None))"
| "pmembers 0 acc s = None"
| "pmembers (Suc n) acc s =
     (case pkey s of
        None \<Rightarrow> None
      | Some (k, s') \<Rightarrow>
          (case pval n s' of
             None \<Rightarrow> None
           | Some (v, r) \<Rightarrow>
               (case ws r of
                  [] \<Rightarrow> None
                | c # r' \<Rightarrow>
                    if c = CHR '','' then pmembers n (AList.update k v acc) (ws r')
                    else if c = CHR ''}'' then Some (JObj (AList.update k v acc), r')
                    else None)))"

text \<open>\<open>json.loads(s)\<close>: \<open>None\<close> is the \<open>JSONDecodeError\<close> (a \<open>ValueError\<close>).\<close>

definition loads :: "string \<Rightarrow> json option" where
  "loads s =
     (case pval (2 * length s + 2) (ws s) of
        None \<Rightarrow> None
      | Some (v, r) \<Rightarrow> if ws r = [] then Some v else None)"

section \<open>Every parser consumes its input\<close>

lemma length_ws: "length (ws s) \<le> length s"
  by (simp add: ws_def length_dropWhile_le)

lemma ws_shorter: "ws s = c # r \<Longrightarrow> length r < length s"
  using length_ws [of s] by simp

lemma length_dropWhile_digits: "length (dropWhile is_digit s) \<le> length s"
  by (rule length_dropWhile_le)

lemma pstr_shorter: "pstr s = Some (x, r) \<Longrightarrow> length r < length s"
proof (induction s arbitrary: x r rule: pstr.induct)
  case (2 c s)
  then show ?case
    by (fastforce simp: cons_fst_def split: if_splits list.splits option.splits)
qed simp

lemma pfrac_length: "length (snd (pfrac s)) \<le> length s"
  by (cases s) (auto simp: pfrac_def intro: le_SucI length_dropWhile_digits)

lemma pexp_length: "length (snd (pexp s)) \<le> length s"
proof (cases s)
  case (Cons c r)
  have "length (dropWhile is_digit r) \<le> length r" "length (dropWhile is_digit (tl r)) \<le> length r"
    using length_dropWhile_digits [of r] length_dropWhile_digits [of "tl r"] by simp_all
  with Cons show ?thesis
    by (auto simp: pexp_def Let_def split: list.splits)
qed (simp add: pexp_def)

lemma pnum_shorter: "pnum s = Some (v, r) \<Longrightarrow> length r < length s"
proof -
  assume num: "pnum s = Some (v, r)"
  define neg where "neg = (case s of c # _ \<Rightarrow> c = CHR ''-'' | [] \<Rightarrow> False)"
  define t where "t = (if neg then tl s else s)"
  have t: "length t \<le> length s" by (simp add: t_def)
  from num obtain c t' where ct: "t = c # t'" and dig: "is_digit c"
    by (auto simp: pnum_def neg_def [symmetric] t_def [symmetric] Let_def split: list.splits if_splits)
  define r1 where "r1 = (if c = CHR ''0'' then t' else dropWhile is_digit t)"
  have r1: "length r1 < length t"
    using ct dig length_dropWhile_digits [of t'] by (simp add: r1_def le_imp_less_Suc)
  have "r = r1 \<or> r = snd (pexp (snd (pfrac r1)))"
    using num ct dig
    by (auto simp: pnum_def neg_def [symmetric] t_def [symmetric] r1_def Let_def split: if_splits)
  then have "length r \<le> length r1"
    using pexp_length [of "snd (pfrac r1)"] pfrac_length [of r1] by auto
  with r1 t show ?thesis by simp
qed

lemma pscalar_shorter: "pscalar s = Some (v, r) \<Longrightarrow> length r < length s"
proof -
  have ne: "starts_with s (c # p) \<Longrightarrow> 0 < length s" for c p
    by (auto simp: starts_with_iff)
  assume sc: "pscalar s = Some (v, r)"
  show ?thesis
  proof (cases "starts_with s [quote_char]")
    case True
    with sc pstr_shorter show ?thesis
      by (fastforce simp: pscalar_def starts_with_iff)
  next
    case False
    with sc show ?thesis
      by (auto simp: pscalar_def dest: pnum_shorter ne split: if_splits)
  qed
qed

lemma pkey_shorter: "pkey s = Some (k, r) \<Longrightarrow> length r < length s"
proof -
  assume "pkey s = Some (k, r)"
  then obtain q t r1 r2 where s: "s = q # t" and t: "pstr t = Some (k, r1)"
    and r1: "ws r1 = CHR '':'' # r2" and r: "r = ws r2"
    by (auto simp: pkey_def split: list.splits if_splits option.splits)
  from pstr_shorter [OF t] ws_shorter [OF r1] length_ws [of r2] s r show ?thesis by simp
qed

lemma parser_shorter:
  "pval n s = Some (v, r) \<Longrightarrow> length r < length s"
  "pelems n acc s = Some (v, r) \<Longrightarrow> length r < length s"
  "pmembers n mem s = Some (v, r) \<Longrightarrow> length r < length s"
proof (induction n s and n acc s and n mem s arbitrary: v r and v r and v r
    rule: pval_pelems_pmembers.induct)
  case (2 n s)
  then show ?case
    by (fastforce split: list.splits if_splits dest: pscalar_shorter ws_shorter)
next
  case (4 n acc s)
  from "4.prems" obtain v1 r1 c r2 where v1: "pval n s = Some (v1, r1)" and r1: "ws r1 = c # r2"
    and rest: "(if c = CHR '','' then pelems n (acc @ [v1]) (ws r2)
               else if c = CHR '']'' then Some (JList (acc @ [v1]), r2) else None) = Some (v, r)"
    by (auto split: option.splits list.splits)
  have "length r \<le> length r2"
    using rest "4.IH"(2) [OF v1 refl r1] length_ws [of r2] by (fastforce split: if_splits)
  with "4.IH"(1) [OF v1] ws_shorter [OF r1] show ?case by simp
next
  case (6 n acc s)
  from "6.prems" obtain k s' v1 r1 c r2 where k: "pkey s = Some (k, s')"
    and v1: "pval n s' = Some (v1, r1)" and r1: "ws r1 = c # r2"
    and rest: "(if c = CHR '','' then pmembers n (AList.update k v1 acc) (ws r2)
               else if c = CHR ''}'' then Some (JObj (AList.update k v1 acc), r2) else None) = Some (v, r)"
    by (auto split: option.splits list.splits)
  have "length r \<le> length r2"
    using rest "6.IH"(2) [OF k refl v1 refl r1] length_ws [of r2] by (fastforce split: if_splits)
  with "6.IH"(1) [OF k refl v1] ws_shorter [OF r1] pkey_shorter [OF k] show ?case by simp
qed simp_all

text \<open>A parsed object has distinct keys.\<close>

lemma pnum_not_JObj: "pnum s \<noteq> Some (JObj d, r)"
  by (auto simp: pnum_def Let_def split: list.splits)

lemma pscalar_not_JObj: "pscalar s \<noteq> Some (JObj d, r)"
  using pnum_not_JObj by (auto simp: pscalar_def)

lemma pelems_not_JObj: "pelems n acc s \<noteq> Some (JObj d, r)"
  by (induction n arbitrary: acc s) (auto split: option.splits list.splits)

lemma pmembers_dict_ok: "pmembers n mem s = Some (JObj d, r) \<Longrightarrow> dict_ok mem \<Longrightarrow> dict_ok d"
proof (induction n arbitrary: mem s)
  case (Suc n)
  from Suc.prems(1) obtain k s' v r1 c r2 where
    "(if c = CHR '','' then pmembers n (AList.update k v mem) (ws r2)
      else if c = CHR ''}'' then Some (JObj (AList.update k v mem), r2) else None) = Some (JObj d, r)"
    by (auto split: option.splits list.splits)
  with Suc.IH [of "AList.update k v mem"] Suc.prems(2) show ?case
    by (auto split: if_splits)
qed simp

lemma pval_dict_ok: "pval n s = Some (JObj d, r) \<Longrightarrow> dict_ok d"
  using pscalar_not_JObj pelems_not_JObj
  by (cases n) (auto split: list.splits if_splits dest: pmembers_dict_ok)

section \<open>The fuel of \<open>loads\<close> is enough\<close>

text \<open>
  With more than twice the length of the text (plus one where a list of elements is read), the
  fuel does not matter: \<open>None\<close> means a syntax error, never an exhausted counter.
\<close>

lemma fuel_irrelevant:
  "(2 * length s < n \<longrightarrow> 2 * length s < m \<longrightarrow> pval n s = pval m s)
   \<and> (2 * length s + 1 < n \<longrightarrow> 2 * length s + 1 < m \<longrightarrow> pelems n acc s = pelems m acc s)
   \<and> (2 * length s + 1 < n \<longrightarrow> 2 * length s + 1 < m \<longrightarrow> pmembers n mem s = pmembers m mem s)"
proof (induction n arbitrary: m s acc mem)
  case 0
  then show ?case by simp
next
  case (Suc n)
  show ?case
  proof (cases m)
    case 0
    then show ?thesis by simp
  next
    case m: (Suc k)
    have val: "pval n t = pval k t" if "2 * length t < n" "2 * length t < k" for t
      using Suc that by blast
    have els: "pelems n acc t = pelems k acc t" if "2 * length t + 1 < n" "2 * length t + 1 < k" for acc t
      using Suc that by blast
    have mems: "pmembers n mem t = pmembers k mem t" if "2 * length t + 1 < n" "2 * length t + 1 < k" for mem t
      using Suc that by blast
    have 1: "pval (Suc n) s = pval m s" if "2 * length s < Suc n" "2 * length s < m"
      using that m by (auto intro!: els mems dest: ws_shorter split: list.splits)
    have 2: "pelems (Suc n) acc s = pelems m acc s" if less: "2 * length s + 1 < Suc n" "2 * length s + 1 < m"
    proof -
      have "pelems n acc' (ws r') = pelems k acc' (ws r')"
        if "pval n s = Some (v, r)" "ws r = c # r'" for v r c r' acc'
        using less m parser_shorter(1) [OF that(1)] ws_shorter [OF that(2)] length_ws [of r']
        by (intro els) simp_all
      with less m val [of s] show ?thesis
        by (auto split: option.splits list.splits)
    qed
    have 3: "pmembers (Suc n) mem s = pmembers m mem s" if less: "2 * length s + 1 < Suc n" "2 * length s + 1 < m"
    proof -
      have v: "pval n t = pval k t" if "pkey s = Some (x, t)" for x t
        using less m pkey_shorter [OF that] by (intro val) simp_all
      have "pmembers n mem' (ws r') = pmembers k mem' (ws r')"
        if "pkey s = Some (x, t)" "pval n t = Some (u, r)" "ws r = c # r'" for x t u r c r' mem'
        using less m pkey_shorter [OF that(1)] parser_shorter(1) [OF that(2)] ws_shorter [OF that(3)]
          length_ws [of r']
        by (intro mems) simp_all
      with m v show ?thesis
        by (auto split: option.splits list.splits)
    qed
    from 1 2 3 show ?thesis by blast
  qed
qed

lemmas pval_fuel = fuel_irrelevant [THEN conjunct1, rule_format]

section \<open>Parsing inverts printing\<close>

subsection \<open>Strings\<close>

lemma hex_val_hex_char: "n < 16 \<Longrightarrow> hex_val (hex_char n) = Some n"
  by (auto simp: hex_val_def hex_char_def)

lemma hex_val_0: "hex_val (CHR ''0'') = Some 0"
  by (simp add: hex_val_def)

lemma hex4_byte: "hex4 (CHR ''0'') (CHR ''0'') (hex_char (of_char c div 16)) (hex_char (of_char c mod 16)) = Some c"
proof -
  have "(of_char c :: nat) < 256" by (rule nat_of_char_less_256)
  then have "(of_char c :: nat) div 16 < 16" by arith
  then show ?thesis
    by (simp add: hex4_def hex_val_0 hex_val_hex_char Let_def)
qed

lemma esc_char_cases:
  "c \<in> {quote_char, backslash_char, CHR 0x0A, CHR 0x0D, CHR 0x09, CHR 0x0C, CHR 0x08}
   \<or> (c \<noteq> quote_char \<and> c \<noteq> backslash_char \<and> 32 \<le> (of_char c :: nat) \<and> esc_char c = [c])
   \<or> esc_char c = [backslash_char, CHR ''u'', CHR ''0'', CHR ''0'',
            hex_char (of_char c div 16), hex_char (of_char c mod 16)]"
  by (simp add: esc_char_def)

lemma pstr_esc_char: "pstr (esc_char c @ t) = cons_fst c (pstr t)"
proof -
  consider (named) "c \<in> {quote_char, backslash_char, CHR 0x0A, CHR 0x0D, CHR 0x09, CHR 0x0C, CHR 0x08}"
    | (print) "c \<noteq> quote_char" "c \<noteq> backslash_char" "32 \<le> (of_char c :: nat)" "esc_char c = [c]"
    | (hex) "esc_char c = [backslash_char, CHR ''u'', CHR ''0'', CHR ''0'',
            hex_char (of_char c div 16), hex_char (of_char c mod 16)]"
    using esc_char_cases [of c] by blast
  then show ?thesis
  proof cases
    case named
    then show ?thesis by (auto simp: esc_char_def unesc_def)
  next
    case print
    then show ?thesis by (simp add: not_less)
  next
    case hex
    then show ?thesis by (simp add: hex4_byte)
  qed
qed

lemma pstr_quoted: "pstr (concat (map esc_char s) @ quote_char # rest) = Some (s, rest)"
  by (induction s) (simp_all add: pstr_esc_char cons_fst_def)

lemma quote_str_append: "quote_str s @ rest = quote_char # (concat (map esc_char s) @ quote_char # rest)"
  by (simp add: quote_str_def)

subsection \<open>Numbers\<close>

text \<open>What may follow a number without being read as part of it.\<close>

definition follow_ok :: "string \<Rightarrow> bool" where
  "follow_ok s \<longleftrightarrow> (case s of [] \<Rightarrow> True
     | c # _ \<Rightarrow> \<not> is_digit c \<and> c \<noteq> CHR ''.'' \<and> c \<noteq> CHR ''e'' \<and> c \<noteq> CHR ''E'')"

lemma follow_ok_Nil [simp]: "follow_ok []"
  by (simp add: follow_ok_def)

lemma follow_ok_special [simp]:
  "follow_ok (CHR '','' # s)" "follow_ok (CHR '']'' # s)" "follow_ok (CHR ''}'' # s)"
  by (simp_all add: follow_ok_def is_digit_def)

lemma follow_ok_frac [simp]: "follow_ok s \<Longrightarrow> pfrac s = (None, s)"
  by (cases s) (auto simp: follow_ok_def pfrac_def)

lemma follow_ok_exp [simp]: "follow_ok s \<Longrightarrow> pexp s = (None, s)"
  by (cases s) (auto simp: follow_ok_def pexp_def)

lemma digits_append:
  assumes "list_all is_digit ds" "follow_ok rest"
  shows "takeWhile is_digit (ds @ rest) = ds" "dropWhile is_digit (ds @ rest) = rest"
proof -
  have rest: "takeWhile is_digit rest = []" "dropWhile is_digit rest = rest"
    using assms(2) by (cases rest; simp add: follow_ok_def)+
  have all: "\<And>x. x \<in> set ds \<Longrightarrow> is_digit x"
    using assms(1) by (simp add: list_all_iff)
  from rest all show "takeWhile is_digit (ds @ rest) = ds" "dropWhile is_digit (ds @ rest) = rest"
    by (simp_all add: takeWhile_append2 dropWhile_append2)
qed

lemma show_nat_Cons: obtains c ds where "show_nat n = c # ds" "is_digit c"
    "c = CHR ''0'' \<longleftrightarrow> n = 0" "c = CHR ''0'' \<longrightarrow> ds = []"
proof -
  obtain c ds where s: "show_nat n = c # ds" by (cases "show_nat n") simp_all
  show thesis
  proof (rule that [of c ds])
    show "show_nat n = c # ds" by (rule s)
    show "is_digit c" using show_nat_digits [of n] s by simp
    show zero: "c = CHR ''0'' \<longleftrightarrow> n = 0" using hd_show_nat [of n] s by simp
    show "c = CHR ''0'' \<longrightarrow> ds = []" using zero s by (cases "n = 0") auto
  qed
qed

lemma digit_not_minus: "is_digit c \<Longrightarrow> c \<noteq> CHR ''-''"
  by auto

lemma pnum_show_int: "follow_ok rest \<Longrightarrow> pnum (show_int i @ rest) = Some (JInt i, rest)"
proof -
  assume rest: "follow_ok rest"
  define n where "n = nat \<bar>i\<bar>"
  obtain c ds where s: "show_nat n = c # ds" "is_digit c" "c = CHR ''0'' \<longleftrightarrow> n = 0"
      "c = CHR ''0'' \<longrightarrow> ds = []"
    by (rule show_nat_Cons [of n])
  have all: "list_all is_digit (c # ds)" using show_nat_digits [of n] s(1) by simp
  have val: "digits_val (c # ds) = n" using digits_val_show_nat [of n] s(1) by simp
  note parts = digits_append [OF all rest]
  have i: "show_int i = (if i < 0 then CHR ''-'' # c # ds else c # ds)"
    using s(1) by (auto simp: show_int_def n_def)
  have minus: "c \<noteq> CHR ''-''" using s(2) by (rule digit_not_minus)
  show ?thesis
  proof (cases "c = CHR ''0''")
    case True
    with s(2,3,4) i val show ?thesis by (simp add: pnum_def Let_def rest n_def)
  next
    case False
    with i val parts minus s(2) show ?thesis
      by (auto simp: pnum_def Let_def rest n_def)
  qed
qed

subsection \<open>Values\<close>

lemma sort_key_map_fst:
  "sort_key fst (map (\<lambda>(k, v). (k, f v)) d) = map (\<lambda>(k, v). (k, f v)) (sort_key fst d)"
proof -
  have ins: "insort_key fst (k, f v) (map (\<lambda>(k, v). (k, f v)) d)
      = map (\<lambda>(k, v). (k, f v)) (insort_key fst (k, v) d)" for k v d
    by (induction d) auto
  show ?thesis
    by (induction d) (auto simp: sort_key_def ins)
qed

definition sorted_items :: "bool \<Rightarrow> (string \<times> 'v) list \<Rightarrow> (string \<times> 'v) list" where
  "sorted_items b d = (if b then sort_key fst d else d)"

definition member_text :: "(rat \<Rightarrow> string) \<Rightarrow> style \<Rightarrow> string \<times> json \<Rightarrow> string" where
  "member_text fr st m = quote_str (fst m) @ key_sep st @ dumps fr st (snd m)"

lemma set_sorted_items [simp]: "set (sorted_items b d) = set d"
  by (simp add: sorted_items_def)

lemma dict_ok_sorted_items [simp]: "dict_ok (sorted_items b d) = dict_ok d"
proof (cases b)
  case True
  have "mset (map fst (sort_key fst d)) = mset (map fst d)" by simp
  then have "distinct (map fst (sort_key fst d)) = distinct (map fst d)"
    by (rule mset_eq_imp_distinct_iff)
  with True show ?thesis by (simp add: sorted_items_def dict_ok_def)
qed (simp add: sorted_items_def)

lemma dumps_JObj:
  "dumps fr st (JObj d) =
    ''{'' @ py_join (item_sep st) (map (member_text fr st) (sorted_items (sort_keys st) d)) @ ''}''"
proof -
  have "map (\<lambda>(k, t). quote_str k @ key_sep st @ t) (map (\<lambda>(k, v). (k, dumps fr st v)) e)
      = map (member_text fr st) e" for e
    by (simp add: member_text_def case_prod_beta)
  then show ?thesis
    by (simp add: Let_def sorted_items_def sort_key_map_fst del: map_map)
qed

lemma jnorm_JObj:
  "jnorm b (JObj d) = JObj (map (\<lambda>(k, v). (k, jnorm b v)) (sorted_items b d))"
  by (simp add: Let_def sorted_items_def sort_key_map_fst)

declare dumps.simps(7) [simp del] jnorm.simps(2) [simp del]
declare dumps_JObj [simp] jnorm_JObj [simp]

text \<open>A printed value starts a value: not with white space, and not with a closing bracket.\<close>

definition starts_value :: "string \<Rightarrow> bool" where
  "starts_value s \<longleftrightarrow> (case s of [] \<Rightarrow> False
     | c # _ \<Rightarrow> \<not> is_ws c \<and> c \<noteq> CHR '']'' \<and> c \<noteq> CHR ''}'')"

lemma digit_starts_value: "is_digit c \<Longrightarrow> starts_value (c # s)"
  by (auto simp: starts_value_def is_digit_def is_ws_def)

lemma starts_value_show_int: "starts_value (show_int i @ s)"
proof -
  obtain c ds where "show_nat (nat \<bar>i\<bar>) = c # ds" "is_digit c"
    by (rule show_nat_Cons [of "nat \<bar>i\<bar>"])
  then show ?thesis
    by (auto simp: show_int_def digit_starts_value) (simp add: starts_value_def is_ws_def)
qed

lemma starts_value_dumps: "plain v \<Longrightarrow> starts_value (dumps fr st v @ s)"
  by (cases v)
    (simp_all add: starts_value_show_int, simp_all add: starts_value_def is_ws_def quote_str_def)

lemma starts_value_ws [simp]: "starts_value s \<Longrightarrow> ws s = s"
  by (cases s) (simp_all add: starts_value_def ws_def)

lemma ws_append_ws: "list_all is_ws w \<Longrightarrow> ws (w @ s) = ws s"
  by (induction w) (simp_all add: ws_def)

lemma ws_special [simp]:
  "ws (CHR '','' # s) = CHR '','' # s" "ws (CHR '']'' # s) = CHR '']'' # s"
  "ws (CHR ''}'' # s) = CHR ''}'' # s" "ws (CHR '':'' # s) = CHR '':'' # s"
  "ws (quote_char # s) = quote_char # s" "ws [] = []"
  by (simp_all add: ws_def is_ws_def)

lemma pscalar_digit:
  assumes "is_digit c"
  shows "pscalar (c # s) = pnum (c # s)" "pscalar (CHR ''-'' # c # s) = pnum (CHR ''-'' # c # s)"
proof -
  have ne: "(c = d) = False" if "\<not> is_digit d" for d using assms that by auto
  have c: "(c = quote_char) = False" "(c = CHR ''n'') = False" "(c = CHR ''t'') = False"
      "(c = CHR ''f'') = False" "(c = CHR ''N'') = False" "(c = CHR ''I'') = False"
      "(c = CHR ''-'') = False"
    by (rule ne, simp add: is_digit_def)+
  show "pscalar (c # s) = pnum (c # s)" "pscalar (CHR ''-'' # c # s) = pnum (CHR ''-'' # c # s)"
    by (simp_all add: pscalar_def c)
qed

lemma pscalar_show_int: "follow_ok rest \<Longrightarrow> pscalar (show_int i @ rest) = Some (JInt i, rest)"
proof -
  assume rest: "follow_ok rest"
  obtain c ds where s: "show_nat (nat \<bar>i\<bar>) = c # ds" and c: "is_digit c"
    by (rule show_nat_Cons [of "nat \<bar>i\<bar>"])
  have "pscalar (show_int i @ rest) = pnum (show_int i @ rest)"
    using s c by (cases "i < 0") (simp_all add: show_int_def pscalar_digit)
  with pnum_show_int [OF rest] show ?thesis by simp
qed

text \<open>The separators of a style: a comma or a colon, then white space.\<close>

definition style_ok :: "style \<Rightarrow> bool" where
  "style_ok st \<longleftrightarrow>
     (case item_sep st of [] \<Rightarrow> False | c # w \<Rightarrow> c = CHR '','' \<and> list_all is_ws w)
     \<and> (case key_sep st of [] \<Rightarrow> False | c # w \<Rightarrow> c = CHR '':'' \<and> list_all is_ws w)"

lemma style_ok_seps:
  assumes "style_ok st"
  obtains u w where "item_sep st = CHR '','' # u" "list_all is_ws u"
    and "key_sep st = CHR '':'' # w" "list_all is_ws w"
  using assms by (auto simp: style_ok_def split: list.splits)

lemma sort_keys_styles [simp]: "sort_keys default_style = False" "sort_keys canon_style = True"
  by (simp_all add: default_style_def canon_style_def)

lemma style_ok_default [simp]: "style_ok default_style"
  by (simp add: style_ok_def default_style_def is_ws_def)

lemma style_ok_canon [simp]: "style_ok canon_style"
  by (simp add: style_ok_def canon_style_def)

text \<open>
  \<open>reads f t v\<close>: with enough fuel, the parser \<open>f\<close> reads \<open>v\<close> from the text \<open>t\<close>, whatever
  follows it.
\<close>

definition reads :: "(nat \<Rightarrow> string \<Rightarrow> (json \<times> string) option) \<Rightarrow> string \<Rightarrow> json \<Rightarrow> bool" where
  "reads f t v \<longleftrightarrow> (\<exists>k. \<forall>n\<ge>k. \<forall>rest. follow_ok rest \<longrightarrow> f n (t @ rest) = Some (v, rest))"

lemma readsI: "(\<And>n rest. k \<le> n \<Longrightarrow> follow_ok rest \<Longrightarrow> f n (t @ rest) = Some (v, rest)) \<Longrightarrow> reads f t v"
  unfolding reads_def by blast

lemma readsE:
  assumes "reads f t v"
  obtains k where "\<forall>n\<ge>k. \<forall>rest. follow_ok rest \<longrightarrow> f n (t @ rest) = Some (v, rest)"
  using assms unfolding reads_def by blast

lemma reads_scalar:
  assumes "\<And>rest. follow_ok rest \<Longrightarrow> pscalar (t @ rest) = Some (v, rest)"
    and "t \<noteq> []" and "hd t \<noteq> CHR ''{''" and "hd t \<noteq> CHR ''[''"
  shows "reads pval t v"
proof (rule readsI [where k = "1 :: nat"])
  fix n :: nat and rest assume "1 \<le> n" and rest: "follow_ok rest"
  then obtain m where n: "n = Suc m" by (cases n) simp_all
  from assms(2-4) obtain c t' where t: "t = c # t'" "c \<noteq> CHR ''{''" "c \<noteq> CHR ''[''"
    by (cases t) simp_all
  with assms(1) [OF rest] show "pval n (t @ rest) = Some (v, rest)" by (simp add: n)
qed

lemma hd_show_int: "hd (show_int i) \<noteq> CHR ''{'' \<and> hd (show_int i) \<noteq> CHR ''[''"
proof -
  have "list_all number_char (show_int i)" by (rule show_int_number_chars)
  then have "number_char (hd (show_int i))" by (cases "show_int i") simp_all
  then show ?thesis by (auto simp: number_char_def is_digit_def)
qed

text \<open>White space may follow each element and member, and the opening bracket.\<close>

lemma follow_ok_ws: "list_all is_ws z \<Longrightarrow> follow_ok (z @ s) = (z \<noteq> [] \<or> follow_ok s)"
  by (cases z) (auto simp: follow_ok_def is_ws_def is_digit_def)

lemma reads_elems:
  assumes sep: "sep = CHR '','' # u" "list_all is_ws u" and close: "list_all is_ws z"
    and "xs \<noteq> []"
    and "\<And>x s. x \<in> set xs \<Longrightarrow> starts_value (tx x @ s)"
    and "\<And>x. x \<in> set xs \<Longrightarrow> reads pval (tx x) (g x)"
  shows "reads (\<lambda>n. pelems n acc) (py_join sep (map tx xs) @ z @ '']'') (JList (acc @ map g xs))"
  using assms(4-)
proof (induction xs arbitrary: acc rule: list_nonempty_induct)
  case (single x)
  then have "reads pval (tx x) (g x)" by simp
  then obtain k where k: "\<forall>n\<ge>k. \<forall>rest. follow_ok rest \<longrightarrow> pval n (tx x @ rest) = Some (g x, rest)"
    by (rule readsE)
  show ?case
  proof (rule readsI [where k = "Suc k"])
    fix n rest assume "Suc k \<le> n"
    then obtain m where n: "n = Suc m" "k \<le> m" by (cases n) simp_all
    show "pelems n acc ((py_join sep (map tx [x]) @ z @ '']'') @ rest) = Some (JList (acc @ map g [x]), rest)"
      using k [rule_format, OF n(2), of "z @ CHR '']'' # rest"]
      by (simp add: n(1) follow_ok_ws [OF close] ws_append_ws [OF close])
  qed
next
  case (cons x xs)
  from cons.prems have "reads pval (tx x) (g x)" by simp
  then obtain k where k: "\<forall>n\<ge>k. \<forall>rest. follow_ok rest \<longrightarrow> pval n (tx x @ rest) = Some (g x, rest)"
    by (rule readsE)
  define ts where "ts = py_join sep (map tx xs)"
  have join: "py_join sep (map tx (x # xs)) = tx x @ sep @ ts"
    using cons.hyps by (cases xs) (simp_all add: ts_def)
  have "reads (\<lambda>n. pelems n (acc @ [g x])) (ts @ z @ '']'') (JList ((acc @ [g x]) @ map g xs))"
    unfolding ts_def by (rule cons.IH) (simp_all add: cons.prems)
  then obtain l where l: "\<forall>n\<ge>l. \<forall>rest. follow_ok rest \<longrightarrow>
      pelems n (acc @ [g x]) ((ts @ z @ '']'') @ rest) = Some (JList ((acc @ [g x]) @ map g xs), rest)"
    by (rule readsE)
  have start: "ws (ts @ s) = ts @ s" for s
  proof -
    from cons.hyps obtain y ys where xs: "xs = y # ys" by (cases xs) simp_all
    have "starts_value (tx y @ t)" for t by (simp add: xs cons.prems)
    then show ?thesis by (cases ys) (simp_all add: xs ts_def)
  qed
  show ?case
  proof (rule readsI [where k = "Suc (max k l)"])
    fix n rest assume "Suc (max k l) \<le> n" and rest: "follow_ok rest"
    then obtain m where n: "n = Suc m" "k \<le> m" "l \<le> m" by (cases n) simp_all
    let ?r = "CHR '','' # u @ ts @ z @ CHR '']'' # rest"
    have "pval m (tx x @ ?r) = Some (g x, ?r)"
      by (rule k [rule_format, OF n(2)]) simp
    then show "pelems n acc ((py_join sep (map tx (x # xs)) @ z @ '']'') @ rest) = Some (JList (acc @ map g (x # xs)), rest)"
      using l [rule_format, OF n(3) rest] unfolding n(1) join by (simp add: sep ws_append_ws start)
  qed
qed

lemma pkey_member:
  assumes "ks = CHR '':'' # w" "list_all is_ws w" and "starts_value t"
  shows "pkey (quote_str k @ ks @ t) = Some (k, t)"
  using assms by (simp add: pkey_def quote_str_append pstr_quoted ws_append_ws)

lemma update_new: "k \<notin> fst ` set d \<Longrightarrow> AList.update k v d = d @ [(k, v)]"
  by (induction d) auto

lemma reads_members:
  assumes sep: "is = CHR '','' # u" "list_all is_ws u" "ks = CHR '':'' # w" "list_all is_ws w"
    and close: "list_all is_ws z"
    and "d \<noteq> []"
    and "\<And>k x s. (k, x) \<in> set d \<Longrightarrow> starts_value (tx x @ s)"
    and "\<And>k x. (k, x) \<in> set d \<Longrightarrow> reads pval (tx x) (g x)"
    and "distinct (map fst d)" and "fst ` set acc \<inter> fst ` set d = {}"
  shows "reads (\<lambda>n. pmembers n acc) (py_join is (map (\<lambda>(k, x). quote_str k @ ks @ tx x) d) @ z @ ''}'')
      (JObj (acc @ map (\<lambda>(k, x). (k, g x)) d))"
  using assms(6-)
proof (induction d arbitrary: acc rule: list_nonempty_induct)
  case (single m)
  obtain key x where m: "m = (key, x)" by (cases m)
  with single.prems have "reads pval (tx x) (g x)" by simp
  then obtain k where k: "\<forall>n\<ge>k. \<forall>rest. follow_ok rest \<longrightarrow> pval n (tx x @ rest) = Some (g x, rest)"
    by (rule readsE)
  have start: "starts_value (tx x @ s)" for s using single.prems m by simp
  from single.prems m have new: "key \<notin> fst ` set acc" by auto
  show ?case
  proof (rule readsI [where k = "Suc k"])
    fix n rest assume "Suc k \<le> n"
    then obtain i where n: "n = Suc i" "k \<le> i" by (cases n) simp_all
    have "pmembers n acc (quote_str key @ ks @ tx x @ z @ CHR ''}'' # rest)
        = Some (JObj (acc @ [(key, g x)]), rest)"
      using k [rule_format, OF n(2), of "z @ CHR ''}'' # rest"]
      by (simp add: n(1) pkey_member [OF sep(3,4) start] update_new [OF new] follow_ok_ws [OF close] ws_append_ws [OF close])
    then show "pmembers n acc ((py_join is (map (\<lambda>(k, x). quote_str k @ ks @ tx x) [m]) @ z @ ''}'') @ rest) =
        Some (JObj (acc @ map (\<lambda>(k, x). (k, g x)) [m]), rest)"
      by (simp add: m)
  qed
next
  case (cons m d)
  obtain key x where m: "m = (key, x)" by (cases m)
  with cons.prems(2) [of key x] have "reads pval (tx x) (g x)" by simp
  then obtain k where k: "\<forall>n\<ge>k. \<forall>rest. follow_ok rest \<longrightarrow> pval n (tx x @ rest) = Some (g x, rest)"
    by (rule readsE)
  define ts where "ts = py_join is (map (\<lambda>(k, x). quote_str k @ ks @ tx x) d)"
  have join: "py_join is (map (\<lambda>(k, x). quote_str k @ ks @ tx x) (m # d))
      = quote_str key @ ks @ tx x @ is @ ts"
    using cons.hyps m by (cases d) (simp_all add: ts_def)
  from cons.prems m have new: "key \<notin> fst ` set acc" by auto
  have "reads (\<lambda>n. pmembers n (acc @ [(key, g x)])) (ts @ z @ ''}'')
      (JObj ((acc @ [(key, g x)]) @ map (\<lambda>(k, x). (k, g x)) d))"
    unfolding ts_def
  proof (rule cons.IH)
    show "starts_value (tx y @ s)" if "(k', y) \<in> set d" for k' y s
      by (rule cons.prems(1) [of k']) (use that in simp)
    show "reads pval (tx y) (g y)" if "(k', y) \<in> set d" for k' y
      by (rule cons.prems(2) [of k']) (use that in simp)
  qed (use cons.prems(3,4) m in auto)
  then obtain l where l: "\<forall>n\<ge>l. \<forall>rest. follow_ok rest \<longrightarrow>
      pmembers n (acc @ [(key, g x)]) ((ts @ z @ ''}'') @ rest)
      = Some (JObj ((acc @ [(key, g x)]) @ map (\<lambda>(k, x). (k, g x)) d), rest)"
    by (rule readsE)
  have start: "starts_value (tx x @ s)" for s using cons.prems m by auto
  have next_key: "ws (ts @ s) = ts @ s" for s
    using cons.hyps by (cases d; cases "tl d") (auto simp: ts_def quote_str_def)
  show ?case
  proof (rule readsI [where k = "Suc (max k l)"])
    fix n rest assume "Suc (max k l) \<le> n" and rest: "follow_ok rest"
    then obtain i where n: "n = Suc i" "k \<le> i" "l \<le> i" by (cases n) simp_all
    have "pval i (tx x @ CHR '','' # u @ ts @ z @ CHR ''}'' # rest)
        = Some (g x, CHR '','' # u @ ts @ z @ CHR ''}'' # rest)"
      by (rule k [rule_format, OF n(2)]) simp
    then show "pmembers n acc ((py_join is (map (\<lambda>(k, x). quote_str k @ ks @ tx x) (m # d)) @ z @ ''}'') @ rest) =
        Some (JObj (acc @ map (\<lambda>(k, x). (k, g x)) (m # d)), rest)"
      using l [rule_format, OF n(3) rest] m unfolding n(1) join
      by (simp add: pkey_member [OF sep(3,4) start] sep(1,2) ws_append_ws next_key update_new [OF new])
  qed
qed

lemma reads_bracket:
  assumes "reads p t v" and "starts_value t" and "p = (\<lambda>n. pelems n []) \<and> b = CHR ''['' \<or> p = (\<lambda>n. pmembers n []) \<and> b = CHR ''{''"
    and "list_all is_ws y"
  shows "reads pval (b # y @ t) v"
proof -
  from assms(1) obtain k where k: "\<forall>n\<ge>k. \<forall>rest. follow_ok rest \<longrightarrow> p n (t @ rest) = Some (v, rest)"
    by (rule readsE)
  from assms(2) obtain c t' where t: "t = c # t'" "\<not> is_ws c" "c \<noteq> CHR '']''" "c \<noteq> CHR ''}''"
    by (cases t) (simp_all add: starts_value_def)
  show ?thesis
  proof (rule readsI [where k = "Suc k"])
    fix n rest assume "Suc k \<le> n" and rest: "follow_ok rest"
    then obtain i where n: "n = Suc i" "k \<le> i" by (cases n) simp_all
    have "ws (y @ t @ rest) = c # t' @ rest" using t ws_append_ws [OF assms(4)] by (simp add: ws_def)
    with k [rule_format, OF n(2) rest] t assms(3) show "pval n ((b # y @ t) @ rest) = Some (v, rest)"
      by (auto simp: n(1))
  qed
qed

text \<open>The round trip at the level of values, by induction on the value.\<close>

lemma reads_dumps:
  assumes "style_ok st"
  shows "plain v \<Longrightarrow> reads pval (dumps fr st v) (jnorm (sort_keys st) v)"
proof (induction v)
  case (JInt i)
  have "reads pval (show_int i) (JInt i)"
    by (rule reads_scalar) (simp_all add: pscalar_show_int hd_show_int)
  then show ?case by simp
next
  case (JStr s)
  have "reads pval (quote_str s) (JStr s)"
    by (rule reads_scalar) (simp_all add: pscalar_def quote_str_append pstr_quoted, simp_all add: quote_str_def)
  then show ?case by simp
next
  case (JList xs)
  obtain u w where sep: "item_sep st = CHR '','' # u" "list_all is_ws u"
    by (rule style_ok_seps [OF assms])
  show ?case
  proof (cases "xs = []")
    case True
    show ?thesis unfolding True
      by (rule readsI [where k = 1], rename_tac n rest, case_tac n) simp_all
  next
    case False
    then obtain y ys where xs: "xs = y # ys" by (cases xs) simp_all
    have "starts_value (dumps fr st y @ s)" for s
      by (rule starts_value_dumps) (use JList.prems xs in simp)
    then have "starts_value (py_join (item_sep st) (map (dumps fr st) xs) @ '']'')"
      by (cases ys) (simp_all add: xs)
    moreover have "reads (\<lambda>n. pelems n []) (py_join (item_sep st) (map (dumps fr st) xs) @ [] @ '']'')
        (JList ([] @ map (jnorm (sort_keys st)) xs))"
      by (rule reads_elems [OF sep _ False]) (use JList in \<open>auto simp: list_all_iff starts_value_dumps\<close>)
    ultimately show ?thesis
      by (auto intro: reads_bracket [where y = "[]", simplified])
  qed
next
  case (JObj d)
  obtain u w where sep: "item_sep st = CHR '','' # u" "list_all is_ws u"
      "key_sep st = CHR '':'' # w" "list_all is_ws w"
    by (rule style_ok_seps [OF assms])
  define e where "e = sorted_items (sort_keys st) d"
  have e: "set e = set d" "distinct (map fst e)"
    using JObj.prems dict_ok_sorted_items [of "sort_keys st" d] by (simp_all add: e_def dict_ok_def)
  show ?case
  proof (cases "e = []")
    case True
    show ?thesis unfolding dumps_JObj jnorm_JObj e_def [symmetric] True
      by (rule readsI [where k = 1], rename_tac n rest, case_tac n) simp_all
  next
    case False
    have "starts_value (py_join (item_sep st) (map (member_text fr st) e) @ ''}'')"
      using False by (cases e; cases "tl e")
        (simp_all add: member_text_def quote_str_def starts_value_def is_ws_def)
    moreover have "member_text fr st = (\<lambda>(k, x). quote_str k @ key_sep st @ dumps fr st x)"
      by (auto simp: member_text_def)
    moreover have "reads (\<lambda>n. pmembers n [])
        (py_join (item_sep st) (map (\<lambda>(k, x). quote_str k @ key_sep st @ dumps fr st x) e) @ [] @ ''}'')
        (JObj ([] @ map (\<lambda>(k, x). (k, jnorm (sort_keys st) x)) e))"
      by (rule reads_members [OF sep _ False])
        (use JObj e in \<open>fastforce simp: list_all_iff snds.simps intro: starts_value_dumps\<close>)+
    ultimately show ?thesis
      unfolding dumps_JObj jnorm_JObj e_def [symmetric] by (auto intro: reads_bracket [where y = "[]", simplified])
  qed
qed (auto intro!: reads_scalar simp: pscalar_def)

theorem loads_dumps_ws:
  assumes "style_ok st" and "plain v" and "follow_ok w" and "ws w = []"
  shows "loads (dumps fr st v @ w) = Some (jnorm (sort_keys st) v)"
proof -
  let ?t = "dumps fr st v"
  obtain k where k: "\<forall>n\<ge>k. \<forall>rest. follow_ok rest \<longrightarrow> pval n (?t @ rest) = Some (jnorm (sort_keys st) v, rest)"
    by (rule readsE [OF reads_dumps [OF assms(1,2)]])
  have "pval (2 * length (?t @ w) + 2) (?t @ w) = pval (max k (2 * length (?t @ w) + 2)) (?t @ w)"
    by (rule pval_fuel) simp_all
  also have "\<dots> = Some (jnorm (sort_keys st) v, w)"
    using k [rule_format, of "max k (2 * length (?t @ w) + 2)" w] assms(3) by simp
  finally have "pval (2 * length (?t @ w) + 2) (?t @ w) = Some (jnorm (sort_keys st) v, w)" .
  moreover have "ws (?t @ w) = ?t @ w"
    using starts_value_dumps [OF assms(2), of fr st w] by simp
  ultimately show ?thesis using assms(4) by (simp add: loads_def)
qed

lemma loads_dumps: "style_ok st \<Longrightarrow> plain v \<Longrightarrow> loads (dumps fr st v) = Some (jnorm (sort_keys st) v)"
  using loads_dumps_ws [of st v "[]" fr] by (simp add: ws_def)

lemma loads_dict_ok: "loads s = Some (JObj d) \<Longrightarrow> dict_ok d"
  by (auto simp: loads_def dest: pval_dict_ok split: option.splits if_splits simp del: pval.simps)

section \<open>The interface: codecs\<close>

text \<open>
  What the clients of \<open>dumps\<close> and \<open>loads\<close> rely on: decoding an encoded value gives its
  normal form; for a canonical codec the encoding depends on the normal form only, so equal
  texts are equal values up to normal form.
\<close>

locale codec =
  fixes enc :: "'v \<Rightarrow> string" and dec :: "string \<Rightarrow> 'v option"
    and nf :: "'v \<Rightarrow> 'v" and wf :: "'v \<Rightarrow> bool"
  assumes dec_enc: "wf v \<Longrightarrow> dec (enc v) = Some (nf v)"
begin

lemma enc_determines: "wf v \<Longrightarrow> wf w \<Longrightarrow> enc v = enc w \<Longrightarrow> nf v = nf w"
  by (metis dec_enc option.inject)

end

locale canonical_codec = codec +
  assumes enc_nf: "wf v \<Longrightarrow> enc (nf v) = enc v"
begin

lemma enc_eq_iff: "wf v \<Longrightarrow> wf w \<Longrightarrow> enc v = enc w \<longleftrightarrow> nf v = nf w"
  by (metis enc_determines enc_nf)

lemma reencode: "wf v \<Longrightarrow> map_option enc (dec (enc v)) = Some (enc v)"
  by (simp add: dec_enc enc_nf)

end

lemma jnorm_False [simp]: "jnorm False v = v"
proof (induction v)
  case (JObj d)
  then have "map (\<lambda>(k, v). (k, jnorm False v)) d = d"
    by (intro map_idI) (auto simp: snds.simps)
  then show ?case by (simp add: sorted_items_def)
qed (auto intro: map_idI)

lemma sorted_items_idem:
  "sorted_items b (map (\<lambda>(k, v). (k, f v)) (sorted_items b d)) = map (\<lambda>(k, v). (k, f v)) (sorted_items b d)"
proof -
  have "sort_key fst (sort_key fst d) = sort_key fst d"
    by (rule sort_key_id_if_sorted) simp
  then show ?thesis by (simp add: sorted_items_def sort_key_map_fst)
qed

lemma dumps_jnorm: "dumps fr st (jnorm (sort_keys st) v) = dumps fr st v"
proof (induction v)
  case (JObj d)
  let ?e = "sorted_items (sort_keys st) d"
  have "map (member_text fr st) (map (\<lambda>(k, v). (k, jnorm (sort_keys st) v)) ?e) = map (member_text fr st) ?e"
    using JObj by (auto simp: member_text_def snds.simps)
  then show ?case
    by (simp only: jnorm_JObj dumps_JObj sorted_items_idem)
qed (simp_all cong: map_cong)

interpretation wire: codec "dumps fr default_style" loads "jnorm False" plain for fr
  by unfold_locales (simp add: loads_dumps)

interpretation canon: canonical_codec "dumps fr canon_style" loads "jnorm True" plain for fr
proof
  fix v assume "plain v"
  then show "loads (dumps fr canon_style v) = Some (jnorm True v)"
    by (simp add: loads_dumps)
  show "dumps fr canon_style (jnorm True v) = dumps fr canon_style v"
    using dumps_jnorm [of fr canon_style v] by simp
qed

section \<open>Values as text\<close>

text \<open>\<open>repr\<close> and \<open>str\<close> of a parsed value, as f-strings print it.\<close>

definition repr_quote :: "string \<Rightarrow> char" where
  "repr_quote s = (if CHR 0x27 \<in> set s \<and> quote_char \<notin> set s then quote_char else CHR 0x27)"

definition repr_char :: "char \<Rightarrow> char \<Rightarrow> string" where
  "repr_char q c =
     (let n = (of_char c :: nat)
      in if c = q \<or> c = backslash_char then [backslash_char, c]
         else if c = CHR 0x09 then [backslash_char, CHR ''t'']
         else if c = CHR 0x0A then [backslash_char, CHR ''n'']
         else if c = CHR 0x0D then [backslash_char, CHR ''r'']
         else if n < 32 \<or> (127 \<le> n \<and> n \<le> 160) \<or> n = 173
         then [backslash_char, CHR ''x'', hex_char (n div 16), hex_char (n mod 16)]
         else [c])"

definition repr_str :: "string \<Rightarrow> string" where
  "repr_str s = (let q = repr_quote s in q # concat (map (repr_char q) s) @ [q])"

fun py_repr :: "(rat \<Rightarrow> string) \<Rightarrow> json \<Rightarrow> string" where
  "py_repr fr JNull = ''None''"
| "py_repr fr (JBool b) = (if b then ''True'' else ''False'')"
| "py_repr fr (JInt i) = show_int i"
| "py_repr fr (JFloat x) = (case x of Fin q \<Rightarrow> fr q | PInf \<Rightarrow> ''inf'' | NInf \<Rightarrow> ''-inf'' | NaN \<Rightarrow> ''nan'')"
| "py_repr fr (JStr s) = repr_str s"
| "py_repr fr (JList xs) = ''['' @ py_join '', '' (map (py_repr fr) xs) @ '']''"
| "py_repr fr (JObj d) =
     ''{'' @ py_join '', '' (map (\<lambda>(k, v). repr_str k @ '': '' @ py_repr fr v) d) @ ''}''"

definition py_str :: "(rat \<Rightarrow> string) \<Rightarrow> json \<Rightarrow> string" where
  "py_str fr v = (case v of JStr s \<Rightarrow> s | _ \<Rightarrow> py_repr fr v)"

end
