(* ===== verification/Common.thy ===== *)
theory Common
  imports Json "HOL-Library.Word"
begin

text \<open>
  The helpers of \<^verbatim>\<open>src/common.py\<close>: the signed message and the two regular expressions that guard
  it, ECDSA signing and verification around the external library, key loading, secrets and their
  files, and the configuration.

  The functions of the \<^verbatim>\<open>cryptography\<close> package, SHA-256 and the float printer are the fields of the
  records \<open>hashing\<close> and \<open>ext\<close>, which the definitions take as an argument.
\<close>

unbundle bit_operations_syntax

section \<open>External functions\<close>

text \<open>\<open>sha256\<close> is \<open>hashlib.sha256(data).hexdigest()\<close>, \<open>float_repr\<close> prints a finite float.\<close>

record hashing =
  sha256 :: "bytes \<Rightarrow> string"
  float_repr :: "rat \<Rightarrow> string"

text \<open>
  The \<^verbatim>\<open>cryptography\<close> package: \<open>private_key.sign\<close>, \<open>public_key.verify\<close> (\<open>None\<close> where it returns,
  the exception where it raises), the DER encoding of a signature, and the loaders of public
  keys; \<open>is_p256\<close> is the test of the key's class and curve.
\<close>

record ('sk, 'pk) ext = hashing +
  ec_sign :: "'sk \<Rightarrow> bytes \<Rightarrow> bytes"
  ec_verify :: "'pk \<Rightarrow> bytes \<Rightarrow> bytes \<Rightarrow> exc option"
  encode_dss :: "nat \<Rightarrow> nat \<Rightarrow> bytes"
  load_pem :: "bytes \<Rightarrow> 'pk result"
  load_der :: "bytes \<Rightarrow> 'pk result"
  is_p256 :: "'pk \<Rightarrow> bool"

section \<open>Identifiers and nonces\<close>

definition PROTO :: string where
  "PROTO = ''remote-unlock/v2''"

definition MAX_SIG_HEX :: nat where
  "MAX_SIG_HEX = 200"

text \<open>
  \<open>$\<close> matches at the end of the text and also before a newline that ends the text, so both
  expressions accept one trailing newline.
\<close>

definition dollar_match :: "(string \<Rightarrow> bool) \<Rightarrow> string \<Rightarrow> bool" where
  "dollar_match p s \<longleftrightarrow> p s \<or> (s \<noteq> [] \<and> last s = newline_char \<and> p (butlast s))"

definition id_first :: "char \<Rightarrow> bool" where
  "id_first c \<longleftrightarrow> is_lower c \<or> is_digit c"

definition id_char :: "char \<Rightarrow> bool" where
  "id_char c \<longleftrightarrow> is_lower c \<or> is_digit c \<or> c = CHR ''-''"

definition id_body :: "string \<Rightarrow> bool" where
  "id_body s \<longleftrightarrow>
     (case s of [] \<Rightarrow> False | c # r \<Rightarrow> id_first c \<and> list_all id_char r \<and> length r \<le> 62)"

definition ID_RE :: "string \<Rightarrow> bool" where
  "ID_RE s = dollar_match id_body s"

definition nonce_body :: "string \<Rightarrow> bool" where
  "nonce_body s \<longleftrightarrow> length s = 32 \<and> list_all is_hex_lower s"

definition NONCE_RE :: "string \<Rightarrow> bool" where
  "NONCE_RE s = dollar_match nonce_body s"

section \<open>The signed message\<close>

abbreviation bar_char :: char where "bar_char \<equiv> CHR ''|''"

definition signed_message ::
  "string \<Rightarrow> string \<Rightarrow> int \<Rightarrow> string \<Rightarrow> string \<Rightarrow> bytes result" where
  "signed_message role nonce issued_ms device_id target_id =
     (if role \<noteq> ''challenge'' \<and> role \<noteq> ''response'' then Inl ValueError
      else if \<not> NONCE_RE nonce then Inl ValueError
      else if \<not> ID_RE device_id \<or> \<not> ID_RE target_id then Inl ValueError
      else Inr (utf8 (PROTO @ ''|'' @ role @ ''|'' @ nonce @ ''|'' @ show_int issued_ms @ ''|''
                      @ device_id @ ''|'' @ target_id @ ''|unlock'')))"

section \<open>Hexadecimal and base 64\<close>

definition hex_byte :: "char \<Rightarrow> string" where
  "hex_byte b = [hex_char (of_char b div 16), hex_char (of_char b mod 16)]"

text \<open>\<open>data.hex()\<close>.\<close>

definition to_hex :: "bytes \<Rightarrow> string" where
  "to_hex bs = concat (map hex_byte bs)"

definition is_ascii_space :: "char \<Rightarrow> bool" where
  "is_ascii_space c \<longleftrightarrow> c = CHR '' '' \<or> (9 \<le> (of_char c :: nat) \<and> (of_char c :: nat) \<le> 13)"

text \<open>\<open>bytes.fromhex(s)\<close>: white space between bytes is skipped, \<open>None\<close> is the \<open>ValueError\<close>.\<close>

fun fromhex :: "string \<Rightarrow> bytes option" where
  "fromhex [] = Some []"
| "fromhex (c # s) =
     (if is_ascii_space c then fromhex s
      else (case s of
              [] \<Rightarrow> None
            | d # s' \<Rightarrow>
                (case (hex_val c, hex_val d) of
                   (Some x, Some y) \<Rightarrow> map_option (\<lambda>bs. char_of (16 * x + y) # bs) (fromhex s')
                 | _ \<Rightarrow> None)))"

text \<open>\<open>int.from_bytes(bs, "big")\<close>.\<close>

definition from_bytes_big :: "bytes \<Rightarrow> nat" where
  "from_bytes_big bs = foldl (\<lambda>a b. 256 * a + of_char b) 0 bs"

definition b64_val :: "char \<Rightarrow> nat option" where
  "b64_val c =
     (let n = (of_char c :: nat)
      in if 65 \<le> n \<and> n \<le> 90 then Some (n - 65)
         else if 97 \<le> n \<and> n \<le> 122 then Some (n - 71)
         else if 48 \<le> n \<and> n \<le> 57 then Some (n + 4)
         else if n = 43 then Some 62
         else if n = 47 then Some 63
         else None)"

text \<open>\<open>base64.b64decode(s, validate=True)\<close>: groups of four characters, padding at the end only.\<close>

fun b64decode :: "string \<Rightarrow> bytes option" where
  "b64decode [] = Some []"
| "b64decode [a, b, c, d] =
     (case (b64_val a, b64_val b) of
        (Some w, Some x) \<Rightarrow>
          (if c = CHR ''='' then (if d = CHR ''='' then Some [char_of (w * 4 + x div 16)] else None)
           else (case b64_val c of
                   None \<Rightarrow> None
                 | Some y \<Rightarrow>
                     (if d = CHR ''='' then Some [char_of (w * 4 + x div 16), char_of (x mod 16 * 16 + y div 4)]
                      else (case b64_val d of
                              None \<Rightarrow> None
                            | Some z \<Rightarrow> Some [char_of (w * 4 + x div 16), char_of (x mod 16 * 16 + y div 4),
                                             char_of (y mod 4 * 64 + z)]))))
      | _ \<Rightarrow> None)"
| "b64decode (a # b # c # d # s) =
     (case (b64_val a, b64_val b, b64_val c, b64_val d) of
        (Some w, Some x, Some y, Some z) \<Rightarrow>
          map_option (\<lambda>bs. char_of (w * 4 + x div 16) # char_of (x mod 16 * 16 + y div 4)
                           # char_of (y mod 4 * 64 + z) # bs) (b64decode s)
      | _ \<Rightarrow> None)"
| "b64decode _ = None"

section \<open>Signatures and keys\<close>

definition sign :: "('sk, 'pk) ext \<Rightarrow> 'sk \<Rightarrow> bytes \<Rightarrow> string" where
  "sign E private_key message = to_hex (ec_sign E private_key message)"

definition caught_by_verify :: "exc \<Rightarrow> bool" where
  "caught_by_verify e \<longleftrightarrow> e = InvalidSignature \<or> is_value_error e \<or> e = TypeError"

text \<open>The \<open>try\<close> block of \<open>verify_sig\<close>, then its \<open>except\<close> clause.\<close>

definition verify_sig_body :: "('sk, 'pk) ext \<Rightarrow> 'pk \<Rightarrow> bytes \<Rightarrow> json \<Rightarrow> bool result" where
  "verify_sig_body E public_key message sig_hex =
     (case sig_hex of
        JStr s \<Rightarrow>
          if length s > MAX_SIG_HEX then Inr False
          else (case fromhex s of
                  None \<Rightarrow> Inl ValueError
                | Some sig \<Rightarrow>
                    let sig = (if length sig = 64
                               then encode_dss E (from_bytes_big (take 32 sig)) (from_bytes_big (drop 32 sig))
                               else sig)
                    in (case ec_verify E public_key sig message of
                          None \<Rightarrow> Inr True
                        | Some e \<Rightarrow> Inl e))
      | _ \<Rightarrow> Inr False)"

definition verify_sig :: "('sk, 'pk) ext \<Rightarrow> 'pk \<Rightarrow> bytes \<Rightarrow> json \<Rightarrow> bool result" where
  "verify_sig E public_key message sig_hex =
     (case verify_sig_body E public_key message sig_hex of
        Inr b \<Rightarrow> Inr b
      | Inl e \<Rightarrow> if caught_by_verify e then Inr False else Inl e)"

fun contains :: "string \<Rightarrow> string \<Rightarrow> bool" where
  "contains p [] = (p = [])"
| "contains p (c # s) = (starts_with (c # s) p \<or> contains p s)"

definition load_public_key :: "('sk, 'pk) ext \<Rightarrow> string \<Rightarrow> 'pk result" where
  "load_public_key E text =
     (let text = py_strip text
      in bindE
          (if contains ''BEGIN'' text then load_pem E (utf8 text)
           else (case b64decode text of None \<Rightarrow> Inl BinasciiError | Some der \<Rightarrow> load_der E der))
          (\<lambda>key. if is_p256 E key then Inr key else Inl ValueError))"

section \<open>Directories\<close>

text \<open>The value of the environment variable (empty when it is not set) and \<open>Path.home()\<close>.\<close>

definition home_dir :: "string \<Rightarrow> string \<Rightarrow> string" where
  "home_dir env home = (if env \<noteq> [] then env else home @ ''/.config/remote-unlock'')"

definition state_dir :: "string \<Rightarrow> string \<Rightarrow> string" where
  "state_dir env home = (if env \<noteq> [] then env else home @ ''/.local/state/remote-unlock'')"

section \<open>Secrets and files\<close>

text \<open>
  A file system maps paths to files; a file has its contents (bytes, or the text they encode
  when it is ASCII) and its permission bits; 511, 63 and 384 are the octal numbers 0777, 077
  and 0600.
\<close>

record fs_file =
  contents :: string
  st_mode :: nat

type_synonym fs = "string \<rightharpoonup> fs_file"

fun show_base8 :: "nat \<Rightarrow> string" where
  "show_base8 n = (if n < 8 then [digit_char n] else show_base8 (n div 8) @ [digit_char (n mod 8)])"

declare show_base8.simps [simp del]

definition check_private :: "fs \<Rightarrow> string \<Rightarrow> unit result" where
  "check_private fs path =
     (case fs path of
        None \<Rightarrow> Inl FileNotFoundError
      | Some f \<Rightarrow>
          let mode = st_mode f AND 511
          in if mode AND 63 \<noteq> 0
             then Inl (SystemExit (path @ '' is accessible by group/others (mode 0o'' @ show_base8 mode
                       @ ''). Run: chmod 600 '' @ path))
             else Inr ())"

text \<open>
  The inputs of \<open>get_passphrase\<close>: the two environment variables and the answers that will be
  typed at the prompts.  An empty variable counts as unset.
\<close>

record pass_env =
  credentials_directory :: string
  passphrase_file :: string
  answers :: "string list"

definition get_passphrase :: "fs \<Rightarrow> pass_env \<Rightarrow> bool \<Rightarrow> string result" where
  "get_passphrase fs env confirm =
     (let cred = credentials_directory env @ ''/passphrase''
      in if credentials_directory env \<noteq> [] \<and> fs cred \<noteq> None
         then Inr (py_strip (contents (the (fs cred))))
         else if passphrase_file env \<noteq> [] \<and> fs (passphrase_file env) \<noteq> None
         then bindE (check_private fs (passphrase_file env))
                (\<lambda>_. Inr (py_strip (contents (the (fs (passphrase_file env))))))
         else (case answers env of
                 [] \<Rightarrow> Inl EOFError
               | pw # rest \<Rightarrow>
                   if confirm
                   then (case rest of
                           [] \<Rightarrow> Inl EOFError
                         | again # _ \<Rightarrow>
                             if again \<noteq> pw then Inl (SystemExit ''Passphrases do not match.'') else Inr pw)
                   else Inr pw))"

text \<open>
  \<open>write_private\<close> under a fault: the operation that raises, if any.  A failing write has stored
  some prefix of the data.  \<open>tmp\<close> is the name \<open>mkstemp\<close> chose.
\<close>

datatype fault = NoFault | AtMkstemp | AtFchmod | AtWrite nat | AtReplace

definition unlink_quiet :: "fs \<Rightarrow> string \<Rightarrow> fs" where
  "unlink_quiet fs path = fs(path := None)"

definition write_private :: "fs \<Rightarrow> string \<Rightarrow> fault \<Rightarrow> string \<Rightarrow> bytes \<Rightarrow> fs \<times> unit result" where
  "write_private fs tmp flt path data =
     (if flt = AtMkstemp then (fs, Inl OSError)
      else
        let fs1 = fs(tmp \<mapsto> \<lparr>contents = [], st_mode = 384\<rparr>)
        in case flt of
             AtFchmod \<Rightarrow> (unlink_quiet fs1 tmp, Inl OSError)
           | AtWrite n \<Rightarrow>
               (unlink_quiet (fs1(tmp \<mapsto> \<lparr>contents = take n data, st_mode = 384\<rparr>)) tmp, Inl OSError)
           | AtReplace \<Rightarrow>
               (unlink_quiet (fs1(tmp \<mapsto> \<lparr>contents = data, st_mode = 384\<rparr>)) tmp, Inl OSError)
           | _ \<Rightarrow>
               (let fs2 = fs1(tmp \<mapsto> \<lparr>contents = data, st_mode = 384\<rparr>)
                in ((fs2(path := fs2 tmp))(tmp := None), Inr ())))"

section \<open>Configuration\<close>

text \<open>The defaults, as the dictionary of the source.\<close>

definition DEFAULTS :: "(string \<times> json) list" where
  "DEFAULTS =
    [(''version'', JInt 2),
     (''listener_port'', JInt 8765),
     (''challenge_ttl'', JInt 10),
     (''grant_ttl'', JInt 20),
     (''pam_wait'', JInt 15),
     (''pam_socket'', JStr ''/run/remote-unlock/pam.sock''),
     (''pam_allowed_uids'', JList [JInt 0]),
     (''service_user'', JStr ''remote-unlock''),
     (''require_mtls'', JBool True),
     (''allow_any_interface'', JBool False),
     (''max_connections'', JInt 16),
     (''lockout'', JObj [(''threshold'', JInt 3), (''base_seconds'', JInt 30), (''max_seconds'', JInt 3600)]),
     (''alerts'', JObj []),
     (''audit_log'', JNull),
     (''devices'', JList [])]"

text \<open>
  The \<open>Config\<close> object at the level of its dictionary: \<open>reload\<close> reads the file, fills in the
  defaults and overwrites them with what the file says.  A file is its text and its modification
  time; a top level that is not an object raises.
\<close>

record config_obj =
  cfg_data :: "(string \<times> json) list"
  cfg_mtime :: "int option"

definition config_reload :: "(string \<times> int) option \<Rightarrow> config_obj \<Rightarrow> config_obj result" where
  "config_reload f c =
     (case f of
        None \<Rightarrow> Inl FileNotFoundError
      | Some (text, mtime) \<Rightarrow>
          (case loads text of
             None \<Rightarrow> Inl JSONDecodeError
           | Some (JObj raw) \<Rightarrow> Inr \<lparr>cfg_data = dict_update DEFAULTS raw, cfg_mtime = Some mtime\<rparr>
           | Some _ \<Rightarrow> Inl TypeError))"

definition config_reload_if_changed :: "(string \<times> int) option \<Rightarrow> config_obj \<Rightarrow> config_obj result" where
  "config_reload_if_changed f c =
     (case f of
        None \<Rightarrow> Inr c
      | Some (text, mtime) \<Rightarrow>
          if Some mtime \<noteq> cfg_mtime c
          then (case config_reload f c of
                  Inr c' \<Rightarrow> Inr c'
                | Inl e \<Rightarrow> if is_os_error e \<or> is_value_error e then Inr c else Inl e)
          else Inr c)"

text \<open>
  The entries the service reads, with the types \<^verbatim>\<open>pair.py\<close> writes them with.  A device keeps
  \<open>enabled\<close> as \<open>d.get("enabled", True)\<close> reads it.
\<close>

record device =
  dev_id :: string
  public_key_pem :: string
  cert_sha256 :: string
  enabled :: bool
  created :: string
  cert_expires :: string
  revoked :: "string option"

record lockout_cfg =
  threshold :: int
  base_seconds :: rat
  max_seconds :: rat

record config =
  target_id :: string
  listener_ip :: string
  listener_port :: int
  unlock_user :: string
  challenge_ttl :: rat
  grant_ttl :: rat
  pam_wait :: rat
  pam_socket :: string
  pam_allowed_uids :: "int list"
  require_mtls :: bool
  allow_any_interface :: bool
  max_connections :: int
  lockout :: lockout_cfg
  devices :: "device list"

fun device_by_fp :: "device list \<Rightarrow> string \<Rightarrow> device option" where
  "device_by_fp [] fp = None"
| "device_by_fp (d # ds) fp =
     (if enabled d \<and> cert_sha256 d = fp then Some d else device_by_fp ds fp)"

fun device_by_id :: "device list \<Rightarrow> string \<Rightarrow> device option" where
  "device_by_id [] i = None"
| "device_by_id (d # ds) i =
     (if enabled d \<and> dev_id d = i then Some d else device_by_id ds i)"

text \<open>\<open>resolve\<close>: a relative path is taken below the directory of the configuration.\<close>

definition resolve :: "string \<Rightarrow> string \<Rightarrow> string" where
  "resolve dir rel = (if starts_with rel ''/'' then rel else dir @ ''/'' @ rel)"

section \<open>Lemmas on identifiers and the signed message\<close>

lemma dollar_match_chars:
  assumes "dollar_match p s" and "\<And>t. p t \<Longrightarrow> list_all q t" and "q newline_char"
  shows "list_all q s"
proof (cases "p s")
  case False
  with assms(1) have "s \<noteq> []" "last s = newline_char" "p (butlast s)"
    by (auto simp: dollar_match_def)
  then obtain t where s: "s = t @ [newline_char]" and "p t"
    by (metis append_butlast_last_id)
  with assms(2,3) show ?thesis by simp
qed (use assms(2) in simp)

definition field_char :: "char \<Rightarrow> bool" where
  "field_char c \<longleftrightarrow> is_ascii c \<and> c \<noteq> bar_char"

lemma lower_field_char: "is_lower c \<Longrightarrow> field_char c"
  by (auto simp: field_char_def is_lower_def is_ascii_def)

lemma digit_field_char: "is_digit c \<Longrightarrow> field_char c"
  by (auto simp: field_char_def is_digit_def is_ascii_def)

lemma hex_field_char: "is_hex_lower c \<Longrightarrow> field_char c"
  by (auto simp: field_char_def is_hex_lower_def is_digit_def is_ascii_def)

lemma special_field_char: "field_char newline_char" "field_char (CHR ''-'')"
  by (simp_all add: field_char_def is_ascii_def)

lemma id_body_chars: "id_body s \<Longrightarrow> list_all field_char s"
  by (cases s) (auto simp: id_body_def id_first_def id_char_def list_all_iff
      intro: lower_field_char digit_field_char special_field_char)

lemma nonce_body_chars: "nonce_body s \<Longrightarrow> list_all field_char s"
  by (auto simp: nonce_body_def list_all_iff intro: hex_field_char)

lemma ID_RE_chars: "ID_RE s \<Longrightarrow> list_all field_char s"
  unfolding ID_RE_def by (erule dollar_match_chars) (simp_all add: id_body_chars special_field_char)

lemma NONCE_RE_chars: "NONCE_RE s \<Longrightarrow> list_all field_char s"
  unfolding NONCE_RE_def by (erule dollar_match_chars) (simp_all add: nonce_body_chars special_field_char)

lemma show_int_chars: "list_all field_char (show_int i)"
  using show_int_number_chars [of i]
  by (auto simp: list_all_iff number_char_def intro: digit_field_char special_field_char)

lemma field_no_bar: "list_all field_char s \<Longrightarrow> bar_char \<notin> set s"
  by (auto simp: list_all_iff field_char_def)

lemma field_ascii: "list_all field_char s \<Longrightarrow> list_all is_ascii s"
  by (auto simp: list_all_iff field_char_def)

lemma id_body_ID_RE: "id_body s \<Longrightarrow> ID_RE s"
  by (simp add: ID_RE_def dollar_match_def)

lemma nonce_body_NONCE_RE: "nonce_body s \<Longrightarrow> NONCE_RE s"
  by (simp add: NONCE_RE_def dollar_match_def)

text \<open>The text of a message before it is encoded; it is ASCII, so encoding changes nothing.\<close>

definition message_text :: "string \<Rightarrow> string \<Rightarrow> int \<Rightarrow> string \<Rightarrow> string \<Rightarrow> string" where
  "message_text role nonce ms d t =
     PROTO @ bar_char # role @ bar_char # nonce @ bar_char # show_int ms @ bar_char # d @ bar_char # t
       @ bar_char # ''unlock''"

definition message_fields :: "string \<Rightarrow> string \<Rightarrow> string \<Rightarrow> string \<Rightarrow> bool" where
  "message_fields role nonce d t \<longleftrightarrow>
     (role = ''challenge'' \<or> role = ''response'') \<and> NONCE_RE nonce \<and> ID_RE d \<and> ID_RE t"

lemma role_chars: "message_fields role nonce d t \<Longrightarrow> list_all field_char role"
  by (auto simp: message_fields_def field_char_def is_ascii_def)

lemma message_fields_chars:
  assumes "message_fields role nonce d t"
  shows "list_all field_char role" "list_all field_char nonce" "list_all field_char d" "list_all field_char t"
  using assms role_chars [OF assms] by (simp_all add: message_fields_def NONCE_RE_chars ID_RE_chars)

lemma message_text_ascii:
  assumes "message_fields role nonce d t"
  shows "utf8 (message_text role nonce ms d t) = message_text role nonce ms d t"
proof (rule utf8_ascii)
  have "list_all is_ascii PROTO" "list_all is_ascii ''unlock''" "is_ascii bar_char"
    by (simp_all add: PROTO_def is_ascii_def)
  then show "list_all is_ascii (message_text role nonce ms d t)"
    using message_fields_chars [OF assms, THEN field_ascii] show_int_chars [THEN field_ascii, of ms]
    by (simp add: message_text_def)
qed

lemma signed_message_eq:
  "signed_message role nonce ms d t =
    (if message_fields role nonce d t then Inr (message_text role nonce ms d t) else Inl ValueError)"
proof (cases "message_fields role nonce d t")
  case True
  then have "signed_message role nonce ms d t = Inr (utf8 (message_text role nonce ms d t))"
    by (auto simp: message_fields_def signed_message_def message_text_def simp del: utf8_simps utf8_append)
  with True show ?thesis by (simp add: message_text_ascii)
qed (auto simp: message_fields_def signed_message_def)

lemma message_text_inject:
  assumes "message_fields role nonce d t" and "message_fields role' nonce' d' t'"
    and "message_text role nonce ms d t = message_text role' nonce' ms' d' t'"
  shows "role = role' \<and> nonce = nonce' \<and> ms = ms' \<and> d = d' \<and> t = t'"
proof -
  note bars = message_fields_chars [THEN field_no_bar] and int_bar = show_int_chars [THEN field_no_bar]
  from assms(3) show ?thesis
    using bars [OF assms(1)] bars [OF assms(2)] int_bar [of ms] int_bar [of ms']
    by (simp add: message_text_def append_sep_inject)
qed

text \<open>
  C30.  A signed message determines the role, the nonce, the issue time, the device and the target
  it was made from: a signature made for one purpose, challenge, device or laptop is never one
  over the bytes of another.
\<close>

theorem signed_message_binds:
  assumes "signed_message role nonce ms d t = Inr m"
    and "signed_message role' nonce' ms' d' t' = Inr m"
  shows "role = role' \<and> nonce = nonce' \<and> ms = ms' \<and> d = d' \<and> t = t'"
  using assms by (intro message_text_inject) (auto simp: signed_message_eq split: if_splits)

lemma signed_message_binds_witness:
  "\<exists>m. signed_message ''response'' (replicate 32 (CHR ''a'')) 7 ''phone1'' ''box'' = Inr m
     \<and> (''response'' = ''response'' \<and> replicate 32 (CHR ''a'') = replicate 32 (CHR ''a'') \<and> (7::int) = 7
        \<and> ''phone1'' = ''phone1'' \<and> ''box'' = ''box'')"
proof -
  let ?n = "replicate 32 (CHR ''a'')"
  have "message_fields ''response'' ?n ''phone1'' ''box''"
    unfolding message_fields_def
    by (intro conjI nonce_body_NONCE_RE id_body_ID_RE disjI2 refl)
      (simp_all add: nonce_body_def list_all_iff is_hex_lower_def is_digit_def id_body_def id_first_def id_char_def is_lower_def)
  then obtain m where m: "signed_message ''response'' ?n 7 ''phone1'' ''box'' = Inr m"
    by (simp add: signed_message_eq)
  with signed_message_binds [OF m m] show ?thesis by blast
qed

text \<open>
  \<open>signed_message\<close> raises \<open>ValueError\<close> exactly when the role is not one of the two, the
  nonce is not 32 lower-case hexadecimal digits, or an identifier is malformed (each up to one
  trailing newline); otherwise it returns the documented bytes.
\<close>

theorem signed_message_total:
  "signed_message role nonce ms d t =
    (if (role = ''challenge'' \<or> role = ''response'') \<and> NONCE_RE nonce \<and> ID_RE d \<and> ID_RE t
     then Inr (''remote-unlock/v2|'' @ role @ ''|'' @ nonce @ ''|'' @ show_int ms @ ''|'' @ d @ ''|'' @ t @ ''|unlock'')
     else Inl ValueError)"
  by (simp add: signed_message_eq message_fields_def message_text_def PROTO_def)

text \<open>
  The identifier pattern admits one trailing newline, so an identifier of 63 characters
  and a newline, 64 characters in all, is accepted although the tools promise
  \<open>[a-z0-9][a-z0-9-]*\<close> with at most 63 characters.
\<close>

theorem ID_RE_trailing_newline:
  "ID_RE (CHR ''a'' # replicate 62 (CHR ''a'') @ [newline_char])
   \<and> length (CHR ''a'' # replicate 62 (CHR ''a'') @ [newline_char]) = 64"
  by (simp add: ID_RE_def dollar_match_def id_body_def id_first_def id_char_def is_lower_def list_all_iff
      butlast_append)

section \<open>Lemmas on signatures\<close>

lemma hex_val_range: "hex_val c = Some x \<Longrightarrow> x < 16"
  by (auto simp: hex_val_def Let_def split: if_splits)

lemma hex_char_not_space: "n < 16 \<Longrightarrow> \<not> is_ascii_space (hex_char n)"
proof -
  assume "n < 16"
  then have "48 \<le> (of_char (hex_char n) :: nat)" by (auto simp: hex_char_def)
  then show ?thesis by (auto simp: is_ascii_space_def)
qed

lemma byte_nibbles: "(of_char b :: nat) div 16 < 16"
  using nat_of_char_less_256 [of b] by arith

lemma fromhex_hex_byte: "fromhex (hex_byte b @ s) = map_option (\<lambda>bs. b # bs) (fromhex s)"
  by (simp add: hex_byte_def hex_char_not_space byte_nibbles hex_val_hex_char)

lemma fromhex_to_hex [simp]: "fromhex (to_hex bs) = Some bs"
  by (induction bs) (simp_all add: to_hex_def fromhex_hex_byte)

lemma length_to_hex [simp]: "length (to_hex bs) = 2 * length bs"
  by (induction bs) (simp_all add: to_hex_def hex_byte_def)

text \<open>The bytes handed to \<open>public_key.verify\<close>.\<close>

definition der_signature :: "('sk, 'pk) ext \<Rightarrow> bytes \<Rightarrow> bytes" where
  "der_signature E sig =
     (if length sig = 64 then encode_dss E (from_bytes_big (take 32 sig)) (from_bytes_big (drop 32 sig)) else sig)"

lemma verify_sig_JStr:
  "verify_sig E pk m (JStr s) =
    (if length s > MAX_SIG_HEX then Inr False
     else case fromhex s of None \<Rightarrow> Inr False
          | Some sig \<Rightarrow> (case ec_verify E pk (der_signature E sig) m of
                         None \<Rightarrow> Inr True
                       | Some e \<Rightarrow> if caught_by_verify e then Inr False else Inl e))"
  by (simp add: verify_sig_def verify_sig_body_def der_signature_def Let_def caught_by_verify_def
      is_value_error_def split: option.split)

lemma verify_sig_not_str: "\<forall>s. v \<noteq> JStr s \<Longrightarrow> verify_sig E pk m v = Inr False"
  by (cases v) (simp_all add: verify_sig_def verify_sig_body_def)

text \<open>
  \<open>verify_sig\<close> answers \<open>True\<close> exactly when it was given a string of at most 200 characters
  that decodes to bytes whose DER form (raw 64-byte pairs are re-encoded) the external
  verification accepts for this key and message; every other input is \<open>False\<close> or an exception.
\<close>

theorem verify_sig_True_iff:
  "verify_sig E pk m v = Inr True \<longleftrightarrow>
    (\<exists>s sig. v = JStr s \<and> length s \<le> 200 \<and> fromhex s = Some sig
       \<and> ec_verify E pk (if length sig = 64 then encode_dss E (from_bytes_big (take 32 sig)) (from_bytes_big (drop 32 sig))
                        else sig) m = None)"
proof (cases v)
  case (JStr s)
  then show ?thesis
    by (auto simp: verify_sig_JStr der_signature_def MAX_SIG_HEX_def split: option.splits if_splits)
qed (simp_all add: verify_sig_not_str)

text \<open>
  What \<open>sign\<close> produces is accepted by \<open>verify_sig\<close> under the matching key, provided the
  external library verifies its own signatures and the DER signature is short enough and not
  exactly 64 bytes long (a 64-byte signature is taken for a raw pair).
\<close>

theorem verify_sig_sign:
  assumes "ec_verify E pk (ec_sign E sk m) m = None"
    and "length (ec_sign E sk m) \<le> 100" and "length (ec_sign E sk m) \<noteq> 64"
  shows "verify_sig E pk m (JStr (sign E sk m)) = Inr True"
  using assms by (simp add: verify_sig_JStr sign_def der_signature_def MAX_SIG_HEX_def)

text \<open>A toy instance of the external functions, for the examples: the signature names its key
  and its message by their lengths.\<close>

definition toy_ext :: "(nat, nat) ext" where
  "toy_ext = \<lparr>sha256 = (\<lambda>bs. show_nat (length bs)), float_repr = (\<lambda>q. ''0.5''),
     ec_sign = (\<lambda>sk m. [char_of sk, char_of (length m)]),
     ec_verify = (\<lambda>pk sig m. if sig = [char_of pk, char_of (length m)] then None else Some InvalidSignature),
     encode_dss = (\<lambda>r s. ''dss''), load_pem = (\<lambda>t. Inr (length t)), load_der = (\<lambda>t. Inr (length t)),
     is_p256 = (\<lambda>pk. pk \<noteq> 0)\<rparr>"

lemma verify_sig_sign_witness: "verify_sig toy_ext 7 ''abc'' (JStr (sign toy_ext 7 ''abc'')) = Inr True"
  by (rule verify_sig_sign) (simp_all add: toy_ext_def)

section \<open>Lemmas on secrets and files\<close>

lemma check_private_Inr: "check_private fs p = Inr () \<longleftrightarrow> (\<exists>f. fs p = Some f \<and> (st_mode f AND 511) AND 63 = 0)"
  by (auto simp: check_private_def Let_def split: option.splits)

lemma mask_63: "((n :: nat) AND 511) AND 63 = n mod 64"
proof -
  have "(n AND 511) AND 63 = take_bit 6 (take_bit 9 n)"
    by (simp add: take_bit_eq_mask mask_eq_exp_minus_1)
  then show ?thesis by (simp add: take_bit_eq_mod mod_mod_cancel)
qed

text \<open>
  \<open>check_private\<close> passes exactly the files none of whose six permission bits for group and
  others is set; any other file stops the program.
\<close>

theorem check_private_iff:
  "check_private fs p = Inr () \<longleftrightarrow> (\<exists>f. fs p = Some f \<and> (\<forall>i<6. \<not> bit (st_mode f) i))"
proof -
  have "n mod 64 = 0 \<longleftrightarrow> (\<forall>i<6. \<not> bit n i)" for n :: nat
  proof -
    have "n mod 64 = take_bit 6 n" by (simp add: take_bit_eq_mod)
    then show ?thesis by (auto simp: bit_eq_iff bit_take_bit_iff)
  qed
  then show ?thesis by (simp add: check_private_Inr mask_63)
qed

lemma write_private_cases:
  assumes "fs tmp = None" and "tmp \<noteq> path"
  shows "write_private fs tmp flt path data = (fs, Inl OSError)
    \<or> write_private fs tmp flt path data = (fs(path \<mapsto> \<lparr>contents = data, st_mode = 384\<rparr>), Inr ())"
proof -
  have [simp]: "fs(tmp := None) = fs" using assms(1) by (simp add: fun_upd_idem)
  show ?thesis
    using assms by (cases flt) (simp_all add: write_private_def unlink_quiet_def Let_def fun_upd_twist)
qed

text \<open>A secret written by \<open>write_private\<close> passes \<open>check_private\<close>.\<close>

lemma write_then_check:
  assumes "fs tmp = None" "tmp \<noteq> path" "write_private fs tmp flt path data = (fs', Inr ())"
  shows "check_private fs' path = Inr ()"
proof -
  have "fs' = fs(path \<mapsto> \<lparr>contents = data, st_mode = 384\<rparr>)"
    using write_private_cases [where fs = fs and tmp = tmp and path = path and flt = flt and data = data] assms
    by auto
  then show ?thesis by (simp add: check_private_Inr mask_63)
qed

text \<open>
  C32.  Under any fault, \<open>write_private\<close> is all or nothing: it leaves every file as it was and
  raises, or the target holds all the data with mode 0600 (and so passes \<open>check_private\<close>),
  nothing else has changed and the temporary file is gone.
\<close>

theorem write_private_atomic:
  assumes "fs tmp = None" and "tmp \<noteq> path"
    and "write_private fs tmp flt path data = (fs', r)"
  shows "(fs' = fs \<and> r = Inl OSError \<and> flt \<noteq> NoFault)
    \<or> (fs' = fs(path \<mapsto> \<lparr>contents = data, st_mode = 384\<rparr>) \<and> r = Inr () \<and> check_private fs' path = Inr ())"
proof (cases "r = Inr ()")
  case True
  with assms write_then_check [of fs tmp path flt data fs'] show ?thesis
    using write_private_cases [where fs = fs and tmp = tmp and path = path and flt = flt and data = data]
    by auto
next
  case False
  moreover have "flt = NoFault \<Longrightarrow> r = Inr ()"
    using assms(3) by (simp add: write_private_def Let_def)
  ultimately show ?thesis
    using write_private_cases [where fs = fs and tmp = tmp and path = path and flt = flt and data = data] assms
    by auto
qed

lemma write_private_atomic_witness:
  "write_private (\<lambda>_. None) ''t'' (AtWrite 2) ''p'' ''data'' = (\<lambda>_. None, Inl OSError)"
proof -
  obtain fs' r where w: "write_private (\<lambda>_. None) ''t'' (AtWrite 2) ''p'' ''data'' = (fs', r)"
    by (cases "write_private (\<lambda>_. None) ''t'' (AtWrite 2) ''p'' ''data''")
  moreover have "r \<noteq> Inr ()" using w by (auto simp: write_private_def Let_def)
  ultimately show ?thesis
    using write_private_atomic [OF _ _ w] by simp
qed

section \<open>Lemmas on the configuration\<close>

lemma device_by_fp_Some: "device_by_fp ds fp = Some d \<Longrightarrow> d \<in> set ds \<and> enabled d \<and> cert_sha256 d = fp"
  by (induction ds) (auto split: if_splits)

lemma device_by_id_Some: "device_by_id ds i = Some d \<Longrightarrow> d \<in> set ds \<and> enabled d \<and> dev_id d = i"
  by (induction ds) (auto split: if_splits)

lemma device_by_fp_None: "device_by_fp ds fp = None \<longleftrightarrow> (\<forall>d \<in> set ds. \<not> (enabled d \<and> cert_sha256 d = fp))"
  by (induction ds) auto

lemma device_by_id_None: "device_by_id ds i = None \<longleftrightarrow> (\<forall>d \<in> set ds. \<not> (enabled d \<and> dev_id d = i))"
  by (induction ds) auto

lemma dict_ok_DEFAULTS [simp]: "dict_ok DEFAULTS"
  by (simp add: dict_ok_def DEFAULTS_def)

text \<open>
  Loading a configuration file: an entry of the file wins over the default of that name,
  an entry the file does not have is the default.
\<close>

theorem config_reload_lookup:
  assumes "loads text = Some (JObj raw)"
  shows "\<exists>c'. config_reload (Some (text, t)) c = Inr c' \<and> cfg_mtime c' = Some t
    \<and> map_of (cfg_data c') k = (case map_of raw k of None \<Rightarrow> map_of DEFAULTS k | Some v \<Rightarrow> Some v)"
proof (cases "k \<in> fst ` set raw")
  case True
  then obtain v where "map_of raw k = Some v" by (metis map_of_eq_None_iff not_Some_eq)
  with True assms loads_dict_ok [OF assms] show ?thesis
    by (simp add: config_reload_def map_of_dict_update_in)
next
  case False
  then have "map_of raw k = None" by (simp add: map_of_eq_None_iff)
  with False assms show ?thesis
    by (simp add: config_reload_def map_of_dict_update_notin)
qed


lemma config_reload_lookup_witness:
  "\<exists>c'. config_reload (Some (dumps (\<lambda>_. []) default_style (JObj [(''grant_ttl'', JInt 5)]), 1))
        \<lparr>cfg_data = [], cfg_mtime = None\<rparr> = Inr c' \<and> cfg_mtime c' = Some 1
    \<and> map_of (cfg_data c') ''grant_ttl'' = Some (JInt 5)"
proof -
  have "loads (dumps (\<lambda>_. []) default_style (JObj [(''grant_ttl'', JInt 5)])) = Some (JObj [(''grant_ttl'', JInt 5)])"
    by (subst loads_dumps) (simp_all add: sorted_items_def dict_ok_def)
  from config_reload_lookup [OF this, where t = 1 and k = "''grant_ttl''"] show ?thesis by simp
qed

text \<open>
  \<open>reload_if_changed\<close> never loses a good configuration: when the file is gone, has the
  known time stamp, or is not JSON, the dictionary and the time stamp stay what they were; in
  every other case the call is a full \<open>reload\<close> of the new file.
\<close>

theorem config_reload_if_changed_safe:
  "config_reload_if_changed f c =
    (case f of
       None \<Rightarrow> Inr c
     | Some (text, t) \<Rightarrow>
         if cfg_mtime c = Some t \<or> loads text = None then Inr c else config_reload f c)"
  by (auto simp: config_reload_if_changed_def config_reload_def is_value_error_def is_os_error_def
      split: if_splits option.splits json.splits sum.splits)

text \<open>
  The defaults are merged at the top level only: a file that sets just
  \<open>lockout.threshold\<close> leaves the loaded \<open>lockout\<close> without \<open>base_seconds\<close>, whose default is
  30, so the service cannot be constructed from it.
\<close>

theorem config_defaults_shallow:
  "\<exists>c'. config_reload (Some (dumps (\<lambda>_. []) default_style (JObj [(''lockout'', JObj [(''threshold'', JInt 5)])]), t)) c = Inr c'
    \<and> map_of (cfg_data c') ''lockout'' = Some (JObj [(''threshold'', JInt 5)])
    \<and> jitem [(''threshold'', JInt 5)] ''base_seconds'' = Inl KeyError"
proof -
  let ?raw = "[(''lockout'', JObj [(''threshold'', JInt 5)])]"
  have l: "loads (dumps (\<lambda>_. []) default_style (JObj ?raw)) = Some (JObj ?raw)"
    by (subst loads_dumps) (simp_all add: sorted_items_def dict_ok_def)
  then show ?thesis
    by (simp add: config_reload_def map_of_dict_update_in [where e = ?raw] dict_ok_def jitem_def)
qed

end
