(* ===== verification/AuditLog.thy ===== *)
theory AuditLog
  imports Common
begin

text \<open>
  The tamper-evident log of \<^verbatim>\<open>src/audit.py\<close>: the canonical text and the hash of an entry, the
  verification of a file, and the \<open>AuditLog\<close> object with its \<open>append\<close>.  A file is its text, or
  \<open>None\<close> where it does not exist.
\<close>

section \<open>Entries\<close>

definition GENESIS :: string where
  "GENESIS = replicate 64 (CHR ''0'')"

definition canon_text :: "'a hashing_scheme \<Rightarrow> json \<Rightarrow> string" where
  "canon_text E obj = dumps (float_repr E) canon_style obj"

definition entry_hash :: "'a hashing_scheme \<Rightarrow> string \<Rightarrow> json \<Rightarrow> string" where
  "entry_hash E prev entry_without_hash = sha256 E (utf8 (prev @ canon_text E entry_without_hash))"

section \<open>Verification\<close>

text \<open>
  Reading a text file line by line with universal newlines.  \<open>cur\<close> holds the part of the
  current line already read; the lines come without their terminators.
\<close>

fun lines_from :: "string \<Rightarrow> string \<Rightarrow> string list" where
  "lines_from cur [] = (if cur = [] then [] else [cur])"
| "lines_from cur (c # s) =
     (if c = newline_char then cur # lines_from [] s
      else if c = CHR 0x0D
      then (case s of
              [] \<Rightarrow> [cur]
            | d # s' \<Rightarrow> if d = newline_char then cur # lines_from [] s' else cur # lines_from [] s)
      else lines_from (cur @ [c]) s)"

abbreviation file_lines :: "string \<Rightarrow> string list" where
  "file_lines \<equiv> lines_from []"

text \<open>\<open>(ok, entries, head, error_message)\<close>.\<close>

type_synonym verdict = "bool \<times> nat \<times> string \<times> string option"

definition line_error :: "nat \<Rightarrow> string \<Rightarrow> string option" where
  "line_error lineno what = Some (''line '' @ show_nat lineno @ '': '' @ what)"

text \<open>
  One turn of the loop: it ends the verification with a verdict, or goes on with the number of
  entries and the last hash.  A line that is JSON but not an object has no \<open>pop("hash")\<close>, which
  raises an exception that is not caught.
\<close>

definition verify_line ::
  "'a hashing_scheme \<Rightarrow> nat \<Rightarrow> string \<Rightarrow> nat \<Rightarrow> string \<Rightarrow> (verdict + nat \<times> string) result" where
  "verify_line E lineno prev n line =
     (if line = [] then Inr (Inr (n, prev))
      else (case loads line of
              None \<Rightarrow> Inr (Inl (False, n, prev, line_error lineno ''unparsable''))
            | Some (JObj d) \<Rightarrow>
                (case map_of d ''hash'' of
                   None \<Rightarrow> Inr (Inl (False, n, prev, line_error lineno ''unparsable''))
                 | Some claimed \<Rightarrow>
                     let entry = AList.delete ''hash'' d; n = Suc n
                     in if \<not> py_eq_int (jget entry ''seq'') (int n)
                        then Inr (Inl (False, n, prev, line_error lineno ''sequence gap/reorder''))
                        else if \<not> py_eq_str (jget entry ''prev'') prev
                        then Inr (Inl (False, n, prev, line_error lineno ''broken chain link''))
                        else if \<not> py_eq_str claimed (entry_hash E prev (JObj entry))
                        then Inr (Inl (False, n, prev, line_error lineno ''content modified''))
                        else Inr (Inr (n, entry_hash E prev (JObj entry))))
            | Some (JList xs) \<Rightarrow> Inl TypeError
            | Some _ \<Rightarrow> Inl AttributeError))"

fun verify_loop ::
  "'a hashing_scheme \<Rightarrow> nat \<Rightarrow> string \<Rightarrow> nat \<Rightarrow> string list \<Rightarrow> (verdict + nat \<times> string) result" where
  "verify_loop E lineno prev n [] = Inr (Inr (n, prev))"
| "verify_loop E lineno prev n (l # ls) =
     (case verify_line E lineno prev n l of
        Inl e \<Rightarrow> Inl e
      | Inr (Inl v) \<Rightarrow> Inr (Inl v)
      | Inr (Inr (n', prev')) \<Rightarrow> verify_loop E (Suc lineno) prev' n' ls)"

text \<open>An \<open>expected_head\<close> of \<open>None\<close> and an empty one are both the empty string here.\<close>

definition verify_file :: "'a hashing_scheme \<Rightarrow> string option \<Rightarrow> string \<Rightarrow> verdict result" where
  "verify_file E path expected_head =
     (case path of
        None \<Rightarrow> Inr (True, 0, GENESIS, None)
      | Some text \<Rightarrow>
          (case verify_loop E 1 GENESIS 0 (file_lines text) of
             Inl e \<Rightarrow> Inl e
           | Inr (Inl v) \<Rightarrow> Inr v
           | Inr (Inr (n, prev)) \<Rightarrow>
               if expected_head \<noteq> [] \<and> \<not> starts_with prev (py_lower expected_head)
               then Inr (False, n, prev, Some ''head does not match anchor (log truncated or rewritten)'')
               else Inr (True, n, prev, None)))"

section \<open>The log object\<close>

record audit_log =
  log_file :: "string option"
  seq :: nat
  head :: string
  tamper_error :: "string option"

definition open_log :: "'a hashing_scheme \<Rightarrow> string option \<Rightarrow> audit_log result" where
  "open_log E path =
     bindE (verify_file E path [])
       (\<lambda>(ok, n, hd, err). Inr \<lparr>log_file = path, seq = n, head = hd,
                                tamper_error = (if ok then None else err)\<rparr>)"

definition log_entry :: "nat \<Rightarrow> string \<Rightarrow> string \<Rightarrow> (string \<times> json) list \<Rightarrow> string \<Rightarrow> (string \<times> json) list" where
  "log_entry sq ts event data prev =
     [(''seq'', JInt (int sq)), (''ts'', JStr ts), (''event'', JStr event), (''data'', JObj data), (''prev'', JStr prev)]"

text \<open>
  \<open>append\<close>: \<open>ts\<close> is the time stamp, \<open>wrote\<close> whether the three system calls that open, write and
  sync the file succeed.  If they do not, \<open>OSError\<close> leaves the method after the counter has
  been advanced.
\<close>

definition append_entry ::
  "'a hashing_scheme \<Rightarrow> bool \<Rightarrow> string \<Rightarrow> string \<Rightarrow> (string \<times> json) list \<Rightarrow> audit_log \<Rightarrow> audit_log \<times> (nat \<times> string) result" where
  "append_entry E wrote ts event data l =
     (let l = l\<lparr>seq := Suc (seq l)\<rparr>;
          entry = log_entry (seq l) ts event data (head l);
          digest = entry_hash E (head l) (JObj entry);
          line = canon_text E (JObj (AList.update ''hash'' (JStr digest) entry)) @ [newline_char]
      in if \<not> wrote then (l, Inl OSError)
         else (l\<lparr>log_file := Some ((case log_file l of None \<Rightarrow> [] | Some t \<Rightarrow> t) @ line), head := digest\<rparr>,
               Inr (seq l, digest)))"

text \<open>The \<open>verify\<close> and \<open>tail\<close> commands: what they print and the exit status.\<close>

definition cmd_verify :: "'a hashing_scheme \<Rightarrow> string option \<Rightarrow> string \<Rightarrow> (string \<times> int) result" where
  "cmd_verify E path expected_head =
     bindE (verify_file E path expected_head)
       (\<lambda>(ok, n, hd, err).
          if ok then Inr (''OK: '' @ show_nat n @ '' entries, head='' @ hd, 0)
          else Inr (''TAMPER DETECTED after '' @ show_nat n @ '' valid entries: '' @ (case err of None \<Rightarrow> ''None'' | Some e \<Rightarrow> e), 1))"

section \<open>Lemmas on lines\<close>

definition line_char :: "char \<Rightarrow> bool" where
  "line_char c \<longleftrightarrow> c \<noteq> newline_char \<and> c \<noteq> CHR 0x0D"

definition ends_line :: "string \<Rightarrow> bool" where
  "ends_line s \<longleftrightarrow> s = [] \<or> last s = newline_char"

lemma lines_from_line: "list_all line_char l \<Longrightarrow> lines_from cur (l @ newline_char # s) = (cur @ l) # lines_from [] s"
  by (induction l arbitrary: cur) (auto simp: line_char_def)

lemma lines_from_append: "s \<noteq> [] \<Longrightarrow> last s = newline_char \<Longrightarrow> lines_from cur (s @ t) = lines_from cur s @ lines_from [] t"
proof (induction cur s rule: lines_from.induct)
  case (2 cur c s)
  show ?case
  proof (cases "s = []")
    case True
    with "2.prems" show ?thesis by simp
  next
    case False
    then obtain d s' where s: "s = d # s'" by (cases s) simp_all
    have "lines_from [] (s' @ t) = lines_from [] s' @ lines_from [] t" if "c = CHR 0x0D" "d = newline_char"
      using "2.IH"(2) [OF _ that(1) s that(2)] "2.prems" that by (cases "s' = []") (simp_all add: s)
    with "2.IH"(1,3,4) "2.prems" s show ?thesis by auto
  qed
qed simp

lemma file_lines_append: "ends_line s \<Longrightarrow> file_lines (s @ t) = file_lines s @ file_lines t"
  by (cases "s = []") (simp_all add: ends_line_def lines_from_append)

lemma verify_loop_append:
  "verify_loop E k prev n (ls @ ms) =
    (case verify_loop E k prev n ls of
       Inl e \<Rightarrow> Inl e
     | Inr (Inl v) \<Rightarrow> Inr (Inl v)
     | Inr (Inr (n', prev')) \<Rightarrow> verify_loop E (k + length ls) prev' n' ms)"
  by (induction ls arbitrary: k prev n) (auto split: sum.split)

section \<open>Printed entries\<close>

definition printable :: "char \<Rightarrow> bool" where
  "printable c \<longleftrightarrow> 32 \<le> (of_char c :: nat) \<and> (of_char c :: nat) \<le> 126"

lemma printable_line_char: "printable c \<Longrightarrow> line_char c"
  by (auto simp: printable_def line_char_def)

lemma hex_char_printable: "n < 16 \<Longrightarrow> printable (hex_char n)"
  by (auto simp: printable_def hex_char_def)

lemma esc_char_printable: "list_all printable (esc_char c)"
  using hex_char_printable [OF byte_nibbles [of c]] hex_char_printable [of "of_char c mod 16"]
  by (simp add: esc_char_def) (auto simp: printable_def)

lemma quote_str_printable: "list_all printable (quote_str s)"
proof -
  have "list_all printable (concat (map esc_char s))"
    by (induction s) (simp_all add: esc_char_printable)
  then show ?thesis by (simp add: quote_str_def printable_def)
qed

lemma show_int_printable: "list_all printable (show_int i)"
  using show_int_number_chars [of i] by (auto simp: list_all_iff number_char_def is_digit_def printable_def)

lemma py_join_all: "list_all p sep \<Longrightarrow> list_all (list_all p) xs \<Longrightarrow> list_all p (py_join sep xs)"
  by (induction sep xs rule: py_join.induct) simp_all

lemma item_sep_canon: "item_sep canon_style = '',''"
  by (simp add: canon_style_def)

lemma printable_special: "list_all printable (key_sep canon_style)" "list_all printable (item_sep canon_style)"
  by (simp_all add: canon_style_def printable_def)

lemma canon_text_printable: "plain v \<Longrightarrow> list_all printable (canon_text E v)"
  unfolding canon_text_def
proof (induction v)
  case (JInt i)
  then show ?case by (simp add: show_int_printable)
next
  case (JStr s)
  then show ?case by (simp add: quote_str_printable)
next
  case (JList xs)
  then have "list_all (list_all printable) (map (dumps (float_repr E) canon_style) xs)"
    by (auto simp: list_all_iff)
  then have "list_all printable (py_join '','' (map (dumps (float_repr E) canon_style) xs))"
    by (rule py_join_all [rotated]) (simp add: printable_def)
  then show ?case by (simp add: item_sep_canon) (simp add: printable_def)
next
  case (JObj d)
  have "list_all printable (member_text (float_repr E) canon_style m)" if "m \<in> set d" for m
  proof -
    obtain k x where m: "m = (k, x)" by (cases m)
    with JObj.prems that have "plain x" by (auto simp: list_all_iff)
    with JObj.IH [of m x] that m have "list_all printable (dumps (float_repr E) canon_style x)"
      by (simp add: snds.simps)
    with m quote_str_printable [of k] show ?thesis
      by (simp add: member_text_def printable_special)
  qed
  then have "list_all (list_all printable) (map (member_text (float_repr E) canon_style) (sorted_items True d))"
    by (auto simp: list_all_iff)
  then have "list_all printable (py_join (item_sep canon_style) (map (member_text (float_repr E) canon_style) (sorted_items True d)))"
    by (rule py_join_all [rotated]) (rule printable_special)
  then show ?case by simp (simp add: printable_def)
qed (simp_all add: printable_def)

section \<open>Appending keeps the file verifiable\<close>

text \<open>The fields of an entry in the order of the canonical text.\<close>

lemma sorted_entry_hash:
  "sorted_items True [(''seq'', a), (''ts'', b), (''event'', c), (''data'', d), (''prev'', e), (''hash'', h)]
   = [(''data'', d), (''event'', c), (''hash'', h), (''prev'', e), (''seq'', a), (''ts'', b)]"
  by (simp add: sorted_items_def)

lemma sorted_entry:
  "sorted_items True [(''seq'', a), (''ts'', b), (''event'', c), (''data'', d), (''prev'', e)]
   = [(''data'', d), (''event'', c), (''prev'', e), (''seq'', a), (''ts'', b)]"
  "sorted_items True [(''data'', d), (''event'', c), (''prev'', e), (''seq'', a), (''ts'', b)]
   = [(''data'', d), (''event'', c), (''prev'', e), (''seq'', a), (''ts'', b)]"
  by (simp_all add: sorted_items_def)

lemma canon_text_jnorm: "canon_text E (jnorm True v) = canon_text E v"
  using dumps_jnorm [of "float_repr E" canon_style v] by (simp add: canon_text_def)

lemma member_text_jnorm:
  "member_text (float_repr E) canon_style (k, jnorm True v) = member_text (float_repr E) canon_style (k, v)"
  using canon_text_jnorm [of E v] by (simp add: member_text_def canon_text_def)

lemma canon_text_log_entry:
  "canon_text E (JObj [(''data'', jnorm True (JObj data)), (''event'', JStr ev), (''prev'', JStr p), (''seq'', JInt i), (''ts'', JStr ts)])
   = canon_text E (JObj [(''seq'', JInt i), (''ts'', JStr ts), (''event'', JStr ev), (''data'', JObj data), (''prev'', JStr p)])"
  unfolding canon_text_def dumps_JObj sort_keys_styles sorted_entry
  by (simp only: list.map member_text_jnorm)

text \<open>The line \<open>append\<close> writes.\<close>

definition entry_line :: "'a hashing_scheme \<Rightarrow> nat \<Rightarrow> string \<Rightarrow> string \<Rightarrow> (string \<times> json) list \<Rightarrow> string \<Rightarrow> string" where
  "entry_line E sq ts event data prev =
     (let entry = log_entry sq ts event data prev
      in canon_text E (JObj (AList.update ''hash'' (JStr (entry_hash E prev (JObj entry))) entry)))"

definition entry_digest :: "'a hashing_scheme \<Rightarrow> nat \<Rightarrow> string \<Rightarrow> string \<Rightarrow> (string \<times> json) list \<Rightarrow> string \<Rightarrow> string" where
  "entry_digest E sq ts event data prev = entry_hash E prev (JObj (log_entry sq ts event data prev))"

lemma append_entry_eq:
  "append_entry E wrote ts event data l =
    (if wrote
     then (l\<lparr>seq := Suc (seq l),
             log_file := Some ((case log_file l of None \<Rightarrow> [] | Some t \<Rightarrow> t)
                               @ entry_line E (Suc (seq l)) ts event data (head l) @ [newline_char]),
             head := entry_digest E (Suc (seq l)) ts event data (head l)\<rparr>,
           Inr (Suc (seq l), entry_digest E (Suc (seq l)) ts event data (head l)))
     else (l\<lparr>seq := Suc (seq l)\<rparr>, Inl OSError))"
  by (simp add: append_entry_def Let_def entry_line_def entry_digest_def)

lemma plain_log_entry:
  "plain (JObj data) \<Longrightarrow> plain (JObj (AList.update ''hash'' (JStr h) (log_entry sq ts event data prev)))"
  by (simp add: log_entry_def dict_ok_def)

lemma entry_line_nonempty [simp]: "entry_line E sq ts event data prev \<noteq> []"
  by (simp add: entry_line_def Let_def canon_text_def)

lemma loads_hashed_entry:
  assumes "plain (JObj data)"
  shows "loads (canon_text E (JObj (AList.update ''hash'' (JStr h) (log_entry sq ts event data prev))))
    = Some (JObj [(''data'', jnorm True (JObj data)), (''event'', JStr event),
        (''hash'', JStr h), (''prev'', JStr prev), (''seq'', JInt (int sq)), (''ts'', JStr ts)])"
proof -
  define full where "full = AList.update ''hash'' (JStr h) (log_entry sq ts event data prev)"
  have pl: "plain (JObj full)"
    unfolding full_def using assms by (rule plain_log_entry)
  have "loads (canon_text E (JObj full)) = Some (jnorm True (JObj full))"
    unfolding canon_text_def using pl by (rule canon.dec_enc)
  also have "jnorm True (JObj full) = JObj [(''data'', jnorm True (JObj data)), (''event'', JStr event),
      (''hash'', JStr h), (''prev'', JStr prev), (''seq'', JInt (int sq)), (''ts'', JStr ts)]"
    unfolding jnorm_JObj [of True full] by (simp add: full_def log_entry_def sorted_entry_hash del: jnorm_JObj)
  finally show ?thesis by (simp only: full_def)
qed

lemma loads_entry_line:
  "plain (JObj data) \<Longrightarrow> loads (entry_line E sq ts event data prev)
    = Some (JObj [(''data'', jnorm True (JObj data)), (''event'', JStr event),
        (''hash'', JStr (entry_digest E sq ts event data prev)), (''prev'', JStr prev),
        (''seq'', JInt (int sq)), (''ts'', JStr ts)])"
  unfolding entry_line_def Let_def entry_digest_def by (rule loads_hashed_entry)

lemma verify_entry_line:
  assumes "plain (JObj data)"
  shows "verify_line E k prev n (entry_line E (Suc n) ts event data prev)
    = Inr (Inr (Suc n, entry_digest E (Suc n) ts event data prev))"
proof -
  have "entry_hash E prev (JObj [(''data'', jnorm True (JObj data)), (''event'', JStr event),
      (''prev'', JStr prev), (''seq'', JInt (int (Suc n))), (''ts'', JStr ts)])
      = entry_digest E (Suc n) ts event data prev"
    by (simp only: entry_hash_def canon_text_log_entry) (simp only: entry_digest_def entry_hash_def log_entry_def)
  then show ?thesis
    by (simp add: verify_line_def loads_entry_line [OF assms] jget_def py_eq_str_def del: jnorm_JObj)
qed

lemma entry_line_chars: "plain (JObj data) \<Longrightarrow> list_all line_char (entry_line E sq ts event data prev)"
  using canon_text_printable [OF plain_log_entry, of data E]
  by (auto simp: entry_line_def Let_def list_all_iff intro: printable_line_char)

lemma ends_line_newline [simp]: "ends_line (s @ [newline_char])"
  by (simp add: ends_line_def)

text \<open>
  The state of a log that agrees with its file: the file is verifiable and ends with a complete
  line, and the counter and the head are those of its last entry.
\<close>

definition log_ok :: "'a hashing_scheme \<Rightarrow> audit_log \<Rightarrow> bool" where
  "log_ok E l \<longleftrightarrow>
     verify_loop E 1 GENESIS 0 (file_lines (case log_file l of None \<Rightarrow> [] | Some t \<Rightarrow> t)) = Inr (Inr (seq l, head l))
     \<and> ends_line (case log_file l of None \<Rightarrow> [] | Some t \<Rightarrow> t)"

lemma log_ok_append:
  assumes "log_ok E l" and "plain (JObj data)"
  shows "log_ok E (fst (append_entry E True ts event data l))"
proof -
  define t where "t = (case log_file l of None \<Rightarrow> [] | Some t \<Rightarrow> t)"
  let ?line = "entry_line E (Suc (seq l)) ts event data (head l)"
  have lines: "file_lines (t @ ?line @ [newline_char]) = file_lines t @ [?line]"
    using assms by (simp add: file_lines_append log_ok_def t_def [symmetric] lines_from_line entry_line_chars)
  then have "verify_loop E 1 GENESIS 0 (file_lines (t @ ?line @ [newline_char]))
      = Inr (Inr (Suc (seq l), entry_digest E (Suc (seq l)) ts event data (head l)))"
    using assms by (simp add: verify_loop_append log_ok_def t_def [symmetric] verify_entry_line)
  then show ?thesis
    by (simp add: append_entry_eq log_ok_def t_def [symmetric])
      (metis append_assoc ends_line_newline)
qed

section \<open>The interface: append-only logs\<close>

text \<open>
  What the service relies on when it records an event: adding an admissible entry to an intact
  log gives an intact log with one entry more.
\<close>

locale append_log =
  fixes add :: "'e \<Rightarrow> 'l \<Rightarrow> 'l" and intact :: "'l \<Rightarrow> bool"
    and entries :: "'l \<Rightarrow> nat" and admissible :: "'e \<Rightarrow> bool"
  assumes intact_add: "intact l \<Longrightarrow> admissible e \<Longrightarrow> intact (add e l)"
    and entries_add: "entries (add e l) = Suc (entries l)"
begin

lemma intact_fold: "intact l \<Longrightarrow> list_all admissible es \<Longrightarrow> intact (fold add es l)"
  by (induction es arbitrary: l) (simp_all add: intact_add)

lemma entries_fold: "entries (fold add es l) = entries l + length es"
  by (induction es arbitrary: l) (simp_all add: entries_add)

end

text \<open>Appending a list of events, each with its time stamp, all writes succeeding.\<close>

type_synonym event = "string \<times> string \<times> (string \<times> json) list"

definition append_event :: "'a hashing_scheme \<Rightarrow> event \<Rightarrow> audit_log \<Rightarrow> audit_log" where
  "append_event E ev l = (case ev of (ts, event, data) \<Rightarrow> fst (append_entry E True ts event data l))"

definition event_ok :: "event \<Rightarrow> bool" where
  "event_ok ev \<longleftrightarrow> plain (JObj (snd (snd ev)))"

interpretation chain: append_log "append_event E" "log_ok E" seq event_ok for E
proof
  show "log_ok E l \<Longrightarrow> event_ok e \<Longrightarrow> log_ok E (append_event E e l)" for l e
    by (cases e) (simp add: append_event_def event_ok_def log_ok_append del: plain.simps)
  show "seq (append_event E e l) = Suc (seq l)" for l e
    by (cases e) (simp add: append_event_def append_entry_eq)
qed

subsection \<open>Opening a log\<close>

lemma verify_line_errors: "verify_line E k prev n l = Inr (Inl (ok, m, h, err)) \<Longrightarrow> \<not> ok \<and> err \<noteq> None"
  by (auto simp: verify_line_def line_error_def Let_def split: if_splits option.splits json.splits)

lemma verify_loop_errors: "verify_loop E k prev n ls = Inr (Inl (ok, m, h, err)) \<Longrightarrow> \<not> ok \<and> err \<noteq> None"
  by (induction ls arbitrary: k prev n) (auto split: sum.splits dest: verify_line_errors)

lemma verify_file_True:
  "verify_file E path anchor = Inr (True, n, h, err) \<Longrightarrow>
    err = None \<and> verify_loop E 1 GENESIS 0 (file_lines (case path of None \<Rightarrow> [] | Some t \<Rightarrow> t)) = Inr (Inr (n, h))"
  by (auto simp: verify_file_def split: option.splits sum.splits prod.splits if_splits dest: verify_loop_errors)

lemma open_log_intact:
  assumes "open_log E path = Inr l" and "tamper_error l = None"
    and "ends_line (case path of None \<Rightarrow> [] | Some t \<Rightarrow> t)"
  shows "log_ok E l \<and> log_file l = path"
proof -
  from assms(1) obtain ok n h err where v: "verify_file E path [] = Inr (ok, n, h, err)"
    and l: "l = \<lparr>log_file = path, seq = n, head = h, tamper_error = (if ok then None else err)\<rparr>"
    by (auto simp: open_log_def py_simps)
  have ok
  proof (rule ccontr)
    assume "\<not> ok"
    with l assms(2) have "err = None" by simp
    with v \<open>\<not> ok\<close> show False
      by (auto simp: verify_file_def split: option.splits sum.splits prod.splits if_splits dest: verify_loop_errors)
  qed
  with v l assms(3) show ?thesis
    by (auto simp: log_ok_def dest: verify_file_True)
qed

subsection \<open>Heads are hexadecimal\<close>

text \<open>The documented form of \<open>hexdigest\<close> of SHA-256.\<close>

definition hex_digests :: "'a hashing_scheme \<Rightarrow> bool" where
  "hex_digests E \<longleftrightarrow> (\<forall>x. length (sha256 E x) = 64 \<and> list_all is_hex_lower (sha256 E x))"

definition head_form :: "string \<Rightarrow> bool" where
  "head_form h \<longleftrightarrow> length h = 64 \<and> list_all is_hex_lower h"

lemma head_form_GENESIS [simp]: "head_form GENESIS"
  by (simp add: head_form_def GENESIS_def list_all_iff is_hex_lower_def is_digit_def)

lemma head_form_hash: "hex_digests E \<Longrightarrow> head_form (entry_hash E prev e)"
  by (simp add: hex_digests_def head_form_def entry_hash_def)

lemma verify_line_head:
  "hex_digests E \<Longrightarrow> head_form prev \<Longrightarrow> verify_line E k prev n l = Inr (Inr (m, h)) \<Longrightarrow> head_form h"
  by (auto simp: verify_line_def Let_def head_form_hash split: if_splits option.splits json.splits)

lemma verify_loop_head:
  "hex_digests E \<Longrightarrow> head_form prev \<Longrightarrow> verify_loop E k prev n ls = Inr (Inr (m, h)) \<Longrightarrow> head_form h"
proof (induction ls arbitrary: k prev n)
  case (Cons l ls)
  from Cons.prems(3) obtain n' prev' where step: "verify_line E k prev n l = Inr (Inr (n', prev'))"
    and rest: "verify_loop E (Suc k) prev' n' ls = Inr (Inr (m, h))"
    by (auto split: sum.splits)
  show ?case
    by (rule Cons.IH [OF Cons.prems(1) verify_line_head [OF Cons.prems(1,2) step] rest])
qed simp

lemma verify_intact:
  assumes "log_ok E l" and "hex_digests E"
  shows "verify_file E (log_file l) (take k (head l)) = Inr (True, seq l, head l, None)"
proof -
  have loop: "verify_loop E 1 GENESIS 0 (file_lines (case log_file l of None \<Rightarrow> [] | Some t \<Rightarrow> t)) = Inr (Inr (seq l, head l))"
    using assms(1) by (simp add: log_ok_def)
  then have "head_form (head l)" by (rule verify_loop_head [OF assms(2) head_form_GENESIS])
  then have "list_all is_hex_lower (take k (head l))"
    by (auto simp: head_form_def list_all_iff dest: in_set_takeD)
  then have "starts_with (head l) (py_lower (take k (head l)))"
    by (simp add: py_lower_hex)
  with loop show ?thesis
    by (cases "log_file l") (auto simp: verify_file_def)
qed

text \<open>
  Every log written by the program verifies: open a log whose file is intact (or does not
  exist), append any events; the file then verifies with one entry more per event, with the head
  the object reports, also against any prefix of that head as the anchor.
\<close>

theorem audit_appends_verify:
  assumes "hex_digests E" and "open_log E path = Inr l" and "tamper_error l = None"
    and "ends_line (case path of None \<Rightarrow> [] | Some t \<Rightarrow> t)" and "list_all event_ok evs"
    and "l' = fold (append_event E) evs l"
  shows "verify_file E (log_file l') (take k (head l')) = Inr (True, seq l + length evs, head l', None)"
proof -
  have "log_ok E l" using open_log_intact [OF assms(2-4)] by simp
  then have "log_ok E l'" unfolding assms(6) using assms(5) by (rule chain.intact_fold)
  with verify_intact [of E l' k] assms(1,6) chain.entries_fold [of E evs l] show ?thesis by simp
qed

text \<open>A hash for the examples: every digest is the same string.\<close>

definition toy_hash :: hashing where
  "toy_hash = \<lparr>sha256 = (\<lambda>_. replicate 64 (CHR ''a'')), float_repr = (\<lambda>_. ''0.5'')\<rparr>"

definition empty_log :: audit_log where
  "empty_log = \<lparr>log_file = None, seq = 0, head = GENESIS, tamper_error = None\<rparr>"

lemma hex_digests_toy [simp]: "hex_digests toy_hash"
  by (simp add: hex_digests_def toy_hash_def list_all_iff is_hex_lower_def)

lemma open_log_None: "open_log E None = Inr empty_log"
  by (simp add: open_log_def verify_file_def empty_log_def)

lemma log_ok_empty [simp]: "log_ok E empty_log"
  by (simp add: log_ok_def empty_log_def ends_line_def)

lemma audit_appends_verify_witness:
  "verify_file toy_hash (log_file (append_event toy_hash (''t'', ''service_stop'', []) empty_log))
     (take 8 (head (append_event toy_hash (''t'', ''service_stop'', []) empty_log)))
   = Inr (True, 1, head (append_event toy_hash (''t'', ''service_stop'', []) empty_log), None)"
proof -
  have "tamper_error empty_log = None" "seq empty_log = 0" by (simp_all add: empty_log_def)
  moreover have "list_all event_ok [(''t'', ''service_stop'', [])]" by (simp add: event_ok_def)
  ultimately show ?thesis
    using audit_appends_verify [OF hex_digests_toy open_log_None, of "[(''t'', ''service_stop'', [])]" _ 8]
    by (simp add: ends_line_def)
qed

section \<open>Tamper evidence\<close>

text \<open>
  What a verified file says: the canonical texts of its entries without their hashes.  The chain
  of heads over such texts, and everything that was hashed on the way.
\<close>

definition line_text :: "'a hashing_scheme \<Rightarrow> string \<Rightarrow> string" where
  "line_text E l = (case loads l of Some (JObj d) \<Rightarrow> canon_text E (JObj (AList.delete ''hash'' d)) | _ \<Rightarrow> [])"

definition entry_texts :: "'a hashing_scheme \<Rightarrow> string \<Rightarrow> string list" where
  "entry_texts E text = map (line_text E) (filter (\<lambda>l. l \<noteq> []) (file_lines text))"

fun chain_head :: "'a hashing_scheme \<Rightarrow> string \<Rightarrow> string list \<Rightarrow> string" where
  "chain_head E prev [] = prev"
| "chain_head E prev (c # cs) = chain_head E (sha256 E (utf8 (prev @ c))) cs"

fun chain_inputs :: "'a hashing_scheme \<Rightarrow> string \<Rightarrow> string list \<Rightarrow> bytes list" where
  "chain_inputs E prev [] = []"
| "chain_inputs E prev (c # cs) = utf8 (prev @ c) # chain_inputs E (sha256 E (utf8 (prev @ c))) cs"

lemma verify_line_chain:
  "verify_line E k prev n l = Inr (Inr (m, h)) \<Longrightarrow>
    (if l = [] then m = n \<and> h = prev else m = Suc n \<and> h = sha256 E (utf8 (prev @ line_text E l)))"
  by (auto simp: verify_line_def line_text_def entry_hash_def Let_def split: if_splits option.splits json.splits)

lemma verify_loop_chain:
  "verify_loop E k prev n ls = Inr (Inr (m, h)) \<Longrightarrow>
    h = chain_head E prev (map (line_text E) (filter (\<lambda>l. l \<noteq> []) ls)) \<and> m = n + length (filter (\<lambda>l. l \<noteq> []) ls)"
proof (induction ls arbitrary: k prev n)
  case (Cons l ls)
  from Cons.prems obtain n' prev' where step: "verify_line E k prev n l = Inr (Inr (n', prev'))"
    and rest: "verify_loop E (Suc k) prev' n' ls = Inr (Inr (m, h))"
    by (auto split: sum.splits)
  from verify_line_chain [OF step] Cons.IH [OF rest] show ?case by (cases "l = []") simp_all
qed simp

lemma verify_file_chain:
  "verify_file E (Some f) anchor = Inr (True, n, h, err) \<Longrightarrow>
    h = chain_head E GENESIS (entry_texts E f) \<and> n = length (entry_texts E f)"
  by (drule verify_file_True) (auto simp: entry_texts_def dest: verify_loop_chain)

lemma chain_head_snoc: "chain_head E p (cs @ [c]) = sha256 E (utf8 (chain_head E p cs @ c))"
  by (induction cs arbitrary: p) simp_all

lemma chain_inputs_snoc: "chain_inputs E p (cs @ [c]) = chain_inputs E p cs @ [utf8 (chain_head E p cs @ c)]"
  by (induction cs arbitrary: p) simp_all

lemma length_chain_head: "hex_digests E \<Longrightarrow> length p = 64 \<Longrightarrow> length (chain_head E p cs) = 64"
  by (induction cs arbitrary: p) (simp_all add: hex_digests_def)

text \<open>
  No two different inputs hashed for the two lists collide, and none of them hashes to the
  initial head.
\<close>

definition no_collision :: "'a hashing_scheme \<Rightarrow> string list \<Rightarrow> string list \<Rightarrow> bool" where
  "no_collision E cs ds \<longleftrightarrow>
     (\<forall>x \<in> set (chain_inputs E GENESIS cs). \<forall>y \<in> set (chain_inputs E GENESIS ds). sha256 E x = sha256 E y \<longrightarrow> x = y)
     \<and> (\<forall>x \<in> set (chain_inputs E GENESIS cs) \<union> set (chain_inputs E GENESIS ds). sha256 E x \<noteq> GENESIS)"

lemma chain_head_inject:
  assumes "hex_digests E"
  shows "no_collision E cs ds \<Longrightarrow> chain_head E GENESIS cs = chain_head E GENESIS ds \<Longrightarrow> cs = ds"
proof (induction cs arbitrary: ds rule: rev_induct)
  case Nil
  then show ?case
    by (cases ds rule: rev_cases) (auto simp: no_collision_def chain_head_snoc chain_inputs_snoc)
next
  case (snoc c cs)
  show ?case
  proof (cases ds rule: rev_cases)
    case Nil
    with snoc.prems show ?thesis by (auto simp: no_collision_def chain_head_snoc chain_inputs_snoc)
  next
    case ds: (snoc ds' d)
    let ?h = "chain_head E GENESIS"
    have "utf8 (?h cs @ c) = utf8 (?h ds' @ d)"
      using snoc.prems by (auto simp: ds no_collision_def chain_head_snoc chain_inputs_snoc)
    then have "?h cs @ c = ?h ds' @ d" by (simp only: utf8_inject)
    then have "?h cs = ?h ds'" "c = d"
      using length_chain_head [OF assms, of GENESIS] by (simp_all add: GENESIS_def)
    moreover have "no_collision E cs ds'"
      using snoc.prems(1) by (auto simp: ds no_collision_def chain_inputs_snoc)
    ultimately show ?thesis using snoc.IH ds by simp
  qed
qed

text \<open>
  C21.  The chain is tamper evident: let a log file verify with some head, and let any other file
  pass the check against that head as the anchor.  Unless a collision of the hash function
  among the hashed entries (or a preimage of the initial head) is at hand, the other file has
  exactly the same entries in the same order; an edit, a deletion, an insertion, a reordering or
  a truncation is detected.
\<close>

theorem audit_tamper_evident:
  assumes "hex_digests E"
    and "verify_file E (Some f) [] = Inr (True, n, h, e1)"
    and "verify_file E (Some g) h = Inr (True, m, h', e2)"
    and "no_collision E (entry_texts E f) (entry_texts E g)"
  shows "entry_texts E g = entry_texts E f \<and> m = n \<and> h' = h"
proof -
  have "head_form h" "head_form h'"
    using assms(2,3) verify_loop_head [OF assms(1) head_form_GENESIS] by (blast dest: verify_file_True)+
  then have "h \<noteq> []" "py_lower h = h" "length h = 64" "length h' = 64"
    by (auto simp: head_form_def py_lower_hex)
  moreover from this assms(3) have "starts_with h' h"
    by (auto simp: verify_file_def split: sum.splits prod.splits if_splits dest: verify_loop_errors)
  ultimately have eq: "h' = h" by (auto simp: starts_with_iff)
  have "entry_texts E f = entry_texts E g"
    using verify_file_chain [OF assms(2)] verify_file_chain [OF assms(3)] eq
    by (intro chain_head_inject [OF assms(1,4)]) simp
  with eq verify_file_chain [OF assms(2)] verify_file_chain [OF assms(3)] show ?thesis by simp
qed

lemma audit_tamper_evident_witness:
  "\<exists>f h. verify_file toy_hash (Some f) [] = Inr (True, 1, h, None)
     \<and> entry_texts toy_hash f = entry_texts toy_hash f \<and> (1::nat) = 1 \<and> h = h"
proof -
  define l where "l = append_event toy_hash (''t'', ''service_stop'', []) empty_log"
  have ok: "log_ok toy_hash l"
    unfolding l_def by (rule chain.intact_add) (simp_all add: event_ok_def)
  obtain f where f: "log_file l = Some f" and sq: "seq l = 1"
    by (simp add: l_def append_event_def append_entry_eq empty_log_def)
  have v: "verify_file toy_hash (Some f) (take k (head l)) = Inr (True, 1, head l, None)" for k
    using verify_intact [OF ok hex_digests_toy, of k] f sq by simp
  have "length (entry_texts toy_hash f) = 1" using verify_file_chain [OF v [of 0]] by simp
  then obtain c where c: "entry_texts toy_hash f = [c]" by (auto simp: length_Suc_conv)
  have "no_collision toy_hash (entry_texts toy_hash f) (entry_texts toy_hash f)"
    unfolding c no_collision_def by (simp add: toy_hash_def GENESIS_def)
  moreover have "verify_file toy_hash (Some f) [] = Inr (True, 1, head l, None)" using v [of 0] by simp
  moreover have "verify_file toy_hash (Some f) (head l) = Inr (True, 1, head l, None)"
    using v [of "length (head l)"] by simp
  ultimately show ?thesis
    using audit_tamper_evident [OF hex_digests_toy] by metis
qed

section \<open>Broken logs\<close>

text \<open>
  A broken chain is never repaired by going on: appending to a file whose verification
  failed (and that ends with a complete line) leaves the verdict, with its count, last good
  head and message, as it was.
\<close>

theorem audit_break_is_permanent:
  assumes "verify_file E (Some f) [] = Inr (False, n, h, err)" and "ends_line f"
    and "log_file l = Some f"
  shows "verify_file E (log_file (fst (append_entry E wrote ts event data l))) [] = Inr (False, n, h, err)"
proof -
  have "verify_loop E 1 GENESIS 0 (file_lines f) = Inr (Inl (False, n, h, err))"
    using assms(1) by (auto simp: verify_file_def split: sum.splits prod.splits)
  then show ?thesis
    using assms(2,3) by (simp add: append_entry_eq verify_file_def file_lines_append verify_loop_append)
qed

lemma audit_break_is_permanent_witness:
  "verify_file toy_hash (log_file (fst (append_entry toy_hash True ''t'' ''e'' []
      (empty_log\<lparr>log_file := Some (''x'' @ [newline_char])\<rparr>)))) []
   = Inr (False, 0, GENESIS, line_error 1 ''unparsable'')"
proof -
  have "loads ''x'' = None" by code_simp
  then have "verify_file toy_hash (Some (''x'' @ [newline_char])) [] = Inr (False, 0, GENESIS, line_error 1 ''unparsable'')"
    by (simp add: verify_file_def verify_line_def)
  then show ?thesis by (rule audit_break_is_permanent) (simp_all add: ends_line_def)
qed

lemma verify_next_line:
  assumes "log_ok E l" and "log_file l = Some t" and "list_all line_char x"
  shows "verify_loop E 1 GENESIS 0 (file_lines (t @ x @ [newline_char]))
    = (case verify_line E (Suc (length (file_lines t))) (head l) (seq l) x of
         Inl e \<Rightarrow> Inl e | Inr (Inl v) \<Rightarrow> Inr (Inl v) | Inr (Inr r) \<Rightarrow> Inr (Inr r))"
proof -
  have "file_lines (t @ x @ [newline_char]) = file_lines t @ [x]"
    using assms by (simp add: file_lines_append log_ok_def lines_from_line)
  with assms show ?thesis
    by (simp add: verify_loop_append log_ok_def split: sum.split)
qed

text \<open>
  A write that fails leaves a hole: the counter has advanced but nothing was written, so the
  next event that is recorded makes the file fail its own verification with a sequence gap.
\<close>

theorem audit_failed_write_breaks_chain:
  assumes "log_ok E l" and "log_file l = Some t" and "plain (JObj data2)"
    and "l1 = fst (append_entry E False ts1 event1 data1 l)"
    and "l2 = fst (append_entry E True ts2 event2 data2 l1)"
  shows "verify_file E (log_file l2) [] =
    Inr (False, Suc (seq l), head l, line_error (Suc (length (file_lines t))) ''sequence gap/reorder'')"
proof -
  let ?x = "entry_line E (Suc (Suc (seq l))) ts2 event2 data2 (head l)"
  have lf: "log_file l2 = Some (t @ ?x @ [newline_char])"
    using assms(2,4,5) by (simp add: append_entry_eq)
  have "verify_line E k (head l) (seq l) ?x
      = Inr (Inl (False, Suc (seq l), head l, line_error k ''sequence gap/reorder''))" for k
    by (simp add: verify_line_def loads_entry_line [OF assms(3)] jget_def del: jnorm_JObj)
  then show ?thesis
    using verify_next_line [OF assms(1,2) entry_line_chars [OF assms(3), of E "Suc (Suc (seq l))" ts2 event2 "head l"]]
    by (simp add: lf verify_file_def)
qed

lemma audit_failed_write_breaks_chain_witness:
  "\<exists>l l1 l2. log_ok toy_hash l \<and> l1 = fst (append_entry toy_hash False ''t'' ''e'' [] l)
     \<and> l2 = fst (append_entry toy_hash True ''t'' ''f'' [] l1)
     \<and> verify_file toy_hash (log_file l2) [] = Inr (False, 1, GENESIS, line_error 1 ''sequence gap/reorder'')"
proof -
  let ?l = "empty_log\<lparr>log_file := Some []\<rparr>"
  have "log_ok toy_hash ?l" by (simp add: log_ok_def empty_log_def ends_line_def)
  moreover have "verify_file toy_hash (log_file (fst (append_entry toy_hash True ''t'' ''f'' []
      (fst (append_entry toy_hash False ''t'' ''e'' [] ?l))))) []
      = Inr (False, 1, GENESIS, line_error 1 ''sequence gap/reorder'')"
    using audit_failed_write_breaks_chain [OF \<open>log_ok toy_hash ?l\<close>, of "[]" "[]" _ "''t''" "''e''" "[]" _ "''t''" "''f''"]
    by (simp add: empty_log_def)
  ultimately show ?thesis by blast
qed

text \<open>
  A line that is JSON but not an object makes verification raise instead of reporting the
  tampering, so the log cannot be opened and the service does not start.
\<close>

theorem audit_non_object_raises:
  assumes "log_ok E l" and "log_file l = Some t"
  shows "verify_file E (Some (t @ ''5'' @ [newline_char])) anchor = Inl AttributeError
    \<and> open_log E (Some (t @ ''5'' @ [newline_char])) = Inl AttributeError"
proof -
  have "loads ''5'' = Some (JInt 5)" by code_simp
  then have "verify_line E k prev n ''5'' = Inl AttributeError" for k prev n
    by (simp add: verify_line_def)
  moreover have "list_all line_char ''5''" by (simp add: line_char_def)
  ultimately have "verify_loop E 1 GENESIS 0 (file_lines (t @ ''5'' @ [newline_char])) = Inl AttributeError"
    using verify_next_line [OF assms, of "''5''"] by simp
  then show ?thesis by (simp add: open_log_def verify_file_def)
qed

lemma audit_non_object_raises_witness:
  "verify_file toy_hash (Some ([] @ ''5'' @ [newline_char])) ''ab'' = Inl AttributeError
   \<and> open_log toy_hash (Some ([] @ ''5'' @ [newline_char])) = Inl AttributeError"
proof -
  let ?l = "empty_log\<lparr>log_file := Some []\<rparr>"
  have "log_ok toy_hash ?l" by (simp add: log_ok_def empty_log_def ends_line_def)
  from audit_non_object_raises [OF this, of "[]"] show ?thesis by simp
qed

text \<open>
  The count in a failed verdict includes the entry that failed: an altered last entry of a
  log with \<open>n\<close> valid entries before it is reported as found after \<open>n + 1\<close> valid entries.
\<close>

theorem audit_failure_count_off_by_one:
  assumes "log_ok E l" and "log_file l = Some t" and "list_all line_char x"
    and "loads x = Some (JObj d)" and "map_of d ''hash'' = Some (JStr s)"
    and "jget (AList.delete ''hash'' d) ''seq'' = JInt (int (Suc (seq l)))"
    and "jget (AList.delete ''hash'' d) ''prev'' = JStr (head l)"
    and "s \<noteq> entry_hash E (head l) (JObj (AList.delete ''hash'' d))"
  shows "cmd_verify E (Some (t @ x @ [newline_char])) []
    = Inr (''TAMPER DETECTED after '' @ show_nat (Suc (seq l)) @ '' valid entries: line ''
           @ show_nat (Suc (length (file_lines t))) @ '': content modified'', 1)"
proof -
  have "loads [] = None" by (simp add: loads_def ws_def)
  with assms(4) have "x \<noteq> []" by auto
  then have "verify_line E k (head l) (seq l) x
      = Inr (Inl (False, Suc (seq l), head l, line_error k ''content modified''))" for k
    using assms(4-) by (simp add: verify_line_def py_eq_str_def)
  then have "verify_loop E 1 GENESIS 0 (file_lines (t @ x @ [newline_char]))
      = Inr (Inl (False, Suc (seq l), head l, line_error (Suc (length (file_lines t))) ''content modified''))"
    using verify_next_line [OF assms(1-3)] by simp
  then show ?thesis
    by (simp add: cmd_verify_def verify_file_def line_error_def)
qed

lemma audit_failure_count_off_by_one_witness:
  "cmd_verify toy_hash (Some ([] @ canon_text toy_hash (JObj (AList.update ''hash'' (JStr ''bad'')
       (log_entry 1 ''t'' ''e'' [] GENESIS))) @ [newline_char])) []
   = Inr (''TAMPER DETECTED after 1 valid entries: line 1: content modified'', 1)"
proof -
  let ?l = "empty_log\<lparr>log_file := Some []\<rparr>"
  let ?x = "canon_text toy_hash (JObj (AList.update ''hash'' (JStr ''bad'') (log_entry 1 ''t'' ''e'' [] GENESIS)))"
  have ok: "log_ok toy_hash ?l" by (simp add: log_ok_def empty_log_def ends_line_def)
  have pl: "plain (JObj [])" by simp
  have one: "show_nat (Suc 0) = ''1''" by code_simp
  have ne: "''bad'' \<noteq> replicate 64 (CHR ''a'')"
  proof
    assume "''bad'' = replicate 64 (CHR ''a'')"
    then have "length ''bad'' = length (replicate 64 (CHR ''a''))" by (rule arg_cong)
    then show False by simp
  qed
  have chars: "list_all line_char ?x"
    using canon_text_printable [OF plain_log_entry [OF pl, of "''bad''" 1 "''t''" "''e''" GENESIS], of toy_hash]
    by (auto simp: list_all_iff intro: printable_line_char)
  show ?thesis
    using audit_failure_count_off_by_one [OF ok _ chars loads_hashed_entry [OF pl], of "[]" "''bad''"]
    by (simp add: jget_def empty_log_def entry_hash_def toy_hash_def one ne del: jnorm_JObj)
qed

text \<open>
  Deleting the whole log is not detected: with no file, \<open>audit.py verify\<close> reports success
  for every anchor.
\<close>

theorem audit_deleted_file_passes:
  "cmd_verify E None anchor = Inr (''OK: 0 entries, head='' @ replicate 64 (CHR ''0''), 0)"
  by (simp add: cmd_verify_def verify_file_def GENESIS_def)

end
