(* ===== verification/Backoff.thy ===== *)
theory Backoff
  imports Prelude
begin

text \<open>
  The class \<open>Backoff\<close> of \<^verbatim>\<open>src/listener.py\<close>: failures per key (an IP address or a device), with
  lockouts that double.  Every method takes the reading of the monotonic clock as an argument.

  The theory proves what the class promises at three levels: the step of one call; a whole run
  of calls on many keys, where the dictionary and its pruning refine a specification that looks
  at one key and its own history only; and the rate of guesses an attacker can reach.  The
  contract the service relies on is the locale \<open>lockouts\<close>.
\<close>

section \<open>The class\<close>

record entry =
  fails :: int
  level :: nat
  until :: time
  last_fail :: time

record backoff =
  bo_threshold :: int
  bo_base :: rat
  bo_maximum :: rat
  quiet_reset :: rat
  bo_state :: "(string \<times> entry) list"

definition new_backoff :: "int \<Rightarrow> rat \<Rightarrow> rat \<Rightarrow> backoff" where
  "new_backoff thr bs mx =
     \<lparr>bo_threshold = thr, bo_base = bs, bo_maximum = mx, quiet_reset = 3600, bo_state = []\<rparr>"

definition remaining :: "backoff \<Rightarrow> string \<Rightarrow> time \<Rightarrow> time" where
  "remaining b key now =
     (case map_of (bo_state b) key of
        Some st \<Rightarrow> max 0 (until st - now)
      | None \<Rightarrow> 0)"

definition prune :: "time \<Rightarrow> backoff \<Rightarrow> backoff" where
  "prune now b =
     b\<lparr>bo_state := dict_keep (\<lambda>k s. \<not> (now \<ge> until s \<and> now - last_fail s > quiet_reset b)) (bo_state b)\<rparr>"

text \<open>\<open>st\<close> is the object in the dictionary, so each assignment to one of its items is a store.\<close>

definition store :: "string \<Rightarrow> entry \<Rightarrow> backoff \<Rightarrow> backoff" where
  "store key st b = b\<lparr>bo_state := AList.update key st (bo_state b)\<rparr>"

definition fail :: "backoff \<Rightarrow> string \<Rightarrow> time \<Rightarrow> backoff \<times> bool" where
  "fail b key now =
     (let st = (case map_of (bo_state b) key of
                  Some st \<Rightarrow> st
                | None \<Rightarrow> \<lparr>fails = 0, level = 0, until = 0, last_fail = now\<rparr>);
          st = (if now - last_fail st > quiet_reset b \<and> now \<ge> until st
                then st\<lparr>fails := 0, level := 0\<rparr> else st);
          st = st\<lparr>last_fail := now\<rparr>
      in if now < until st then (store key st b, False)
         else
           let st = st\<lparr>fails := fails st + 1\<rparr>
           in if fails st \<ge> bo_threshold b
              then
                let st = st\<lparr>until := now + min (bo_base b * 2 ^ level st) (bo_maximum b)\<rparr>;
                    st = st\<lparr>level := level st + 1\<rparr>;
                    st = st\<lparr>fails := 0\<rparr>
                in (store key st b, True)
              else
                let b' = store key st b
                in if length (bo_state b') > 2048 then (prune now b', False) else (b', False))"

definition success :: "backoff \<Rightarrow> string \<Rightarrow> backoff" where
  "success b key = b\<lparr>bo_state := AList.delete key (bo_state b)\<rparr>"

section \<open>The step of one key\<close>

text \<open>
  What \<open>fail\<close> does to the entry of its own key, and the specification of a key: its entry
  after the failures at the times of its history, with no dictionary and no pruning.
\<close>

definition new_entry :: "time \<Rightarrow> entry" where
  "new_entry now = \<lparr>fails = 0, level = 0, until = 0, last_fail = now\<rparr>"

definition lock_time :: "backoff \<Rightarrow> nat \<Rightarrow> rat" where
  "lock_time b n = min (bo_base b * 2 ^ n) (bo_maximum b)"

definition rested :: "backoff \<Rightarrow> entry \<Rightarrow> time \<Rightarrow> bool" where
  "rested b st now \<longleftrightarrow> now - last_fail st > quiet_reset b \<and> now \<ge> until st"

definition key_fail :: "backoff \<Rightarrow> time \<Rightarrow> entry \<Rightarrow> entry \<times> bool" where
  "key_fail b now st =
     (let n = (if rested b st now then 0 else fails st); lv = (if rested b st now then 0 else level st)
      in if now < until st then (st\<lparr>last_fail := now\<rparr>, False)
         else if n + 1 \<ge> bo_threshold b
         then (\<lparr>fails = 0, level = Suc lv, until = now + lock_time b lv, last_fail = now\<rparr>, True)
         else (\<lparr>fails = n + 1, level = lv, until = until st, last_fail = now\<rparr>, False))"

definition entry_of :: "backoff \<Rightarrow> string \<Rightarrow> time \<Rightarrow> entry" where
  "entry_of b key now = (case map_of (bo_state b) key of Some st \<Rightarrow> st | None \<Rightarrow> new_entry now)"

definition expired :: "backoff \<Rightarrow> time \<Rightarrow> entry \<Rightarrow> bool" where
  "expired b now st \<longleftrightarrow> now \<ge> until st \<and> now - last_fail st > quiet_reset b"

lemma store_sel [simp]:
  "bo_threshold (store k e b) = bo_threshold b" "bo_base (store k e b) = bo_base b"
  "bo_maximum (store k e b) = bo_maximum b" "quiet_reset (store k e b) = quiet_reset b"
  "bo_state (store k e b) = AList.update k e (bo_state b)"
  by (simp_all add: store_def)

lemma prune_sel [simp]:
  "bo_threshold (prune t b) = bo_threshold b" "bo_base (prune t b) = bo_base b"
  "bo_maximum (prune t b) = bo_maximum b" "quiet_reset (prune t b) = quiet_reset b"
  by (simp_all add: prune_def)

lemma success_sel [simp]:
  "bo_threshold (success b k) = bo_threshold b" "bo_base (success b k) = bo_base b"
  "bo_maximum (success b k) = bo_maximum b" "quiet_reset (success b k) = quiet_reset b"
  "bo_state (success b k) = AList.delete k (bo_state b)"
  by (simp_all add: success_def)

text \<open>\<open>fail\<close> is the step of the key, a store, and pruning in some of the cases.\<close>

lemma fail_cases:
  fixes b key now
  defines "r \<equiv> key_fail b now (entry_of b key now)"
  shows "fail b key now = (store key (fst r) b, snd r)
    \<or> (fail b key now = (prune now (store key (fst r) b), False) \<and> \<not> snd r)"
  by (cases "entry_of b key now")
    (auto simp: r_def fail_def key_fail_def entry_of_def new_entry_def rested_def lock_time_def Let_def
      split: option.splits)

lemma fail_snd: "snd (fail b key now) = snd (key_fail b now (entry_of b key now))"
  using fail_cases [of b key now] by auto

lemma fail_sel [simp]:
  "bo_threshold (fst (fail b k t)) = bo_threshold b" "bo_base (fst (fail b k t)) = bo_base b"
  "bo_maximum (fst (fail b k t)) = bo_maximum b" "quiet_reset (fst (fail b k t)) = quiet_reset b"
  using fail_cases [of b k t] by auto

lemma map_of_prune:
  "dict_ok (bo_state b) \<Longrightarrow> map_of (bo_state (prune now b)) k =
     (case map_of (bo_state b) k of None \<Rightarrow> None | Some st \<Rightarrow> if expired b now st then None else Some st)"
  by (auto simp: prune_def map_of_dict_keep expired_def split: option.splits)

lemma dict_ok_fail: "dict_ok (bo_state b) \<Longrightarrow> dict_ok (bo_state (fst (fail b k t)))"
  using fail_cases [of b k t] by (auto simp: prune_def)

text \<open>The entries after \<open>fail\<close>: the key's own entry is its step, and any entry may be gone if it
  has expired; an entry that has just failed has not.\<close>

lemma map_of_fail_other:
  assumes "dict_ok (bo_state b)" and "k \<noteq> key"
  shows "map_of (bo_state (fst (fail b key now))) k = map_of (bo_state b) k
    \<or> (\<exists>st. map_of (bo_state b) k = Some st \<and> expired b now st \<and> map_of (bo_state (fst (fail b key now))) k = None)"
  using fail_cases [of b key now] assms
  by (auto simp: map_of_prune update_conv' expired_def split: option.splits)

lemma map_of_fail_self:
  assumes "dict_ok (bo_state b)" and "0 \<le> quiet_reset b"
  shows "map_of (bo_state (fst (fail b key now))) key = Some (fst (key_fail b now (entry_of b key now)))"
proof -
  have "last_fail (fst (key_fail b now st)) = now" for st
    by (simp add: key_fail_def Let_def)
  then show ?thesis
    using fail_cases [of b key now] assms
    by (auto simp: map_of_prune update_conv' expired_def)
qed

section \<open>The contract of a lockout\<close>

text \<open>
  What the service relies on.  \<open>ok\<close> is the provider's invariant; the laws about an event at
  time \<open>s\<close> speak of the time left at \<open>s\<close> and later.
\<close>

locale lockouts =
  fixes ok :: "'s \<Rightarrow> bool" and left :: "'s \<Rightarrow> 'k \<Rightarrow> time \<Rightarrow> time"
    and punish :: "'s \<Rightarrow> 'k \<Rightarrow> time \<Rightarrow> 's \<times> bool" and forgive :: "'s \<Rightarrow> 'k \<Rightarrow> 's"
  assumes ok_punish: "ok b \<Longrightarrow> ok (fst (punish b k s))"
    and ok_forgive: "ok b \<Longrightarrow> ok (forgive b k)"
    and left_antimono: "s \<le> t \<Longrightarrow> left b k t \<le> left b k s"
    and left_nonneg: "0 \<le> left b k t"
    and punish_other: "ok b \<Longrightarrow> k' \<noteq> k \<Longrightarrow> s \<le> t \<Longrightarrow> left (fst (punish b k s)) k' t = left b k' t"
    and punish_locked: "ok b \<Longrightarrow> 0 < left b k s \<Longrightarrow> s \<le> t \<Longrightarrow>
      left (fst (punish b k s)) k t = left b k t \<and> \<not> snd (punish b k s)"
    and punish_locks: "ok b \<Longrightarrow> snd (punish b k s) \<Longrightarrow> 0 < left (fst (punish b k s)) k s"
    and punish_no_lock: "ok b \<Longrightarrow> \<not> snd (punish b k s) \<Longrightarrow> 0 \<le> s \<Longrightarrow> s \<le> t \<Longrightarrow> left (fst (punish b k s)) k t = left b k t"
    and forgive_self: "ok b \<Longrightarrow> left (forgive b k) k t = 0"
    and forgive_other: "ok b \<Longrightarrow> k' \<noteq> k \<Longrightarrow> left (forgive b k) k' t = left b k' t"
begin

text \<open>An event: a failure of a key at a time, or a success.\<close>

definition apply_event :: "time \<times> 'k + 'k \<Rightarrow> 's \<Rightarrow> 's" where
  "apply_event e b = (case e of Inl (s, k) \<Rightarrow> fst (punish b k s) | Inr k \<Rightarrow> forgive b k)"

lemma ok_events: "ok b \<Longrightarrow> ok (fold apply_event es b)"
  by (induction es arbitrary: b) (auto simp: apply_event_def ok_punish ok_forgive split: sum.splits)

text \<open>A key that is locked at \<open>t\<close> stays locked until then, whatever fails or succeeds for other
  keys, and however often it fails itself: the time left does not change.\<close>

lemma locked_event:
  assumes "ok b" "0 < left b k t" "e \<noteq> Inr k" "\<And>s k'. e = Inl (s, k') \<Longrightarrow> s \<le> t"
  shows "left (apply_event e b) k t = left b k t"
proof (cases e)
  case (Inl a)
  obtain s k' where a: "a = (s, k')" by (cases a)
  with assms(4) Inl have s: "s \<le> t" by simp
  with assms(2) have "0 < left b k s" using left_antimono [of s t b k] by simp
  with s Inl a assms(1) show ?thesis
    by (cases "k' = k") (simp_all add: apply_event_def punish_locked punish_other)
next
  case (Inr k')
  with assms(1,3) show ?thesis by (simp add: apply_event_def forgive_other)
qed

lemma locked_stays:
  assumes "ok b" "0 < left b k t" "Inr k \<notin> set es" "\<And>s k'. Inl (s, k') \<in> set es \<Longrightarrow> s \<le> t"
  shows "left (fold apply_event es b) k t = left b k t"
  using assms
proof (induction es arbitrary: b)
  case (Cons e es)
  have "left (apply_event e b) k t = left b k t"
    by (rule locked_event) (use Cons.prems in auto)
  moreover have "ok (apply_event e b)"
    using Cons.prems(1) by (auto simp: apply_event_def ok_punish ok_forgive split: sum.splits)
  moreover have "left (fold apply_event es (apply_event e b)) k t = left (apply_event e b) k t"
    using Cons calculation by (metis list.set_intros(2))
  ultimately show ?case by simp
qed simp

end

section \<open>The invariant, and the class as a lockout\<close>

definition params_ok :: "backoff \<Rightarrow> bool" where
  "params_ok b \<longleftrightarrow> 0 < bo_base b \<and> 0 < bo_maximum b \<and> 0 \<le> quiet_reset b"

text \<open>The dictionary has one entry per key, a counter stays below the threshold (at \<open>0\<close> for a
  threshold below \<open>1\<close>), and no lockout ends later than the maximum after the last failure.\<close>

definition entry_ok :: "backoff \<Rightarrow> entry \<Rightarrow> bool" where
  "entry_ok b st \<longleftrightarrow> 0 \<le> fails st \<and> fails st < max 1 (bo_threshold b)
     \<and> until st \<le> last_fail st + bo_maximum b \<and> 0 \<le> last_fail st"

definition backoff_ok :: "backoff \<Rightarrow> bool" where
  "backoff_ok b \<longleftrightarrow> params_ok b \<and> dict_ok (bo_state b) \<and> (\<forall>k st. map_of (bo_state b) k = Some st \<longrightarrow> entry_ok b st)"

definition wf_backoff :: "backoff \<Rightarrow> bool" where
  "wf_backoff b \<longleftrightarrow> params_ok b \<and> dict_ok (bo_state b)"

lemma lock_time_pos: "params_ok b \<Longrightarrow> 0 < lock_time b n"
  by (simp add: lock_time_def params_ok_def)

lemma lock_time_le: "lock_time b n \<le> bo_maximum b"
  by (simp add: lock_time_def)

lemma params_ok_fail [simp]: "params_ok (fst (fail b k t)) = params_ok b"
  by (simp add: params_ok_def)

lemma params_ok_success [simp]: "params_ok (success b k) = params_ok b"
  by (simp add: params_ok_def)

lemma until_key_fail:
  "until (fst (key_fail b s st)) = (if snd (key_fail b s st) then s + lock_time b (level (fst (key_fail b s st)) - 1) else until st)"
  "snd (key_fail b s st) \<Longrightarrow> until st \<le> s"
  by (auto simp: key_fail_def Let_def split: if_splits)

lemma remaining_eq: "remaining b k t = max 0 ((case map_of (bo_state b) k of None \<Rightarrow> t | Some st \<Rightarrow> until st) - t)"
  by (simp add: remaining_def split: option.split)

lemma remaining_fail_other:
  assumes "wf_backoff b" "k' \<noteq> k" "s \<le> t"
  shows "remaining (fst (fail b k s)) k' t = remaining b k' t"
  using map_of_fail_other [of b k' k s] assms
  by (auto simp: remaining_def wf_backoff_def expired_def)

text \<open>The entry of a key without one counts as a lock that ended at \<open>0\<close>, which no clock reading
  precedes.\<close>

lemma remaining_fail_self:
  assumes "wf_backoff b"
  shows "remaining (fst (fail b k s)) k t = max 0 (until (fst (key_fail b s (entry_of b k s))) - t)"
  using map_of_fail_self [of b k s] assms by (simp add: remaining_def wf_backoff_def params_ok_def)

lemma entry_of_not_locked:
  assumes "remaining b k s = 0" "0 \<le> s"
  shows "until (entry_of b k s) \<le> s"
  using assms by (auto simp: remaining_def entry_of_def new_entry_def max_def split: option.splits if_splits)

lemma entry_of_locked:
  assumes "0 < remaining b k s"
  shows "map_of (bo_state b) k = Some (entry_of b k s)" "s < until (entry_of b k s)"
    "remaining b k t = max 0 (until (entry_of b k s) - t)"
  using assms by (auto simp: remaining_def entry_of_def max_def split: option.splits if_splits)

lemma key_fail_locked: "s < until st \<Longrightarrow> key_fail b s st = (st\<lparr>last_fail := s\<rparr>, False)"
  by (simp add: key_fail_def)

text \<open>Failing while locked changes nothing but the time of the last failure.\<close>

lemma remaining_fail_locked:
  assumes "wf_backoff b" "0 < remaining b k s"
  shows "remaining (fst (fail b k s)) k t = remaining b k t \<and> \<not> snd (fail b k s)"
  using assms entry_of_locked [OF assms(2)]
  by (simp add: remaining_fail_self fail_snd key_fail_locked)

lemma remaining_no_lock:
  assumes "wf_backoff b" "\<not> snd (fail b k s)" "0 \<le> s" "s \<le> t"
  shows "remaining (fst (fail b k s)) k t = remaining b k t"
proof (cases "0 < remaining b k s")
  case True
  then show ?thesis using remaining_fail_locked [OF assms(1)] by blast
next
  case False
  then have z: "remaining b k s = 0" by (auto simp: remaining_def split: option.splits)
  have u: "until (entry_of b k s) \<le> s" by (rule entry_of_not_locked [OF z assms(3)])
  have "remaining b k t = 0"
    using z assms(4) by (auto simp: remaining_def max_def split: option.splits if_splits)
  moreover have "until (fst (key_fail b s (entry_of b k s))) = until (entry_of b k s)"
    using assms(2) by (simp add: until_key_fail fail_snd)
  ultimately show ?thesis
    using u assms(4) by (simp add: remaining_fail_self [OF assms(1)])
qed

lemma remaining_lock:
  assumes "wf_backoff b" "snd (fail b k s)"
  shows "remaining (fst (fail b k s)) k s = lock_time b (level (fst (key_fail b s (entry_of b k s))) - 1)"
proof -
  have "0 < lock_time b n" for n using assms(1) by (simp add: wf_backoff_def lock_time_pos)
  then show ?thesis
    using assms by (simp add: remaining_fail_self until_key_fail fail_snd less_imp_le)
qed

lemma wf_backoff_fail: "wf_backoff b \<Longrightarrow> wf_backoff (fst (fail b k s))"
  by (simp add: wf_backoff_def dict_ok_fail)

lemma wf_backoff_success: "wf_backoff b \<Longrightarrow> wf_backoff (success b k)"
  by (simp add: wf_backoff_def)

lemma remaining_success: "remaining (success b k) k' t = (if k' = k then 0 else remaining b k' t)"
  by (simp add: remaining_def delete_conv')

lemma remaining_antimono: "s \<le> t \<Longrightarrow> remaining b k t \<le> remaining b k s"
  by (auto simp: remaining_def split: option.split)

lemma remaining_nonneg: "0 \<le> remaining b k t"
  by (simp add: remaining_def split: option.split)

interpretation bo: lockouts wf_backoff remaining fail success
proof
  fix b k s assume "wf_backoff b" and "snd (fail b k s)"
  then show "0 < remaining (fst (fail b k s)) k s"
    by (simp add: remaining_lock wf_backoff_def lock_time_pos)
qed (simp_all add: wf_backoff_fail wf_backoff_success remaining_fail_other remaining_fail_locked
    remaining_no_lock remaining_success remaining_antimono remaining_nonneg)

text \<open>
  A key that is locked out until after \<open>t\<close> stays locked out: whatever keys fail up to
  \<open>t\<close> (the locked one included) and whichever other keys succeed, the time left at \<open>t\<close> is
  neither shortened nor extended.
\<close>

theorem lockout_not_cut_short:
  assumes "wf_backoff b" and "0 < remaining b k t"
    and "Inr k \<notin> set es" and "\<And>s k'. Inl (s, k') \<in> set es \<Longrightarrow> s \<le> t"
  shows "remaining (fold bo.apply_event es b) k t = remaining b k t"
  using assms by (rule bo.locked_stays)

lemma lockout_not_cut_short_witness:
  "remaining (fold bo.apply_event [Inl (3, ''a''), Inl (3, ''b''), Inr ''b'']
      (fst (fail (new_backoff 1 30 3600) ''a'' 2))) ''a'' 12 = 20"
proof -
  have 0: "wf_backoff (new_backoff 1 30 3600)"
    by (simp add: wf_backoff_def params_ok_def new_backoff_def)
  have "remaining (fst (fail (new_backoff 1 30 3600) ''a'' 2)) ''a'' 12 = 20"
    by (simp add: fail_def new_backoff_def remaining_def store_def)
  then show ?thesis
    using lockout_not_cut_short [of "fst (fail (new_backoff 1 30 3600) ''a'' 2)" "''a''" 12
        "[Inl (3, ''a''), Inl (3, ''b''), Inr ''b'']"] wf_backoff_fail [OF 0]
    by fastforce
qed

section \<open>Invariant and lockout times\<close>

lemma entry_ok_key_fail:
  assumes "params_ok b" "entry_ok b st" "last_fail st \<le> s"
  shows "entry_ok b (fst (key_fail b s st))"
  using assms lock_time_le [of b "if rested b st s then 0 else level st"]
  by (auto simp: entry_ok_def key_fail_def Let_def)

lemma entry_ok_new: "params_ok b \<Longrightarrow> 0 \<le> s \<Longrightarrow> entry_ok b (new_entry s)"
  by (simp add: entry_ok_def new_entry_def params_ok_def)

lemma entry_ok_fail [simp]: "entry_ok (fst (fail b k s)) st = entry_ok b st"
  by (simp add: entry_ok_def)

text \<open>No failure lies in the future of the clock.\<close>

definition seen_by :: "time \<Rightarrow> backoff \<Rightarrow> bool" where
  "seen_by now b \<longleftrightarrow> 0 \<le> now \<and> (\<forall>k st. map_of (bo_state b) k = Some st \<longrightarrow> last_fail st \<le> now)"

lemma last_key_fail [simp]: "last_fail (fst (key_fail b s st)) = s"
  by (simp add: key_fail_def Let_def)

lemma map_of_fail_cases:
  assumes "dict_ok (bo_state b)" "0 \<le> quiet_reset b" "map_of (bo_state (fst (fail b key s))) k = Some st"
  shows "(k = key \<and> st = fst (key_fail b s (entry_of b key s))) \<or> (k \<noteq> key \<and> map_of (bo_state b) k = Some st)"
  using assms map_of_fail_self [of b key s] map_of_fail_other [of b k key s] by (cases "k = key") auto

lemma seen_by_fail: "wf_backoff b \<Longrightarrow> seen_by now b \<Longrightarrow> now \<le> s \<Longrightarrow> seen_by s (fst (fail b k s))"
  unfolding seen_by_def wf_backoff_def params_ok_def
  by (auto dest!: map_of_fail_cases intro: order_trans)

lemma backoff_ok_fail:
  assumes "backoff_ok b" and "seen_by now b" and "now \<le> s"
  shows "backoff_ok (fst (fail b key s))"
proof -
  have q: "dict_ok (bo_state b)" "0 \<le> quiet_reset b" "params_ok b"
    using assms(1) by (simp_all add: backoff_ok_def params_ok_def)
  have "entry_ok b (entry_of b key s) \<and> last_fail (entry_of b key s) \<le> s"
  proof (cases "map_of (bo_state b) key")
    case None
    then show ?thesis using assms entry_ok_new [OF q(3), of s]
      by (simp add: entry_of_def seen_by_def) (simp add: new_entry_def)
  next
    case (Some st)
    then have "last_fail st \<le> now" "entry_ok b st"
      using assms by (auto simp: seen_by_def backoff_ok_def)
    with Some assms(3) show ?thesis by (simp add: entry_of_def)
  qed
  then have "entry_ok b (fst (key_fail b s (entry_of b key s)))"
    using entry_ok_key_fail q(3) by blast
  moreover have "entry_ok b st" if "map_of (bo_state (fst (fail b key s))) k = Some st" for k st
    using map_of_fail_cases [OF q(1,2) that] calculation assms(1) by (auto simp: backoff_ok_def)
  ultimately show ?thesis
    using q(1,3) by (simp add: backoff_ok_def dict_ok_fail)
qed

lemma backoff_ok_success: "backoff_ok b \<Longrightarrow> backoff_ok (success b key)"
  by (auto simp: backoff_ok_def params_ok_def entry_ok_def delete_conv' split: if_splits)

lemma seen_by_success: "seen_by now b \<Longrightarrow> now \<le> s \<Longrightarrow> seen_by s (success b key)"
  by (auto simp: seen_by_def delete_conv' split: if_splits intro: order_trans)

text \<open>
  A failure starts a lockout exactly when the key is not locked and the failure is the
  threshold-th in a row; the lockout then lasts \<open>base * 2 ^ n\<close> seconds, capped by the maximum,
  where \<open>n\<close> counts the lockouts since the key was last quiet for the reset time.
\<close>

theorem lockout_duration:
  assumes "wf_backoff b" and "st = entry_of b key s"
    and "until st \<le> s"
    and "n = (if rested b st s then 0 else level st)"
    and "m = (if rested b st s then 0 else fails st)"
  shows "snd (fail b key s) = (m + 1 \<ge> bo_threshold b)
    \<and> (m + 1 \<ge> bo_threshold b \<longrightarrow>
        remaining (fst (fail b key s)) key s = min (bo_base b * 2 ^ n) (bo_maximum b))"
proof -
  have "0 < lock_time b n" using assms(1) by (simp add: wf_backoff_def lock_time_pos)
  then show ?thesis
    using assms(1,3) unfolding fail_snd remaining_fail_self [OF assms(1)] assms(2) [symmetric] assms(4,5)
    by (simp add: key_fail_def Let_def lock_time_def)
qed

lemma lockout_duration_witness:
  "snd (fail (new_backoff 1 30 3600) ''ip'' 5) \<and> remaining (fst (fail (new_backoff 1 30 3600) ''ip'' 5)) ''ip'' 5 = 30"
  using lockout_duration [of "new_backoff 1 30 3600" "new_entry 5" "''ip''" 5 0 0]
  by (simp add: wf_backoff_def params_ok_def new_backoff_def entry_of_def new_entry_def)

section \<open>Runs of calls, and the specification of one key\<close>

datatype call = Fail string | Success string

definition do_call :: "time \<times> call \<Rightarrow> backoff \<Rightarrow> backoff" where
  "do_call e b = (case e of (t, Fail k) \<Rightarrow> fst (fail b k t) | (t, Success k) \<Rightarrow> success b k)"

text \<open>The specification: the entry of one key, as a function of the calls that name it.\<close>

definition opt_entry :: "time \<Rightarrow> entry option \<Rightarrow> entry" where
  "opt_entry t e = (case e of None \<Rightarrow> new_entry t | Some st \<Rightarrow> st)"

definition key_step :: "backoff \<Rightarrow> string \<Rightarrow> time \<times> call \<Rightarrow> entry option \<Rightarrow> entry option" where
  "key_step b k e x =
     (case e of
        (t, Fail k') \<Rightarrow> if k' = k then Some (fst (key_fail b t (opt_entry t x))) else x
      | (t, Success k') \<Rightarrow> if k' = k then None else x)"

definition key_left :: "entry option \<Rightarrow> time \<Rightarrow> time" where
  "key_left x now = (case x of None \<Rightarrow> 0 | Some st \<Rightarrow> max 0 (until st - now))"

definition timed :: "time \<Rightarrow> (time \<times> call) list \<Rightarrow> bool" where
  "timed now es \<longleftrightarrow> 0 \<le> now \<and> sorted (now # map fst es)"

lemma timed_simps [simp]:
  "timed now [] = (0 \<le> now)"
  "timed now (e # es) = (0 \<le> now \<and> now \<le> fst e \<and> timed (fst e) es)"
  by (auto simp: timed_def intro: order_trans)

lemma timed_last: "timed now es \<Longrightarrow> now \<le> last (now # map fst es)"
  by (induction es arbitrary: now) (auto intro: order_trans)

lemma backoff_ok_run:
  "backoff_ok b \<Longrightarrow> seen_by now b \<Longrightarrow> timed now es
    \<Longrightarrow> backoff_ok (fold do_call es b) \<and> seen_by (last (now # map fst es)) (fold do_call es b)"
proof (induction es arbitrary: b now)
  case (Cons e es)
  obtain t c where e: "e = (t, c)" by (cases e)
  have wf: "wf_backoff b" using Cons.prems(1) by (simp add: backoff_ok_def wf_backoff_def)
  have "backoff_ok (do_call e b) \<and> seen_by t (do_call e b)"
    using Cons.prems e wf by (cases c) (auto simp: do_call_def backoff_ok_success seen_by_success
        intro: backoff_ok_fail seen_by_fail)
  with Cons.IH [of "do_call e b" t] Cons.prems(3) e show ?case by simp
qed simp

lemma bo_maximum_run [simp]: "bo_maximum (fold do_call es b) = bo_maximum b" "bo_threshold (fold do_call es b) = bo_threshold b"
  by (induction es arbitrary: b) (auto simp: do_call_def split: prod.splits call.splits)

lemma success_last: "es \<noteq> [] \<Longrightarrow> last es = (t, Success k) \<Longrightarrow> map_of (bo_state (fold do_call es b)) k = None"
  by (induction es rule: rev_induct) (simp_all add: do_call_def delete_conv')

text \<open>
  C33.  The invariant of the class over any run of failures and successes on any keys, from a new
  object and with a clock that does not run backwards: one entry per key, every counter between
  \<open>0\<close> and the threshold, every lockout within the configured maximum of the last failure, no
  failure in the future of the clock; and a key whose success was the last call has no entry left.
\<close>

theorem calls_keep_backoff_ok:
  assumes "0 < bs" and "0 < mx" and "timed 0 es" and "b = fold do_call es (new_backoff thr bs mx)"
  shows "distinct (map fst (bo_state b))
    \<and> (\<forall>k st. map_of (bo_state b) k = Some st \<longrightarrow> 0 \<le> fails st \<and> fails st < max 1 thr
         \<and> until st \<le> last_fail st + mx \<and> 0 \<le> last_fail st \<and> last_fail st \<le> last (0 # map fst es))
    \<and> (\<forall>t k. es \<noteq> [] \<and> last es = (t, Success k) \<longrightarrow> map_of (bo_state b) k = None)"
proof -
  let ?b = "new_backoff thr bs mx"
  have "backoff_ok ?b" "seen_by 0 ?b"
    using assms(1,2) by (simp_all add: backoff_ok_def params_ok_def new_backoff_def seen_by_def)
  from backoff_ok_run [OF this assms(3)] have ok: "backoff_ok b" "seen_by (last (0 # map fst es)) b" by (simp_all add: assms(4))
  have "bo_maximum b = mx" "bo_threshold b = thr" by (simp_all add: assms(4)) (simp_all add: new_backoff_def)
  moreover have "\<forall>t k. es \<noteq> [] \<and> last es = (t, Success k) \<longrightarrow> map_of (bo_state b) k = None"
    unfolding assms(4) using success_last by blast
  ultimately show ?thesis using ok by (simp add: backoff_ok_def entry_ok_def dict_ok_def seen_by_def)
qed

lemma calls_keep_backoff_ok_witness:
  "distinct (map fst (bo_state (fold do_call [(1, Fail ''ip''), (2, Fail ''phone1''), (5, Success ''ip'')] (new_backoff 3 30 3600))))
    \<and> map_of (bo_state (fold do_call [(1, Fail ''ip''), (2, Fail ''phone1''), (5, Success ''ip'')] (new_backoff 3 30 3600))) ''ip'' = None"
proof -
  have "timed 0 [(1, Fail ''ip''), (2, Fail ''phone1''), (5, Success ''ip'')]" by simp
  from calls_keep_backoff_ok [OF _ _ this refl, of 30 3600 3] show ?thesis by simp
qed

text \<open>A key's specification does not look at the calls for other keys.\<close>

lemma key_step_local: "fold (key_step b k) es x = fold (key_step b k) (filter (\<lambda>e. snd e \<in> {Fail k, Success k}) es) x"
  by (induction es arbitrary: x) (auto simp: key_step_def split: call.splits)

text \<open>
  The simulation between the dictionary and the specification at time \<open>now\<close>: the same entry up
  to a lockout that is over, or no entry where the specification's has expired.
\<close>

definition key_sim :: "backoff \<Rightarrow> time \<Rightarrow> entry option \<Rightarrow> entry option \<Rightarrow> bool" where
  "key_sim b now d x =
     (case (d, x) of
        (None, None) \<Rightarrow> True
      | (None, Some st) \<Rightarrow> expired b now st
      | (Some a, None) \<Rightarrow> False
      | (Some a, Some st) \<Rightarrow> fails a = fails st \<and> level a = level st \<and> last_fail a = last_fail st
          \<and> (until a = until st \<or> (until a \<le> now \<and> until st \<le> now)))"

lemma key_sim_later: "key_sim b now d x \<Longrightarrow> now \<le> s \<Longrightarrow> key_sim b s d x"
  by (auto simp: key_sim_def expired_def split: option.splits)

lemma key_sim_left: "key_sim b now d x \<Longrightarrow> now \<le> s \<Longrightarrow> key_left d s = key_left x s"
  by (auto simp: key_sim_def expired_def key_left_def split: option.splits)

lemma key_sim_fail:
  assumes "key_sim b s d x" "0 \<le> s" "0 \<le> quiet_reset b"
  defines "p \<equiv> key_fail b s (opt_entry s d)" and "r \<equiv> key_fail b s (opt_entry s x)"
  shows "key_sim b s (Some (fst p)) (Some (fst r))" and "snd p = snd r"
  using assms unfolding p_def r_def
  by (auto simp: key_sim_def expired_def opt_entry_def new_entry_def key_fail_def rested_def Let_def
      split: option.splits if_splits)

lemma key_sim_expire:
  assumes "key_sim b s (Some st) x" "expired b s st"
  shows "key_sim b s None x"
  using assms by (auto simp: key_sim_def expired_def split: option.splits)

lemma key_sim_params: "quiet_reset b' = quiet_reset b \<Longrightarrow> key_sim b' = key_sim b"
  by (rule ext)+ (simp add: key_sim_def expired_def split: option.split)

definition sim :: "time \<Rightarrow> backoff \<Rightarrow> (string \<Rightarrow> entry option) \<Rightarrow> bool" where
  "sim now b x \<longleftrightarrow> (\<forall>k. key_sim b now (map_of (bo_state b) k) (x k))"

lemma entry_of_opt: "entry_of b k t = opt_entry t (map_of (bo_state b) k)"
  by (simp add: entry_of_def opt_entry_def)

lemma sim_fail:
  assumes "wf_backoff b" "sim s b x" "0 \<le> s"
  shows "sim s (fst (fail b key s)) (\<lambda>k. key_step b k (s, Fail key) (x k))"
  unfolding sim_def
proof
  fix k
  have q: "dict_ok (bo_state b)" "0 \<le> quiet_reset b" using assms(1) by (simp_all add: wf_backoff_def params_ok_def)
  have k: "key_sim b s (map_of (bo_state b) k) (x k)" using assms(2) by (simp add: sim_def)
  have "key_sim b s (map_of (bo_state (fst (fail b key s))) k) (key_step b k (s, Fail key) (x k))"
  proof (cases "k = key")
    case True
    with key_sim_fail(1) [OF k assms(3) q(2)] show ?thesis
      by (simp add: map_of_fail_self [OF q] entry_of_opt key_step_def)
  next
    case False
    then show ?thesis
      using map_of_fail_other [OF q(1) False, of s] k key_sim_expire
      by (fastforce simp: key_step_def)
  qed
  then show "key_sim (fst (fail b key s)) s (map_of (bo_state (fst (fail b key s))) k) (key_step b k (s, Fail key) (x k))"
    by (simp add: key_sim_params [of "fst (fail b key s)" b])
qed

lemma sim_success: "sim s b x \<Longrightarrow> sim s (success b key) (\<lambda>k. key_step b k (s, Success key) (x k))"
  using key_sim_params [of "success b key" b]
  by (simp add: sim_def key_step_def delete_conv') (simp add: key_sim_def)

lemma key_fail_params:
  "bo_threshold b' = bo_threshold b \<Longrightarrow> bo_base b' = bo_base b \<Longrightarrow> bo_maximum b' = bo_maximum b
    \<Longrightarrow> quiet_reset b' = quiet_reset b \<Longrightarrow> key_fail b' = key_fail b"
  by (rule ext)+ (simp add: key_fail_def rested_def lock_time_def Let_def)

lemma key_step_do_call [simp]: "key_step (do_call e b) = key_step b"
  by (rule ext)+ (auto simp: key_step_def do_call_def key_fail_params [of "fst (fail b k t)" b for k t]
      key_fail_params [of "success b k" b for k] split: call.splits prod.splits)

lemma wf_do_call: "wf_backoff b \<Longrightarrow> wf_backoff (do_call e b)"
  by (auto simp: do_call_def wf_backoff_fail wf_backoff_success split: prod.splits call.splits)

lemma sim_do_call:
  assumes "wf_backoff b" "sim now b x" "0 \<le> now" "now \<le> fst e"
  shows "sim (fst e) (do_call e b) (\<lambda>k. key_step b k e (x k))"
proof -
  have "sim (fst e) b x" using assms(2,4) by (auto simp: sim_def intro: key_sim_later)
  with assms show ?thesis
    by (cases e; cases "snd e") (auto simp: do_call_def sim_fail sim_success)
qed

lemma sim_run:
  assumes "wf_backoff b" "sim now b x" "timed now es"
  shows "wf_backoff (fold do_call es b) \<and> sim (last (now # map fst es)) (fold do_call es b) (\<lambda>k. fold (key_step b k) es (x k))"
  using assms
proof (induction es arbitrary: b now x)
  case (Cons e es)
  have "sim (fst e) (do_call e b) (\<lambda>k. key_step b k e (x k))"
    by (rule sim_do_call) (use Cons.prems in auto)
  from Cons.IH [OF wf_do_call this] Cons.prems show ?case by simp
qed simp

lemma run_refines:
  assumes "wf_backoff b" "bo_state b = []" "timed 0 es" "last (0 # map fst es) \<le> now"
  shows "remaining (fold do_call es b) k now = key_left (fold (key_step b k) es None) now"
    and "snd (fail (fold do_call es b) k now) = snd (key_fail b now (opt_entry now (fold (key_step b k) es None)))"
proof -
  let ?b = "fold do_call es b"
  have "sim 0 b (\<lambda>_. None)" using assms(2) by (simp add: sim_def key_sim_def)
  from sim_run [OF assms(1) this assms(3)]
  have s: "wf_backoff ?b" "key_sim ?b (last (0 # map fst es)) (map_of (bo_state ?b) k) (fold (key_step b k) es None)"
    by (simp_all add: sim_def)
  then show "remaining ?b k now = key_left (fold (key_step b k) es None) now"
    using key_sim_left [OF s(2) assms(4)] by (simp add: remaining_def key_left_def)
  have 0: "0 \<le> now"
    using timed_last [OF assms(3)] assms(4) by simp
  have par: "bo_threshold ?b = bo_threshold b \<and> bo_base ?b = bo_base b \<and> bo_maximum ?b = bo_maximum b \<and> quiet_reset ?b = quiet_reset b"
    by (induction es arbitrary: b) (auto simp: do_call_def split: prod.splits call.splits)
  from key_sim_fail(2) [OF key_sim_later [OF s(2) assms(4)] 0] s(1) par
  show "snd (fail ?b k now) = snd (key_fail b now (opt_entry now (fold (key_step b k) es None)))"
    by (simp add: fail_snd entry_of_opt wf_backoff_def params_ok_def key_fail_params [of ?b b])
qed

text \<open>
  C18.  Keys do not influence each other and pruning is invisible: after any run of calls, the
  time left for a key is what its own history alone gives, and so is whether its next failure
  starts a lockout.  The history is the failures and successes that name the key; the table's
  size and the entries dropped from it play no part.
\<close>

theorem backoff_refines_key_history:
  assumes "wf_backoff b" and "bo_state b = []" and "timed 0 es" and "last (0 # map fst es) \<le> now"
    and "own = filter (\<lambda>e. snd e \<in> {Fail k, Success k}) es"
  shows "remaining (fold do_call es b) k now = key_left (fold (key_step b k) own None) now
    \<and> snd (fail (fold do_call es b) k now) = snd (key_fail b now (opt_entry now (fold (key_step b k) own None)))"
  unfolding assms(5) key_step_local [symmetric] using run_refines [OF assms(1-4)] by blast

lemma backoff_refines_key_history_witness:
  "remaining (fold do_call [(1, Fail ''a''), (2, Fail ''b''), (2, Fail ''a''), (3, Success ''b''), (4, Fail ''a'')] (new_backoff 3 30 3600)) ''a'' 10 = 24"
proof -
  let ?b = "new_backoff 3 30 3600"
  let ?own = "[(1, Fail ''a''), (2, Fail ''a''), (4, Fail ''a'')]"
  have "key_left (fold (key_step ?b ''a'') ?own None) 10 = 24"
    by (simp add: key_left_def key_step_def key_fail_def rested_def lock_time_def opt_entry_def new_entry_def new_backoff_def Let_def)
  then show ?thesis
    using backoff_refines_key_history [of ?b "[(1, Fail ''a''), (2, Fail ''b''), (2, Fail ''a''), (3, Success ''b''), (4, Fail ''a'')]" 10 ?own "''a''"]
    by (simp add: wf_backoff_def params_ok_def new_backoff_def)
qed

section \<open>The rate of guesses\<close>

text \<open>The failures of a key that are counted: those made while the key is not locked.\<close>

fun guesses :: "string \<Rightarrow> (time \<times> call) list \<Rightarrow> backoff \<Rightarrow> nat" where
  "guesses k [] b = 0"
| "guesses k (e # es) b =
     (if snd e = Fail k \<and> remaining b k (fst e) = 0 then 1 else 0) + guesses k es (do_call e b)"

fun key_guesses :: "backoff \<Rightarrow> string \<Rightarrow> (time \<times> call) list \<Rightarrow> entry option \<Rightarrow> nat" where
  "key_guesses b k [] x = 0"
| "key_guesses b k (e # es) x =
     (if snd e = Fail k \<and> key_left x (fst e) = 0 then 1 else 0) + key_guesses b k es (key_step b k e x)"

lemma key_guesses_do_call [simp]: "key_guesses (do_call e b) = key_guesses b"
proof (rule ext)+
  fix k es x
  show "key_guesses (do_call e b) k es x = key_guesses b k es x"
    by (induction es arbitrary: x) simp_all
qed

lemma guesses_refine:
  assumes "wf_backoff b" "sim now b x" "timed now es"
  shows "guesses k es b = key_guesses b k es (x k)"
  using assms
proof (induction es arbitrary: b now x)
  case (Cons e es)
  have "sim (fst e) (do_call e b) (\<lambda>k. key_step b k e (x k))"
    by (rule sim_do_call) (use Cons.prems in auto)
  from Cons.IH [OF wf_do_call this] Cons.prems
  have "guesses k es (do_call e b) = key_guesses b k es (key_step b k e (x k))" by simp
  moreover have "remaining b k (fst e) = key_left (x k) (fst e)"
    using key_sim_left [of b now "map_of (bo_state b) k" "x k" "fst e"] Cons.prems
    by (simp add: remaining_def key_left_def sim_def)
  ultimately show ?case by simp
qed simp

text \<open>
  The budget after \<open>n\<close> counted failures since \<open>t0\<close>, with \<open>q\<close> the number of periods of length
  \<open>m\<close> that a lockout or a quiet time has cost.
\<close>

definition budget :: "backoff \<Rightarrow> rat \<Rightarrow> time \<Rightarrow> rat \<Rightarrow> nat \<Rightarrow> entry \<Rightarrow> bool" where
  "budget b m t0 q n st \<longleftrightarrow>
     0 \<le> fails st \<and> fails st < bo_threshold b \<and> t0 \<le> last_fail st
     \<and> (until st > last_fail st \<longrightarrow> fails st = 0)
     \<and> of_nat n \<le> of_int (fails st) + of_int (bo_threshold b) * q
     \<and> q * m \<le> max (until st) (last_fail st) - t0
     \<and> of_nat n \<le> of_int (bo_threshold b) * (1 + (last_fail st - t0) / m)"

definition period :: "backoff \<Rightarrow> rat" where
  "period b = min (min (bo_base b) (bo_maximum b)) (quiet_reset b)"

lemma period_le_lock: "params_ok b \<Longrightarrow> period b \<le> lock_time b n"
proof -
  assume p: "params_ok b"
  then have "bo_base b * 1 \<le> bo_base b * 2 ^ n"
    by (intro mult_left_mono) (simp_all add: params_ok_def)
  then show ?thesis by (auto simp: period_def lock_time_def)
qed

lemma budget_mono_q:
  assumes "0 < m" "q * m \<le> s - t0" "(1 :: int) \<le> thr"
  shows "of_int thr + of_int thr * q \<le> of_int thr * (1 + (s - t0) / (m :: rat))"
proof -
  have "q \<le> (s - t0) / m" using assms(1,2) by (simp add: pos_le_divide_eq)
  then have "of_int thr * q \<le> of_int thr * ((s - t0) / m)"
    using assms(3) by (intro mult_left_mono) simp_all
  then show ?thesis by (simp add: distrib_left)
qed

lemma rate_mono:
  assumes "of_nat n \<le> of_int thr * (1 + (a - t0) / (m :: rat))" "a \<le> c" "0 < m" "(1 :: int) \<le> thr"
  shows "of_nat n \<le> of_int thr * (1 + (c - t0) / m)"
proof -
  have "of_int thr * (1 + (a - t0) / m) \<le> of_int thr * (1 + (c - t0) / m)"
    using assms by (intro mult_left_mono add_left_mono divide_right_mono) auto
  with assms(1) show ?thesis by (rule order_trans)
qed

text \<open>A failure during a lockout costs nothing and counts for nothing.\<close>

lemma budget_locked:
  assumes "budget b m t0 q n st" "0 < m" "1 \<le> bo_threshold b" "last_fail st \<le> s" "s < until st"
  shows "budget b m t0 q n (fst (key_fail b s st))"
proof -
  have "of_nat n \<le> of_int (bo_threshold b) * (1 + (s - t0) / m)"
    by (rule rate_mono) (use assms in \<open>simp_all add: budget_def\<close>)
  then show ?thesis
    using assms by (auto simp: budget_def key_fail_def max_def)
qed

text \<open>A quiet time that clears the counter has cost a period.\<close>

lemma budget_rest:
  assumes "budget b m t0 q n st" "m \<le> quiet_reset b" "0 < m" "1 \<le> bo_threshold b"
    and "last_fail st \<le> s" "until st \<le> s"
  defines "c \<equiv> (if rested b st s then 0 else fails st)"
  shows "\<exists>q'. of_nat n \<le> of_int c + of_int (bo_threshold b) * q' \<and> q' * m \<le> s - t0 \<and> 0 \<le> c \<and> c < bo_threshold b"
proof (cases "rested b st s \<and> fails st > 0")
  case True
  then have "until st \<le> last_fail st" and "last_fail st + m \<le> s"
    using assms(1,2) by (auto simp: budget_def rested_def)
  then have "(q + 1) * m \<le> s - t0"
    using assms(1) by (simp add: budget_def distrib_right max_def split: if_splits)
  moreover have "of_nat n \<le> of_int (bo_threshold b) * (q + 1)"
  proof -
    have "of_int (fails st) \<le> (of_int (bo_threshold b) :: rat)"
      using assms(1) by (simp add: budget_def)
    then show ?thesis using assms(1) by (simp add: budget_def distrib_left)
  qed
  ultimately show ?thesis using True assms(4) by (intro exI [of _ "q + 1"]) (simp add: c_def)
next
  case False
  have "q * m \<le> s - t0"
    using assms(1,5,6) by (simp add: budget_def max_def split: if_splits)
  moreover have "c = fails st" using False assms(1) by (auto simp: c_def budget_def)
  ultimately show ?thesis using assms(1) by (intro exI [of _ q]) (simp add: budget_def)
qed

lemma budget_step:
  assumes "budget b m t0 q n st" "m = period b" "0 < m" "params_ok b" "1 \<le> bo_threshold b"
    and "last_fail st \<le> s" "until st \<le> s"
  shows "\<exists>q'. budget b m t0 q' (Suc n) (fst (key_fail b s st))"
proof -
  define c where "c = (if rested b st s then 0 else fails st)"
  define lv where "lv = (if rested b st s then 0 else level st)"
  have "m \<le> quiet_reset b" using assms(2) by (simp add: period_def)
  from budget_rest [OF assms(1) this assms(3,5,6,7)] obtain q'
    where q': "of_nat n \<le> of_int c + of_int (bo_threshold b) * q'" "q' * m \<le> s - t0" "0 \<le> c" "c < bo_threshold b"
    unfolding c_def by blast
  have "of_int c + 1 \<le> (of_int (bo_threshold b) :: rat)"
    using q'(4) by (metis of_int_1 of_int_add of_int_le_iff zless_imp_add1_zle)
  with q'(1) budget_mono_q [OF assms(3) q'(2) assms(5)]
  have rate: "of_nat (Suc n) \<le> of_int (bo_threshold b) * (1 + (s - t0) / m)" by simp
  have t0: "t0 \<le> s" using assms(1,6) by (simp add: budget_def)
  show ?thesis
  proof (cases "c + 1 \<ge> bo_threshold b")
    case True
    have "m \<le> lock_time b lv" using assms(2,4) by (simp add: period_le_lock)
    then have "(q' + 1) * m \<le> max (s + lock_time b lv) s - t0"
      using q'(2) by (simp add: distrib_right)
    moreover have "of_nat (Suc n) \<le> of_int (bo_threshold b) * (q' + 1)"
      using q'(1) True q'(4) \<open>of_int c + 1 \<le> (of_int (bo_threshold b) :: rat)\<close> by (simp add: distrib_left)
    ultimately have "budget b m t0 (q' + 1) (Suc n) (fst (key_fail b s st))"
      using True assms(5,7) t0 rate
      by (simp add: budget_def key_fail_def Let_def c_def [symmetric] lv_def [symmetric])
    then show ?thesis by blast
  next
    case False
    then have "budget b m t0 q' (Suc n) (fst (key_fail b s st))"
      using assms(5,7) t0 rate q'
      by (simp add: budget_def key_fail_def Let_def c_def [symmetric] lv_def [symmetric])
    then show ?thesis by blast
  qed
qed

lemma key_guesses_bound:
  assumes "budget b m t0 q n st" "m = period b" "0 < m" "params_ok b" "1 \<le> bo_threshold b"
    and "timed (last_fail st) es" "\<forall>e \<in> set es. snd e \<noteq> Success k" "\<forall>e \<in> set es. fst e \<le> t1" "last_fail st \<le> t1"
  shows "of_nat (n + key_guesses b k es (Some st)) \<le> of_int (bo_threshold b) * (1 + (t1 - t0) / m)"
  using assms
proof (induction es arbitrary: n q st)
  case Nil
  have "of_nat n \<le> of_int (bo_threshold b) * (1 + (t1 - t0) / m)"
    by (rule rate_mono [where a = "last_fail st"]) (use Nil in \<open>simp_all add: budget_def\<close>)
  then show ?case by simp
next
  case (Cons e es)
  obtain s c where e: "e = (s, c)" by (cases e)
  let ?st = "fst (key_fail b s st)"
  have le: "last_fail st \<le> s" "timed s es" "s \<le> t1" using Cons.prems e by simp_all
  show ?case
  proof (cases "c = Fail k")
    case other: False
    then have "key_step b k e (Some st) = Some st"
      using Cons.prems(7) e by (auto simp: key_step_def split: call.splits)
    moreover have "timed (last_fail st) es" using Cons.prems(6) by (cases es) auto
    ultimately show ?thesis using Cons e other by simp
  next
    case own: True
    show ?thesis
    proof (cases "s < until st")
      case True
      have "budget b m t0 q n ?st"
        using budget_locked Cons.prems(1,3,5) le(1) True by blast
      from Cons.IH [OF this Cons.prems(2-5)] Cons.prems(7,8) le True e own show ?thesis
        by (simp add: key_step_def opt_entry_def key_left_def)
    next
      case False
      then obtain q' where "budget b m t0 q' (Suc n) ?st"
        using budget_step [OF Cons.prems(1-5) le(1)] by auto
      from Cons.IH [OF this Cons.prems(2-5)] Cons.prems(7,8) le False e own show ?thesis
        by (simp add: key_step_def opt_entry_def key_left_def)
    qed
  qed
qed

lemma key_guesses_bound_new:
  assumes "m = period b" "0 < m" "params_ok b" "1 \<le> bo_threshold b"
    and "timed t0 es" "\<forall>e \<in> set es. snd e \<noteq> Success k" "\<forall>e \<in> set es. fst e \<le> t1" "t0 \<le> t1"
  shows "of_nat (key_guesses b k es None) \<le> of_int (bo_threshold b) * (1 + (t1 - t0) / m)"
  using assms(5-7)
proof (induction es)
  case Nil
  then show ?case using assms by simp
next
  case (Cons e es)
  obtain s c where e: "e = (s, c)" by (cases e)
  show ?case
  proof (cases "c = Fail k")
    case False
    then have "key_step b k e None = None"
      using Cons.prems(2) e by (auto simp: key_step_def split: call.splits)
    moreover have "timed t0 es" using Cons.prems(1) by (cases es) auto
    ultimately show ?thesis using Cons e False by simp
  next
    case True
    have "budget b m t0 0 0 (new_entry s)"
      using Cons.prems e assms by (auto simp: budget_def new_entry_def intro!: mult_nonneg_nonneg)
    moreover have s: "until (new_entry s) \<le> s" "last_fail (new_entry s) \<le> s"
      using Cons.prems e by (simp_all add: new_entry_def)
    ultimately obtain q' where "budget b m t0 q' (Suc 0) (fst (key_fail b s (new_entry s)))"
      using budget_step assms by blast
    from key_guesses_bound [OF this assms(1-4), where es = es and ?t1.0 = t1 and k = k] Cons.prems e True
    show ?thesis by (simp add: key_step_def opt_entry_def key_left_def)
  qed
qed

lemma guesses_bound:
  assumes "wf_backoff b" "bo_state b = []" "1 \<le> bo_threshold b" "0 < quiet_reset b"
    and "timed t0 es" "\<forall>e \<in> set es. snd e \<noteq> Success k" "\<forall>e \<in> set es. fst e \<le> t1" "t0 \<le> t1"
  shows "of_nat (guesses k es b)
    \<le> of_int (bo_threshold b) * (1 + (t1 - t0) / min (min (bo_base b) (bo_maximum b)) (quiet_reset b))"
proof -
  have p: "params_ok b" "0 < period b"
    using assms(1,4) by (simp_all add: wf_backoff_def params_ok_def period_def)
  have "sim t0 b (\<lambda>_. None)" using assms(2) by (simp add: sim_def key_sim_def)
  from guesses_refine [OF assms(1) this assms(5), of k]
    key_guesses_bound_new [OF refl p(2,1) assms(3,5-8)]
  show ?thesis by (simp add: period_def)
qed

text \<open>
  C24.  The guess rate is bounded: as long as a key does not succeed, at most
  \<open>threshold * (1 + T / m)\<close> of its failures within \<open>T\<close> seconds are made while it is not locked,
  where \<open>m\<close> is the least of the base lockout, the maximum and the quiet time; no timing of the
  failures, no other key and no pruning of the table gives an attacker more.
\<close>

theorem guess_rate_bounded:
  assumes "wf_backoff b" and "bo_state b = []" and "1 \<le> bo_threshold b" and "0 < quiet_reset b"
    and "timed t0 es" and "\<forall>e \<in> set es. snd e \<noteq> Success k" and "\<forall>e \<in> set es. fst e \<le> t1" and "t0 \<le> t1"
  shows "of_nat (guesses k es b)
    \<le> of_int (bo_threshold b) * (1 + (t1 - t0) / min (min (bo_base b) (bo_maximum b)) (quiet_reset b))"
  using assms by (rule guesses_bound)

lemma guess_rate_bounded_witness:
  "of_nat (guesses ''a'' [(1, Fail ''a''), (2, Fail ''a''), (3, Success ''b''), (31, Fail ''a'')] (new_backoff 3 30 3600)) \<le> (6 :: rat)"
  using guess_rate_bounded [of "new_backoff 3 30 3600" 1 "[(1, Fail ''a''), (2, Fail ''a''), (3, Success ''b''), (31, Fail ''a'')]" "''a''" 31]
  by (simp add: wf_backoff_def params_ok_def new_backoff_def del: guesses.simps)

end
