(* ===== verification/Tokens.thy ===== *)
theory Tokens
  imports Prelude
begin

text \<open>
  The contract of a store of single-use tokens, as a locale over a transition function: a token
  is accepted only while the store has it, acceptance removes it, and the store gains it only
  by an issue.  The grant broker and the pending challenges of both services are instances.
\<close>

locale single_use =
  fixes step :: "'e \<Rightarrow> 's \<Rightarrow> 's" and inv :: "'s \<Rightarrow> bool" and has :: "'s \<Rightarrow> 'k \<Rightarrow> bool"
    and issues :: "'e \<Rightarrow> 's \<Rightarrow> 'k \<Rightarrow> bool" and accepts :: "'e \<Rightarrow> 's \<Rightarrow> 'k \<Rightarrow> bool"
  assumes inv_step: "inv s \<Longrightarrow> inv (step e s)"
    and accepts_takes: "inv s \<Longrightarrow> accepts e s k \<Longrightarrow> has s k \<and> \<not> has (step e s) k"
    and gains_by_issue: "inv s \<Longrightarrow> has (step e s) k \<Longrightarrow> has s k \<or> issues e s k"
begin

text \<open>How often a run issues and accepts a token.\<close>

fun issued :: "'e list \<Rightarrow> 's \<Rightarrow> 'k \<Rightarrow> nat" where
  "issued [] s k = 0"
| "issued (e # es) s k = of_bool (issues e s k) + issued es (step e s) k"

fun accepted :: "'e list \<Rightarrow> 's \<Rightarrow> 'k \<Rightarrow> nat" where
  "accepted [] s k = 0"
| "accepted (e # es) s k = of_bool (accepts e s k) + accepted es (step e s) k"

lemma accepted_le_issued: "inv s \<Longrightarrow> accepted es s k \<le> issued es s k + of_bool (has s k)"
proof (induction es arbitrary: s)
  case (Cons e es)
  have "accepted es (step e s) k \<le> issued es (step e s) k + of_bool (has (step e s) k)"
    by (rule Cons.IH) (rule inv_step [OF Cons.prems])
  moreover have "accepts e s k \<Longrightarrow> has s k \<and> \<not> has (step e s) k"
    by (rule accepts_takes [OF Cons.prems])
  moreover have "has (step e s) k \<Longrightarrow> has s k \<or> issues e s k"
    by (rule gains_by_issue [OF Cons.prems])
  ultimately show ?case by (auto simp: of_bool_def split: if_splits)
qed simp

lemma inv_run: "inv s \<Longrightarrow> inv (fold step es s)"
  by (induction es arbitrary: s) (simp_all add: inv_step)

text \<open>Without an issue, a token the store does not have is never accepted.\<close>

lemma never_accepted:
  assumes "inv s" "\<not> has s k" "issued es s k = 0"
  shows "accepted es s k = 0"
  using accepted_le_issued [OF assms(1), of es k] assms(2,3) by simp

end

end
