(* ===== verification/Grant.thy ===== *)
theory Grant
  imports Tokens
begin

text \<open>
  The class \<open>GrantBroker\<close> of \<^verbatim>\<open>src/listener.py\<close>: the single-use, short-lived token that tells PAM
  that an unlock was verified.  \<open>consume\<close> is a coroutine, so it is cut at its \<open>await\<close>: the part
  of its loop up to \<open>wait_for\<close> is the function \<open>poll\<close>, and a step relation interleaves the
  parts of any number of consumers with \<open>issue\<close> and the clock.
\<close>

section \<open>The event of the standard library\<close>

text \<open>
  \<open>asyncio.Event\<close>: its value, the consumers whose future is unresolved, and those whose future
  is resolved and whose task has not run since.  \<open>set\<close> resolves the futures of all waiters;
  \<open>clear\<close> touches the value only.
\<close>

record event =
  ev_value :: bool
  ev_waiters :: "nat list"
  ev_woken :: "nat list"

definition event_set :: "event \<Rightarrow> event" where
  "event_set e = e\<lparr>ev_value := True, ev_woken := ev_woken e @ ev_waiters e, ev_waiters := []\<rparr>"

definition event_clear :: "event \<Rightarrow> event" where
  "event_clear e = e\<lparr>ev_value := False\<rparr>"

text \<open>\<open>wait\<close> returns at once when the value is set, and blocks on a future otherwise.\<close>

definition event_wait :: "nat \<Rightarrow> event \<Rightarrow> event" where
  "event_wait c e =
     (if ev_value e then e\<lparr>ev_woken := c # ev_woken e\<rparr> else e\<lparr>ev_waiters := c # ev_waiters e\<rparr>)"

text \<open>The task of a consumer leaves \<open>wait\<close>, by its future or by the time-out.\<close>

definition event_leave :: "nat \<Rightarrow> event \<Rightarrow> event" where
  "event_leave c e = e\<lparr>ev_waiters := removeAll c (ev_waiters e), ev_woken := removeAll c (ev_woken e)\<rparr>"

section \<open>The class\<close>

record broker =
  ttl :: time
  expires :: time
  grant_event :: event

definition new_broker :: "time \<Rightarrow> broker" where
  "new_broker t = \<lparr>ttl = t, expires = 0, grant_event = \<lparr>ev_value = False, ev_waiters = [], ev_woken = []\<rparr>\<rparr>"

definition issue :: "time \<Rightarrow> broker \<Rightarrow> broker" where
  "issue now b = b\<lparr>expires := now + ttl b, grant_event := event_set (grant_event b)\<rparr>"

text \<open>One turn of the loop of \<open>consume\<close>: it returns, or goes on to \<open>wait_for\<close> until the deadline.\<close>

datatype turn = Return bool | WaitUntil time

definition poll :: "time \<Rightarrow> time \<Rightarrow> broker \<Rightarrow> broker \<times> turn" where
  "poll deadline now b =
     (if expires b > now
      then (b\<lparr>expires := 0, grant_event := event_clear (grant_event b)\<rparr>, Return True)
      else if deadline - now \<le> 0 then (b, Return False)
      else (b\<lparr>grant_event := event_clear (grant_event b)\<rparr>, WaitUntil deadline))"

text \<open>The first turn, the start of the inner \<open>wait\<close>, the turn after it, and the time-out.\<close>

definition consume :: "time \<Rightarrow> time \<Rightarrow> broker \<Rightarrow> broker \<times> turn" where
  "consume timeout now b = poll (now + timeout) now b"

definition start_wait :: "nat \<Rightarrow> broker \<Rightarrow> broker" where
  "start_wait c b = b\<lparr>grant_event := event_wait c (grant_event b)\<rparr>"

definition resume :: "nat \<Rightarrow> time \<Rightarrow> time \<Rightarrow> broker \<Rightarrow> broker \<times> turn" where
  "resume c deadline now b = poll deadline now (b\<lparr>grant_event := event_leave c (grant_event b)\<rparr>)"

definition give_up :: "nat \<Rightarrow> broker \<Rightarrow> broker \<times> turn" where
  "give_up c b = (b\<lparr>grant_event := event_leave c (grant_event b)\<rparr>, Return False)"

text \<open>A grant is live at \<open>now\<close>.\<close>

definition live :: "broker \<Rightarrow> time \<Rightarrow> bool" where
  "live b now \<longleftrightarrow> expires b > now"

lemma poll_live: "live b now \<Longrightarrow> snd (poll d now b) = Return True"
  by (simp add: poll_def live_def)

lemma poll_True: "snd (poll d now b) = Return True \<longleftrightarrow> live b now"
  by (simp add: poll_def live_def)

lemma poll_takes: "snd (poll d now b) = Return True \<Longrightarrow> expires (fst (poll d now b)) = 0"
  by (simp add: poll_def split: if_splits)

lemma poll_keeps: "snd (poll d now b) \<noteq> Return True \<Longrightarrow> expires (fst (poll d now b)) = expires b"
  by (simp add: poll_def split: if_splits)

section \<open>Consumers, interleaved\<close>

text \<open>
  \<open>Ready d\<close>: about to enter \<open>wait\<close> (the task of the inner coroutine is scheduled);
  \<open>Blocked d\<close>: in \<open>wait\<close>; \<open>Done r\<close>: \<open>consume\<close> has returned \<open>r\<close>.  The state also records, for
  the statements only, the times of the issues and, for each grant, its consumer, its time and
  the number of the issue it used.
\<close>

datatype phase = Ready time | Blocked time | Done bool

record bsys =
  clock :: time
  brk :: broker
  consumers :: "nat \<rightharpoonup> phase"
  issue_times :: "time list"
  grants :: "(nat \<times> time \<times> nat) list"

fun phase_of :: "turn \<Rightarrow> phase" where
  "phase_of (Return r) = Done r"
| "phase_of (WaitUntil d) = Ready d"

text \<open>The consumer \<open>c\<close> has made a turn with the given outcome.\<close>

definition turned :: "nat \<Rightarrow> broker \<times> turn \<Rightarrow> bsys \<Rightarrow> bsys" where
  "turned c r s =
     s\<lparr>brk := fst r, consumers := (consumers s)(c \<mapsto> phase_of (snd r)),
       grants := (if snd r = Return True then (c, clock s, length (issue_times s) - 1) # grants s else grants s)\<rparr>"

inductive bstep :: "bsys \<Rightarrow> bsys \<Rightarrow> bool" where
  Tick: "clock s \<le> t \<Longrightarrow> bstep s (s\<lparr>clock := t\<rparr>)"
| Issue: "bstep s (s\<lparr>brk := issue (clock s) (brk s), issue_times := issue_times s @ [clock s]\<rparr>)"
| Call: "consumers s c = None \<Longrightarrow> bstep s (turned c (consume timeout (clock s) (brk s)) s)"
| Enter: "consumers s c = Some (Ready d) \<Longrightarrow>
    bstep s (s\<lparr>brk := start_wait c (brk s), consumers := (consumers s)(c \<mapsto> Blocked d)\<rparr>)"
| Wake: "consumers s c = Some (Blocked d) \<Longrightarrow> c \<in> set (ev_woken (grant_event (brk s))) \<Longrightarrow>
    bstep s (turned c (resume c d (clock s) (brk s)) s)"
| Timeout: "consumers s c = Some p \<Longrightarrow> p = Ready d \<or> p = Blocked d \<Longrightarrow> d \<le> clock s \<Longrightarrow>
    bstep s (turned c (give_up c (brk s)) s)"

definition bstart :: "time \<Rightarrow> time \<Rightarrow> bsys" where
  "bstart t now = \<lparr>clock = now, brk = new_broker t, consumers = Map.empty, issue_times = [], grants = []\<rparr>"

definition breachable :: "time \<Rightarrow> bsys \<Rightarrow> bool" where
  "breachable t s \<longleftrightarrow> (\<exists>now \<ge> 0. bstep\<^sup>*\<^sup>* (bstart t now) s)"

lemma breachable_induct [consumes 1, case_names start step]:
  assumes "breachable t s" and "\<And>now. 0 \<le> now \<Longrightarrow> P (bstart t now)"
    and "\<And>s s'. breachable t s \<Longrightarrow> P s \<Longrightarrow> bstep s s' \<Longrightarrow> P s'"
  shows "P s"
proof -
  from assms(1) obtain now where n: "0 \<le> now" "bstep\<^sup>*\<^sup>* (bstart t now) s"
    by (auto simp: breachable_def)
  from n(2) show ?thesis
  proof induction
    case base
    then show ?case using assms(2) n(1) by simp
  next
    case (step s s')
    moreover have "breachable t s" using step.hyps(1) n(1) by (auto simp: breachable_def)
    ultimately show ?case using assms(3) by blast
  qed
qed

lemma turned_sel [simp]:
  "clock (turned c r s) = clock s" "brk (turned c r s) = fst r"
  "consumers (turned c r s) = (consumers s)(c \<mapsto> phase_of (snd r))"
  "issue_times (turned c r s) = issue_times s"
  by (simp_all add: turned_def)

section \<open>At most one grant per issue\<close>

text \<open>
  The invariant of the tokens: a stored expiry that is not \<open>0\<close> belongs to the last issue, which
  no grant has used; every grant used an issue of its own, while it was live.
\<close>

definition used :: "bsys \<Rightarrow> nat list" where
  "used s = map (\<lambda>(c, t, i). i) (grants s)"

definition grant_ok :: "time \<Rightarrow> bsys \<Rightarrow> nat \<times> time \<times> nat \<Rightarrow> bool" where
  "grant_ok T s g =
     (case g of (c, t, i) \<Rightarrow> i < length (issue_times s) \<and> issue_times s ! i \<le> t \<and> t < issue_times s ! i + T)"

definition tokens_ok :: "time \<Rightarrow> bsys \<Rightarrow> bool" where
  "tokens_ok T s \<longleftrightarrow>
     0 \<le> clock s \<and> ttl (brk s) = T \<and> distinct (used s) \<and> list_all (grant_ok T s) (grants s)
     \<and> (\<forall>i < length (issue_times s). issue_times s ! i \<le> clock s)
     \<and> (expires (brk s) > 0 \<longrightarrow> issue_times s \<noteq> [] \<and> expires (brk s) = last (issue_times s) + T
          \<and> length (issue_times s) - 1 \<notin> set (used s))"

lemma ttl_simps [simp]:
  "ttl (fst (poll d n b)) = ttl b" "ttl (issue n b) = ttl b" "ttl (start_wait c b) = ttl b"
  "ttl (fst (resume c d n b)) = ttl b" "ttl (fst (consume d n b)) = ttl b" "ttl (fst (give_up c b)) = ttl b"
  by (simp_all add: poll_def issue_def start_wait_def resume_def give_up_def consume_def)

lemma tokens_ok_turn:
  assumes "tokens_ok T s"
    and "snd r = Return True \<Longrightarrow> live (brk s) (clock s) \<and> expires (fst r) = 0"
    and "snd r \<noteq> Return True \<Longrightarrow> expires (fst r) = expires (brk s)"
    and "ttl (fst r) = ttl (brk s)"
  shows "tokens_ok T (turned c r s)"
proof (cases "snd r = Return True")
  case True
  with assms(2) have l: "live (brk s) (clock s)" "expires (fst r) = 0" by auto
  let ?i = "length (issue_times s) - 1"
  have "0 < expires (brk s)" using l(1) assms(1) by (simp add: live_def tokens_ok_def)
  then have e: "issue_times s \<noteq> []" "expires (brk s) = last (issue_times s) + T" "?i \<notin> set (used s)"
    using assms(1) by (simp_all add: tokens_ok_def)
  then have "grant_ok T s (c, clock s, ?i)"
    using assms(1) l(1) by (simp add: grant_ok_def tokens_ok_def live_def last_conv_nth)
  moreover have "grant_ok T (turned c r s) = grant_ok T s"
    by (rule ext) (simp add: grant_ok_def)
  ultimately show ?thesis
    using assms(1,4) True e(3) l(2) by (simp add: tokens_ok_def used_def) (simp add: turned_def)
next
  case False
  moreover have "grant_ok T (turned c r s) = grant_ok T s"
    by (rule ext) (simp add: grant_ok_def)
  ultimately show ?thesis
    using assms(1,3,4) by (simp add: tokens_ok_def used_def) (simp add: turned_def)
qed

lemma tokens_ok_issue:
  assumes "tokens_ok T s"
  shows "tokens_ok T (s\<lparr>brk := issue (clock s) (brk s), issue_times := issue_times s @ [clock s]\<rparr>)"
proof -
  have "length (issue_times s) \<notin> set (used s)"
    using assms by (force simp: tokens_ok_def used_def grant_ok_def list_all_iff)
  then show ?thesis
    using assms
    by (auto simp: tokens_ok_def used_def grant_ok_def issue_def list_all_iff nth_append less_Suc_eq)
qed

lemma tokens_ok_step: "bstep s s' \<Longrightarrow> tokens_ok T s \<Longrightarrow> tokens_ok T s'"
proof (induction rule: bstep.induct)
  case (Tick s t)
  then show ?case by (force simp: tokens_ok_def used_def grant_ok_def list_all_iff)
next
  case (Issue s)
  then show ?case by (rule tokens_ok_issue)
next
  case (Call s c timeout)
  then show ?case
    by (intro tokens_ok_turn) (auto simp: consume_def poll_True poll_takes poll_keeps)
next
  case (Enter s c d)
  then show ?case
    by (simp add: tokens_ok_def used_def start_wait_def grant_ok_def list_all_iff)
next
  case (Wake s c d)
  then show ?case
    by (intro tokens_ok_turn) (auto simp: resume_def poll_True poll_takes poll_keeps live_def)
next
  case (Timeout s c p d)
  then show ?case
    by (intro tokens_ok_turn) (auto simp: give_up_def)
qed

lemma tokens_ok_reachable: "breachable T s \<Longrightarrow> tokens_ok T s"
proof (induction rule: breachable_induct)
  case (start now)
  then show ?case by (simp add: bstart_def new_broker_def tokens_ok_def used_def)
qed (rule tokens_ok_step)

text \<open>
  C6.  A grant is single-use and short-lived.  However issues, consumers and the clock
  interleave, no two answers of \<open>True\<close> use the same issue, and each is given within \<open>ttl\<close> seconds
  after the issue it uses; so there are never more grants than issues.
\<close>

theorem grants_single_use:
  assumes "breachable T s"
  shows "distinct (used s)
    \<and> (\<forall>(c, t, i) \<in> set (grants s). i < length (issue_times s) \<and> issue_times s ! i \<le> t \<and> t < issue_times s ! i + T)
    \<and> length (grants s) \<le> length (issue_times s)"
proof -
  have t: "tokens_ok T s" using assms by (rule tokens_ok_reachable)
  then have "distinct (used s)" "set (used s) \<subseteq> {..<length (issue_times s)}"
    by (auto simp: tokens_ok_def used_def list_all_iff grant_ok_def)
  then have "length (used s) \<le> length (issue_times s)"
    by (metis card_lessThan card_mono distinct_card finite_lessThan)
  with t show ?thesis
    by (fastforce simp: tokens_ok_def used_def list_all_iff grant_ok_def)
qed

text \<open>A run: a consumer waits, the grant is issued, the consumer is woken and gets it.\<close>

definition demo_waiting :: bsys where
  "demo_waiting = (bstart 20 0)\<lparr>brk := start_wait 1 (fst (consume 15 0 (new_broker 20))), consumers := [1 \<mapsto> Blocked 15]\<rparr>"

definition demo_granted :: bsys where
  "demo_granted =
     (let s = demo_waiting\<lparr>clock := 5\<rparr>; s = s\<lparr>brk := issue 5 (brk s), issue_times := [5]\<rparr>
      in turned 1 (resume 1 15 5 (brk s)) s)"

lemma reach_waiting: "bstep\<^sup>*\<^sup>* (bstart 20 0) demo_waiting"
proof -
  let ?s = "turned 1 (consume 15 0 (new_broker 20)) (bstart 20 0)"
  have 1: "bstep (bstart 20 0) ?s"
    using bstep.Call [of "bstart 20 0" 1 15] by (simp add: bstart_def)
  have "consumers ?s 1 = Some (Ready 15)"
    by (simp add: consume_def poll_def new_broker_def)
  from bstep.Enter [OF this] have "bstep ?s demo_waiting"
    by (simp add: demo_waiting_def bstart_def turned_def consume_def poll_def new_broker_def)
  with 1 show ?thesis by auto
qed

lemma reach_issued:
  "bstep\<^sup>*\<^sup>* (bstart 20 0) (demo_waiting\<lparr>clock := 5, brk := issue 5 (brk demo_waiting), issue_times := [5]\<rparr>)"
proof -
  have "bstep demo_waiting (demo_waiting\<lparr>clock := 5\<rparr>)"
    by (rule bstep.Tick) (simp add: demo_waiting_def bstart_def)
  moreover have "bstep (demo_waiting\<lparr>clock := 5\<rparr>) (demo_waiting\<lparr>clock := 5, brk := issue 5 (brk demo_waiting), issue_times := [5]\<rparr>)"
    using bstep.Issue [of "demo_waiting\<lparr>clock := 5\<rparr>"] by (simp add: demo_waiting_def bstart_def)
  ultimately show ?thesis using reach_waiting by (meson rtranclp.rtrancl_into_rtrancl)
qed

lemma reach_granted: "breachable 20 demo_granted"
proof -
  let ?s = "demo_waiting\<lparr>clock := 5, brk := issue 5 (brk demo_waiting), issue_times := [5]\<rparr>"
  have "bstep ?s (turned 1 (resume 1 15 (clock ?s) (brk ?s)) ?s)"
    by (rule bstep.Wake)
      (simp_all add: demo_waiting_def bstart_def consume_def poll_def new_broker_def start_wait_def
        issue_def event_set_def event_wait_def event_clear_def)
  then have "bstep ?s demo_granted"
    by (simp add: demo_granted_def Let_def)
  with reach_issued show ?thesis
    unfolding breachable_def by (meson order_refl rtranclp.rtrancl_into_rtrancl)
qed

lemma demo_grants: "grants demo_granted = [(1, 5, 0)]"
  by (simp add: demo_granted_def demo_waiting_def bstart_def turned_def resume_def poll_def issue_def
      start_wait_def consume_def new_broker_def)

lemma grants_single_use_witness: "distinct (used demo_granted) \<and> grants demo_granted \<noteq> []"
  using grants_single_use [OF reach_granted] by (simp add: demo_grants)

section \<open>No wake-up is lost\<close>

definition wake_ok :: "bsys \<Rightarrow> bool" where
  "wake_ok s \<longleftrightarrow>
     0 \<le> clock s
     \<and> (live (brk s) (clock s) \<longrightarrow> ev_value (grant_event (brk s)))
     \<and> (\<forall>c d. consumers s c = Some (Blocked d) \<longrightarrow>
          c \<in> set (ev_woken (grant_event (brk s)))
          \<or> (c \<in> set (ev_waiters (grant_event (brk s))) \<and> \<not> live (brk s) (clock s)))"

lemma poll_not_live: "0 \<le> now \<Longrightarrow> \<not> live (fst (poll d now b)) now"
  by (simp add: poll_def live_def)

lemma poll_event [simp]:
  "ev_waiters (grant_event (fst (poll d now b))) = ev_waiters (grant_event b)"
  "ev_woken (grant_event (fst (poll d now b))) = ev_woken (grant_event b)"
  by (simp_all add: poll_def event_clear_def)

lemma phase_of_not_blocked [simp]: "phase_of t \<noteq> Blocked d"
  by (cases t) simp_all

lemma wake_ok_step: "bstep s s' \<Longrightarrow> wake_ok s \<Longrightarrow> wake_ok s'"
proof (induction rule: bstep.induct)
  case (Tick s t)
  then show ?case by (fastforce simp: wake_ok_def live_def)
next
  case (Issue s)
  then show ?case by (auto simp: wake_ok_def issue_def event_set_def)
next
  case (Call s c timeout)
  then show ?case by (auto simp: wake_ok_def consume_def poll_not_live)
next
  case (Enter s c d)
  then show ?case by (auto simp: wake_ok_def start_wait_def event_wait_def live_def)
next
  case (Wake s c d)
  then show ?case by (auto simp: wake_ok_def resume_def event_leave_def poll_not_live)
next
  case (Timeout s c p d)
  then show ?case by (auto simp: wake_ok_def give_up_def event_leave_def live_def)
qed

lemma wake_ok_reachable: "breachable T s \<Longrightarrow> wake_ok s"
proof (induction rule: breachable_induct)
  case (start now)
  then show ?case by (simp add: bstart_def new_broker_def wake_ok_def live_def)
qed (rule wake_ok_step)

lemma woken_gets_grant:
  assumes "consumers s c = Some (Blocked d)" "c \<in> set (ev_woken (grant_event (brk s)))" "live (brk s) (clock s)"
  shows "\<exists>s'. bstep s s' \<and> consumers s' c = Some (Done True)"
proof -
  have "snd (resume c d (clock s) (brk s)) = Return True"
    using assms(3) by (simp add: resume_def poll_True live_def)
  with bstep.Wake [OF assms(1,2)] show ?thesis by (intro exI conjI) auto
qed

text \<open>
  C23.  No wake-up is lost: whenever a grant is live, every consumer that is still waiting can
  run to the answer \<open>True\<close> on its own, without another issue and without the help of any other
  consumer, although another consumer's \<open>clear\<close> may have come between the \<open>set\<close> and its turn.
\<close>

theorem live_grant_reaches_waiter:
  assumes "breachable T s" and "live (brk s) (clock s)"
    and "consumers s c = Some (Ready d) \<or> consumers s c = Some (Blocked d)"
  shows "\<exists>s'. bstep\<^sup>*\<^sup>* s s' \<and> consumers s' c = Some (Done True)"
proof -
  have w: "wake_ok s" using assms(1) by (rule wake_ok_reachable)
  from assms(3) show ?thesis
  proof
    assume "consumers s c = Some (Blocked d)"
    moreover from this have "c \<in> set (ev_woken (grant_event (brk s)))"
      using w assms(2) by (auto simp: wake_ok_def)
    ultimately show ?thesis using woken_gets_grant assms(2) by blast
  next
    assume r: "consumers s c = Some (Ready d)"
    let ?s = "s\<lparr>brk := start_wait c (brk s), consumers := (consumers s)(c \<mapsto> Blocked d)\<rparr>"
    have "ev_value (grant_event (brk s))" using w assms(2) by (simp add: wake_ok_def)
    then have "c \<in> set (ev_woken (grant_event (brk ?s)))"
      by (simp add: start_wait_def event_wait_def)
    moreover have "live (brk ?s) (clock ?s)" using assms(2) by (simp add: live_def start_wait_def)
    ultimately obtain s' where "bstep ?s s'" "consumers s' c = Some (Done True)"
      using woken_gets_grant [of ?s c d] by auto
    with bstep.Enter [OF r] show ?thesis by (meson converse_rtranclp_into_rtranclp r_into_rtranclp)
  qed
qed

lemma live_grant_reaches_waiter_witness:
  "\<exists>s'. bstep\<^sup>*\<^sup>* (demo_waiting\<lparr>clock := 5, brk := issue 5 (brk demo_waiting), issue_times := [5]\<rparr>) s'
    \<and> consumers s' 1 = Some (Done True)"
proof -
  have "breachable 20 (demo_waiting\<lparr>clock := 5, brk := issue 5 (brk demo_waiting), issue_times := [5]\<rparr>)"
    using reach_issued by (auto simp: breachable_def)
  from live_grant_reaches_waiter [OF this, of 1 15] show ?thesis
    by (simp add: live_def issue_def demo_waiting_def new_broker_def start_wait_def consume_def poll_def)
qed

section \<open>The broker as a single-use token\<close>

datatype broker_call = CallIssue time | CallPoll time time

definition broker_step :: "broker_call \<Rightarrow> broker \<Rightarrow> broker" where
  "broker_step e b = (case e of CallIssue now \<Rightarrow> issue now b | CallPoll d now \<Rightarrow> fst (poll d now b))"

definition broker_issues :: "broker_call \<Rightarrow> broker \<Rightarrow> unit \<Rightarrow> bool" where
  "broker_issues e b u = (case e of CallIssue now \<Rightarrow> True | CallPoll d now \<Rightarrow> False)"

definition broker_accepts :: "broker_call \<Rightarrow> broker \<Rightarrow> unit \<Rightarrow> bool" where
  "broker_accepts e b u =
     (case e of CallIssue now \<Rightarrow> False | CallPoll d now \<Rightarrow> 0 \<le> now \<and> snd (poll d now b) = Return True)"

interpretation tok: single_use broker_step "\<lambda>_. True" "\<lambda>b _. expires b > 0" broker_issues broker_accepts
  by unfold_locales
    (auto simp: broker_step_def broker_issues_def broker_accepts_def poll_def split: broker_call.splits if_splits)

end
