(* ===== verification/Service.thy ===== *)
theory Service
  imports Common AuditLog Backoff Grant
begin

text \<open>
  The class \<open>UnlockService\<close> of \<^verbatim>\<open>src/listener.py\<close>.  Its coroutines are cut at the \<open>await\<close>s where
  the peer or the clock decides what comes next; a definition is the code between two of them.
  The argument \<open>env\<close> of a definition holds what that stretch reads from outside: the clocks,
  the random token, and whether writes to the log succeed.  The clock is read once per stretch.

  A method that can raise has the type \<open>'s \<Rightarrow> 'a result \<times> 's\<close>: the state it has changed so far
  survives the exception.  Everything observable is appended to \<open>out\<close>.
\<close>

section \<open>State\<close>

definition MAX_PENDING :: nat where
  "MAX_PENDING = 64"

datatype effect =
    Sent nat json
  | Closed nat int
  | Audited string "(string \<times> json) list"
  | Alerted string string string "string list"
  | PamReplied nat bool

record 'sk service =
  cfg :: config
  signing_key :: 'sk
  audit :: audit_log
  pending :: "(string \<times> (string \<times> time \<times> int)) list"
  ip_backoff :: backoff
  dev_backoff :: backoff
  sv_broker :: broker
  active :: int
  last_lock_audit :: "((string \<times> string) \<times> time) list"
  out :: "effect list"

record env =
  mono :: time
  wall :: time
  stamp :: string
  token :: string
  disk_ok :: bool

definition new_service :: "config \<Rightarrow> 'sk \<Rightarrow> audit_log \<Rightarrow> 'sk service" where
  "new_service c key l =
     (let lo = lockout c
      in \<lparr>cfg = c, signing_key = key, audit = l, pending = [],
          ip_backoff = new_backoff (threshold lo) (base_seconds lo) (max_seconds lo),
          dev_backoff = new_backoff (threshold lo) (base_seconds lo) (max_seconds lo),
          sv_broker = new_broker (grant_ttl c), active = 0, last_lock_audit = [], out = []\<rparr>)"

definition emit :: "effect \<Rightarrow> 'sk service \<Rightarrow> 'sk service" where
  "emit x s = s\<lparr>out := out s @ [x]\<rparr>"

section \<open>Challenge and response\<close>

definition issue_challenge ::
  "('sk, 'pk) ext \<Rightarrow> env \<Rightarrow> string \<Rightarrow> 'sk service \<Rightarrow> (string \<times> json) list result \<times> 'sk service" where
  "issue_challenge E env device_id s =
     (let now = mono env;
          ttl = challenge_ttl (cfg s);
          s = s\<lparr>pending := dict_keep (\<lambda>n r. now - fst (snd r) \<le> ttl) (pending s)\<rparr>
      in if length (pending s) \<ge> MAX_PENDING then (Inl RuntimeError, s)
         else
           let nonce = token env;
               issued_ms = py_trunc (wall env * 1000);
               s = s\<lparr>pending := AList.update nonce (device_id, now, issued_ms) (pending s)\<rparr>;
               target = target_id (cfg s)
           in (case signed_message ''challenge'' nonce issued_ms device_id target of
                 Inl e \<Rightarrow> (Inl e, s)
               | Inr msg \<Rightarrow>
                   (Inr [(''type'', JStr ''challenge''), (''nonce'', JStr nonce), (''issued_ms'', JInt issued_ms),
                         (''target_id'', JStr target), (''server_sig'', JStr (sign E (signing_key s) msg))], s)))"

text \<open>\<open>None\<close> is success, \<open>Some r\<close> the reason of a failure.\<close>

definition check_response ::
  "('sk, 'pk) ext \<Rightarrow> env \<Rightarrow> device \<Rightarrow> json \<Rightarrow> json \<Rightarrow> 'sk service \<Rightarrow> string option result \<times> 'sk service" where
  "check_response E env device nonce signature s =
     (case nonce of
        JStr n \<Rightarrow>
          if \<not> NONCE_RE n then (Inr (Some ''malformed_nonce''), s)
          else
            let rec = map_of (pending s) n;
                s = s\<lparr>pending := AList.delete n (pending s)\<rparr>
            in (case rec of
                  None \<Rightarrow> (Inr (Some ''unknown_or_replayed_nonce''), s)
                | Some (did, t0, issued_ms) \<Rightarrow>
                    if did \<noteq> dev_id device then (Inr (Some ''nonce_issued_to_other_device''), s)
                    else if mono env - t0 > challenge_ttl (cfg s) then (Inr (Some ''challenge_expired''), s)
                    else
                      (bindE (signed_message ''response'' n issued_ms did (target_id (cfg s)))
                         (\<lambda>msg. bindE (load_public_key E (public_key_pem device))
                            (\<lambda>pk. bindE (verify_sig E pk msg signature)
                               (\<lambda>ok. Inr (if ok then None else Some ''bad_signature'')))), s))
      | _ \<Rightarrow> (Inr (Some ''malformed_nonce''), s))"

section \<open>Alerts and the audit log\<close>

definition alert ::
  "string \<Rightarrow> string \<Rightarrow> string \<Rightarrow> string list \<Rightarrow> nat \<Rightarrow> string \<Rightarrow> 'sk service \<Rightarrow> 'sk service" where
  "alert title text priority tags sq hs s =
     (let body = text @ [newline_char] @ ''audit #'' @ show_nat sq @ '' head='' @ take 16 hs
      in emit (Alerted title body priority tags) s)"

definition append_audit ::
  "('sk, 'pk) ext \<Rightarrow> env \<Rightarrow> string \<Rightarrow> (string \<times> json) list \<Rightarrow> 'sk service \<Rightarrow> (nat \<times> string) result \<times> 'sk service" where
  "append_audit E env event data s =
     (case append_entry E (disk_ok env) (stamp env) event data (audit s) of
        (l, Inl e) \<Rightarrow> (Inl e, s\<lparr>audit := l\<rparr>)
      | (l, Inr r) \<Rightarrow> (Inr r, emit (Audited event data) (s\<lparr>audit := l\<rparr>)))"

definition data_text :: "('sk, 'pk) ext \<Rightarrow> (string \<times> json) list \<Rightarrow> string" where
  "data_text E data = py_join '', '' (map (\<lambda>(k, v). k @ ''='' @ py_str (float_repr E) v) data)"

definition record_event ::
  "('sk, 'pk) ext \<Rightarrow> env \<Rightarrow> string \<Rightarrow> string option \<Rightarrow> string \<Rightarrow> string list \<Rightarrow> (string \<times> json) list
    \<Rightarrow> 'sk service \<Rightarrow> (nat \<times> string) result \<times> 'sk service" where
  "record_event E env event title priority tags data =
     bindS (append_audit E env event data)
       (\<lambda>(sq, hs) s.
          (Inr (sq, hs),
           case title of
             Some t \<Rightarrow> if t \<noteq> [] then alert t (data_text E data) priority tags sq hs s else s
           | None \<Rightarrow> s))"

section \<open>A connection\<close>

text \<open>
  Where a connection waits: for the hello, for the response, for the sending of a rejection (the
  lockouts it started are recorded after that; \<open>nested\<close> when \<open>handle\<close> called \<open>_fail\<close>), or
  for the end of \<open>handle\<close>.
\<close>

datatype sess =
    AwaitHello string "device option"
  | AwaitResponse string device
  | Rejecting string "string option" bool bool bool
  | Leaving

text \<open>The phases in which the code awaits a frame.\<close>

definition waiting :: "sess \<Rightarrow> bool" where
  "waiting ph = (case ph of AwaitHello _ _ \<Rightarrow> True | AwaitResponse _ _ \<Rightarrow> True | _ \<Rightarrow> False)"

lemma waiting_simps [simp]:
  "waiting (AwaitHello ip cd)" "waiting (AwaitResponse ip d)" "\<not> waiting (Rejecting ip x a b n)" "\<not> waiting Leaving"
  by (simp_all add: waiting_def)

datatype frame = Text string | Binary bytes | TimedOut | Disconnected

definition recv_json :: "frame \<Rightarrow> (string \<times> json) list result" where
  "recv_json f =
     (case f of
        Disconnected \<Rightarrow> Inl ConnectionClosed
      | TimedOut \<Rightarrow> Inl TimeoutError
      | Binary bs \<Rightarrow> Inl ValueError
      | Text t \<Rightarrow>
          (case loads t of
             None \<Rightarrow> Inl JSONDecodeError
           | Some (JObj d) \<Rightarrow> Inr d
           | Some _ \<Rightarrow> Inl ValueError))"

definition locked ::
  "('sk, 'pk) ext \<Rightarrow> env \<Rightarrow> string \<Rightarrow> string \<Rightarrow> 'sk service \<Rightarrow> bool result \<times> 'sk service" where
  "locked E env key kind s =
     (let now = mono env;
          left = remaining (if kind = ''ip'' then ip_backoff s else dev_backoff s) key now
      in if left > 0
         then
           if now - (case map_of (last_lock_audit s) (kind, key) of Some t \<Rightarrow> t | None \<Rightarrow> 0) > 10
           then bindS (append_audit E env ''attempt_during_lockout''
                         [(''kind'', JStr kind), (''key'', JStr key), (''seconds_left'', JInt (py_trunc left))])
                  (\<lambda>_ s. (Inr True, s))
                  (s\<lparr>last_lock_audit := AList.update (kind, key) now (last_lock_audit s)\<rparr>)
           else (Inr True, s)
         else (Inr False, s))"

definition result_msg :: "bool \<Rightarrow> json" where
  "result_msg b = JObj [(''type'', JStr ''result''), (''ok'', JBool b)]"

definition opt_str :: "string option \<Rightarrow> json" where
  "opt_str x = (case x of None \<Rightarrow> JNull | Some s \<Rightarrow> JStr s)"

text \<open>The two failure counters; a missing or empty device id is not counted.\<close>

definition count_failure :: "env \<Rightarrow> string \<Rightarrow> string option \<Rightarrow> 'sk service \<Rightarrow> bool \<times> bool \<times> 'sk service" where
  "count_failure env ip device_id s =
     (let (b, lock_ip) = fail (ip_backoff s) ip (mono env);
          s = s\<lparr>ip_backoff := b\<rparr>
      in case device_id of
           None \<Rightarrow> (lock_ip, False, s)
         | Some d \<Rightarrow>
             if d = [] then (lock_ip, False, s)
             else let (b', lock_dev) = fail (dev_backoff s) d (mono env)
                  in (lock_ip, lock_dev, s\<lparr>dev_backoff := b'\<rparr>))"

text \<open>\<open>_fail\<close> up to the sending of the result, and the rest of it.\<close>

definition reject ::
  "('sk, 'pk) ext \<Rightarrow> env \<Rightarrow> nat \<Rightarrow> string \<Rightarrow> string option \<Rightarrow> string \<Rightarrow> bool \<Rightarrow> 'sk service \<Rightarrow> sess result \<times> 'sk service" where
  "reject E env c ip device_id reason nested s =
     (let (lock_ip, lock_dev, s) = count_failure env ip device_id s
      in bindS (record_event E env ''unlock_rejected'' (Some ''Unlock REJECTED'') ''urgent'' [''warning'']
                  [(''ip'', JStr ip), (''device'', opt_str device_id), (''reason'', JStr reason)])
           (\<lambda>_ s. (Inr (Rejecting ip device_id lock_ip lock_dev nested), emit (Sent c (result_msg False)) s)) s)"

definition record_lockout ::
  "('sk, 'pk) ext \<Rightarrow> env \<Rightarrow> string \<Rightarrow> string \<Rightarrow> bool \<Rightarrow> 'sk service \<Rightarrow> unit result \<times> 'sk service" where
  "record_lockout E env kind key hit s =
     (if hit
      then bindS (record_event E env ''lockout'' (Some ''LOCKOUT triggered'') ''urgent'' [''rotating_light'']
                    [(''kind'', JStr kind), (''key'', JStr key),
                     (''seconds'', JInt (py_trunc (remaining (if kind = ''ip'' then ip_backoff s else dev_backoff s)
                                                     key (mono env))))])
             (\<lambda>_ s. (Inr (), s)) s
      else (Inr (), s))"

definition finish_reject ::
  "('sk, 'pk) ext \<Rightarrow> env \<Rightarrow> string \<Rightarrow> string option \<Rightarrow> bool \<Rightarrow> bool \<Rightarrow> 'sk service \<Rightarrow> sess result \<times> 'sk service" where
  "finish_reject E env ip device_id lock_ip lock_dev =
     bindS (record_lockout E env ''ip'' ip lock_ip)
       (\<lambda>_. bindS (record_lockout E env ''device'' (case device_id of None \<Rightarrow> [] | Some d \<Rightarrow> d) lock_dev)
          (\<lambda>_ s. (Inr Leaving, s)))"

text \<open>\<open>_session\<close>, in three parts: up to the first \<open>_recv_json\<close>, up to the second, and the rest.\<close>

definition session_start ::
  "('sk, 'pk) ext \<Rightarrow> env \<Rightarrow> nat \<Rightarrow> string \<Rightarrow> bytes option \<Rightarrow> 'sk service \<Rightarrow> sess result \<times> 'sk service" where
  "session_start E env c ip der =
     bindS (locked E env ip ''ip'')
       (\<lambda>l s.
          if l then (Inr Leaving, emit (Closed c 1008) s)
          else
            let cert_device = (case der of
                                 None \<Rightarrow> None
                               | Some d \<Rightarrow> if d \<noteq> [] then device_by_fp (devices (cfg s)) (sha256 E d) else None)
            in if require_mtls (cfg s) \<and> cert_device = None
               then reject E env c ip None ''no_registered_client_certificate'' False s
               else (Inr (AwaitHello ip cert_device), s))"

definition on_hello ::
  "('sk, 'pk) ext \<Rightarrow> env \<Rightarrow> nat \<Rightarrow> string \<Rightarrow> device option \<Rightarrow> frame \<Rightarrow> 'sk service \<Rightarrow> sess result \<times> 'sk service" where
  "on_hello E env c ip cert_device f s =
     (case recv_json f of
        Inl e \<Rightarrow> (Inl e, s)
      | Inr hello \<Rightarrow>
          (case (jget hello ''type'' = JStr ''hello'', jget hello ''device_id'') of
             (True, JStr hid) \<Rightarrow>
               (case (case cert_device of Some d \<Rightarrow> Some d | None \<Rightarrow> device_by_id (devices (cfg s)) hid) of
                  None \<Rightarrow> reject E env c ip None ''unknown_device_or_id_mismatch'' False s
                | Some device \<Rightarrow>
                    if dev_id device \<noteq> hid
                    then reject E env c ip None ''unknown_device_or_id_mismatch'' False s
                    else
                      bindS (locked E env (dev_id device) ''device'')
                        (\<lambda>l s.
                           if l then (Inr Leaving, emit (Closed c 1008) s)
                           else bindS (issue_challenge E env (dev_id device))
                                  (\<lambda>ch s. (Inr (AwaitResponse ip device), emit (Sent c (JObj ch)) s)) s) s)
           | _ \<Rightarrow> reject E env c ip None ''bad_hello'' False s))"

definition authorize ::
  "('sk, 'pk) ext \<Rightarrow> env \<Rightarrow> nat \<Rightarrow> string \<Rightarrow> string \<Rightarrow> 'sk service \<Rightarrow> sess result \<times> 'sk service" where
  "authorize E env c ip did s =
     (let s = s\<lparr>ip_backoff := success (ip_backoff s) ip\<rparr>;
          s = s\<lparr>dev_backoff := success (dev_backoff s) did\<rparr>;
          s = s\<lparr>sv_broker := issue (mono env) (sv_broker s)\<rparr>
      in bindS (record_event E env ''unlock_authorized'' (Some ''Unlock AUTHORIZED'') ''high'' [''unlock'']
                  [(''ip'', JStr ip), (''device'', JStr did), (''target'', JStr (target_id (cfg s)))])
           (\<lambda>_ s. (Inr Leaving, emit (Sent c (result_msg True)) s)) s)"

definition on_response ::
  "('sk, 'pk) ext \<Rightarrow> env \<Rightarrow> nat \<Rightarrow> string \<Rightarrow> device \<Rightarrow> frame \<Rightarrow> 'sk service \<Rightarrow> sess result \<times> 'sk service" where
  "on_response E env c ip device f s =
     (case recv_json f of
        Inl e \<Rightarrow> (Inl e, s)
      | Inr resp \<Rightarrow>
          if jget resp ''type'' \<noteq> JStr ''response''
          then reject E env c ip (Some (dev_id device)) ''bad_response_type'' False s
          else
            bindS (check_response E env device (jget resp ''nonce'') (jget resp ''signature''))
              (\<lambda>reason s.
                 case reason of
                   Some r \<Rightarrow> reject E env c ip (Some (dev_id device)) r False s
                 | None \<Rightarrow> authorize E env c ip (dev_id device) s) s)"

section \<open>The handler of a connection\<close>

text \<open>
  The \<open>except\<close> clauses of \<open>handle\<close>.  An exception that \<open>_fail\<close> raises there, and one that is no
  \<open>Exception\<close>, leaves \<open>handle\<close> through its \<open>finally\<close>.
\<close>

definition malformed_or_late :: "exc \<Rightarrow> bool" where
  "malformed_or_late e \<longleftrightarrow>
     e = TimeoutError \<or> is_value_error e \<or> e = KeyError \<or> e = TypeError \<or> is_runtime_error e"

definition is_exception :: "exc \<Rightarrow> bool" where
  "is_exception e = (case e of SystemExit _ \<Rightarrow> False | _ \<Rightarrow> True)"

definition except ::
  "('sk, 'pk) ext \<Rightarrow> env \<Rightarrow> nat \<Rightarrow> string \<Rightarrow> exc \<Rightarrow> 'sk service \<Rightarrow> sess \<times> 'sk service" where
  "except E env c ip e s =
     (if e = ConnectionClosed \<or> \<not> is_exception e then (Leaving, s)
      else
        (case reject E env c ip None
                (if malformed_or_late e then ''malformed_or_late:'' @ exc_name e else ''internal_error'') True s of
           (Inr ph, s) \<Rightarrow> (ph, s)
         | (Inl _, s) \<Rightarrow> (Leaving, s)))"

definition guarded ::
  "('sk, 'pk) ext \<Rightarrow> env \<Rightarrow> nat \<Rightarrow> string \<Rightarrow> sess result \<times> 'sk service \<Rightarrow> sess \<times> 'sk service" where
  "guarded E env c ip r = (case r of (Inr ph, s) \<Rightarrow> (ph, s) | (Inl e, s) \<Rightarrow> except E env c ip e s)"

text \<open>
  \<open>handle\<close> up to its first \<open>await\<close>.  \<open>rl\<close> is the outcome of \<open>reload_if_changed\<close>: no change, a new
  configuration, or an exception.  \<open>None\<close> is the early return of a full server.
\<close>

definition handle ::
  "('sk, 'pk) ext \<Rightarrow> env \<Rightarrow> config result option \<Rightarrow> nat \<Rightarrow> string option \<Rightarrow> bytes option \<Rightarrow> 'sk service
    \<Rightarrow> sess option \<times> 'sk service" where
  "handle E env rl c remote_address der s =
     (let ip = (case remote_address of Some a \<Rightarrow> a | None \<Rightarrow> ''unknown'')
      in if active s \<ge> max_connections (cfg s) then (None, emit (Closed c 1013) s)
         else
           let s = s\<lparr>active := active s + 1\<rparr>;
               (ph, s) = (case rl of
                            Some (Inl e) \<Rightarrow> except E env c ip e s
                          | Some (Inr new) \<Rightarrow> guarded E env c ip (session_start E env c ip der (s\<lparr>cfg := new\<rparr>))
                          | None \<Rightarrow> guarded E env c ip (session_start E env c ip der s))
           in (Some ph, s))"

text \<open>A connection goes on: with a frame (or the lack of one) where it waits for one.\<close>

definition handle_frame ::
  "('sk, 'pk) ext \<Rightarrow> env \<Rightarrow> nat \<Rightarrow> sess \<Rightarrow> frame \<Rightarrow> 'sk service \<Rightarrow> sess \<times> 'sk service" where
  "handle_frame E env c ph f s =
     (case ph of
        AwaitHello ip cert_device \<Rightarrow> guarded E env c ip (on_hello E env c ip cert_device f s)
      | AwaitResponse ip device \<Rightarrow> guarded E env c ip (on_response E env c ip device f s)
      | _ \<Rightarrow> (ph, s))"

definition handle_sent ::
  "('sk, 'pk) ext \<Rightarrow> env \<Rightarrow> nat \<Rightarrow> sess \<Rightarrow> 'sk service \<Rightarrow> sess \<times> 'sk service" where
  "handle_sent E env c ph s =
     (case ph of
        Rejecting ip device_id lock_ip lock_dev nested \<Rightarrow>
          (case finish_reject E env ip device_id lock_ip lock_dev s of
             (Inr ph', s') \<Rightarrow> (ph', s')
           | (Inl e, s') \<Rightarrow> if nested then (Leaving, s') else except E env c ip e s')
      | _ \<Rightarrow> (ph, s))"

definition leave :: "'sk service \<Rightarrow> 'sk service" where
  "leave s = s\<lparr>active := active s - 1\<rparr>"

section \<open>The PAM socket\<close>

text \<open>
  Where a PAM request waits: for its line, for the broker (with the user, uid, pid and deadline),
  or nowhere.  \<open>PamAnswered r\<close> records what \<open>consume\<close> returned.
\<close>

datatype pam =
    PamReading int int
  | PamReady string int int time
  | PamBlocked string int int time
  | PamAnswered bool
  | PamRefused

definition pam_reply :: "nat \<Rightarrow> bool \<Rightarrow> 'sk service \<Rightarrow> 'sk service" where
  "pam_reply c ok s = emit (PamReplied c ok) s"

text \<open>\<open>creds\<close> is the pair of the peer's pid and uid, or the exception of the socket call.\<close>

definition pam_open ::
  "('sk, 'pk) ext \<Rightarrow> env \<Rightarrow> nat \<Rightarrow> (int \<times> int) result \<Rightarrow> 'sk service \<Rightarrow> pam \<times> 'sk service" where
  "pam_open E env c creds s =
     (case creds of
        Inl e \<Rightarrow> (PamRefused, pam_reply c False s)
      | Inr (pid, uid) \<Rightarrow>
          if uid \<notin> set (pam_allowed_uids (cfg s))
          then (PamRefused, pam_reply c False
                  (snd (record_event E env ''pam_denied'' (Some ''PAM request from disallowed uid'') ''high'' [''no_entry'']
                          [(''uid'', JInt uid), (''pid'', JInt pid)] s)))
          else (PamReading pid uid, s))"

definition pam_finish ::
  "('sk, 'pk) ext \<Rightarrow> env \<Rightarrow> nat \<Rightarrow> string \<Rightarrow> int \<Rightarrow> int \<Rightarrow> bool \<Rightarrow> 'sk service \<Rightarrow> 'sk service" where
  "pam_finish E env c user pid uid ok s =
     (case record_event E env (if ok then ''pam_grant_consumed'' else ''pam_no_grant'')
             (if ok then Some ''PAM unlock granted'' else None) ''default'' [''key'']
             [(''user'', JStr user), (''uid'', JInt uid), (''pid'', JInt pid)] s of
        (Inr _, s) \<Rightarrow> pam_reply c ok s
      | (Inl _, s) \<Rightarrow> pam_reply c False s)"

definition pam_turn ::
  "('sk, 'pk) ext \<Rightarrow> env \<Rightarrow> nat \<Rightarrow> string \<Rightarrow> int \<Rightarrow> int \<Rightarrow> broker \<times> turn \<Rightarrow> 'sk service \<Rightarrow> pam \<times> 'sk service" where
  "pam_turn E env c user pid uid r s =
     (let s = s\<lparr>sv_broker := fst r\<rparr>
      in case snd r of
           Return ok \<Rightarrow> (PamAnswered ok, pam_finish E env c user pid uid ok s)
         | WaitUntil d \<Rightarrow> (PamReady user pid uid d, s))"

text \<open>The outcome of \<open>wait_for(reader.readline(), 3)\<close>: a line, or an exception.\<close>

definition pam_line ::
  "('sk, 'pk) ext \<Rightarrow> env \<Rightarrow> nat \<Rightarrow> int \<Rightarrow> int \<Rightarrow> string result \<Rightarrow> 'sk service \<Rightarrow> pam \<times> 'sk service" where
  "pam_line E env c pid uid line s =
     (case line of
        Inl e \<Rightarrow> (PamRefused, pam_reply c False s)
      | Inr t \<Rightarrow>
          (case loads t of
             Some (JObj req) \<Rightarrow>
               if \<not> py_eq_str (jget req ''user'') (unlock_user (cfg s))
               then (PamRefused, pam_reply c False
                       (snd (record_event E env ''pam_denied'' None ''default'' []
                               [(''user'', JStr (take 64 (py_str (float_repr E) (jget req ''user'')))), (''uid'', JInt uid)] s)))
               else pam_turn E env c (unlock_user (cfg s)) pid uid (consume (pam_wait (cfg s)) (mono env) (sv_broker s)) s
           | _ \<Rightarrow> (PamRefused, pam_reply c False s)))"

definition pam_enter :: "nat \<Rightarrow> 'sk service \<Rightarrow> 'sk service" where
  "pam_enter c s = s\<lparr>sv_broker := start_wait c (sv_broker s)\<rparr>"

definition pam_resume ::
  "('sk, 'pk) ext \<Rightarrow> env \<Rightarrow> nat \<Rightarrow> string \<Rightarrow> int \<Rightarrow> int \<Rightarrow> time \<Rightarrow> 'sk service \<Rightarrow> pam \<times> 'sk service" where
  "pam_resume E env c user pid uid d s =
     pam_turn E env c user pid uid (resume c d (mono env) (sv_broker s)) s"

definition pam_timeout ::
  "('sk, 'pk) ext \<Rightarrow> env \<Rightarrow> nat \<Rightarrow> string \<Rightarrow> int \<Rightarrow> int \<Rightarrow> 'sk service \<Rightarrow> pam \<times> 'sk service" where
  "pam_timeout E env c user pid uid s =
     pam_turn E env c user pid uid (give_up c (sv_broker s)) s"
section \<open>What an operation leaves alone\<close>

text \<open>
  A predicate of the service that holds across the elementary changes holds across the
  operations.  \<open>service_frame\<close> has the changes every part of a session makes; the broker, the replies to
  PAM, and the counter of connections with the configuration, are added for the operations that
  change them.
\<close>

locale service_frame =
  fixes E :: "('sk, 'pk) ext" and env :: env and P :: "'sk service \<Rightarrow> bool"
  assumes P_emit: "P s \<Longrightarrow> (\<And>k ok. x \<noteq> PamReplied k ok) \<Longrightarrow> P (emit x s)"
    and P_audit: "P s \<Longrightarrow> plain (JObj data) \<Longrightarrow> P (snd (append_audit E env event data s))"
    and P_lock_audit: "P s \<Longrightarrow> P (s\<lparr>last_lock_audit := la\<rparr>)"
    and P_ip_fail: "P s \<Longrightarrow> P (s\<lparr>ip_backoff := fst (fail (ip_backoff s) k (mono env))\<rparr>)"
    and P_dev_fail: "P s \<Longrightarrow> P (s\<lparr>dev_backoff := fst (fail (dev_backoff s) k (mono env))\<rparr>)"
    and P_issue: "P s \<Longrightarrow> P (snd (issue_challenge E env d s))"
begin

lemma P_record: "P s \<Longrightarrow> plain (JObj data) \<Longrightarrow> P (snd (record_event E env ev t p tg data s))"
  unfolding record_event_def
  by (rule bindS_pres [where P = P]) (auto simp: alert_def Let_def P_emit P_audit split: option.split)

lemma P_locked: "P s \<Longrightarrow> P (snd (locked E env key kind s))"
  by (auto simp: locked_def Let_def dict_ok_def intro!: bindS_pres [where P = P] P_audit P_lock_audit)

lemma P_count: "P s \<Longrightarrow> P (snd (snd (count_failure env ip did s)))"
proof -
  assume "P s"
  then have "P (s\<lparr>ip_backoff := fst (fail (ip_backoff s) ip (mono env))\<rparr>)" (is "P ?s") by (rule P_ip_fail)
  moreover from this have "P (?s\<lparr>dev_backoff := fst (fail (dev_backoff ?s) d (mono env))\<rparr>)" for d
    by (rule P_dev_fail)
  ultimately show ?thesis
    by (auto simp: count_failure_def Let_def case_prod_unfold split: option.split)
qed

lemma P_reject: "P s \<Longrightarrow> P (snd (reject E env c ip did reason nested s))"
proof -
  assume "P s"
  then have "P (snd (snd (count_failure env ip did s)))" by (rule P_count)
  then show ?thesis
    by (auto simp: reject_def dict_ok_def opt_str_def split: prod.split option.split
        intro!: bindS_pres [where P = P] P_record P_emit)
qed

lemma P_record_lockout: "P s \<Longrightarrow> P (snd (record_lockout E env kind key hit s))"
  by (auto simp: record_lockout_def dict_ok_def intro!: bindS_pres [where P = P] P_record)

lemma P_finish_reject: "P s \<Longrightarrow> P (snd (finish_reject E env ip did a b s))"
  unfolding finish_reject_def
  by (rule bindS_pres [where P = P]) (auto intro!: P_record_lockout bindS_pres [where P = P])

lemma P_session_start: "P s \<Longrightarrow> P (snd (session_start E env c ip der s))"
  unfolding session_start_def
  by (rule bindS_pres [where P = P]) (auto simp: Let_def intro!: P_locked P_reject P_emit)

lemma P_challenge:
  "P s \<Longrightarrow> P (snd (bindS (issue_challenge E env did) (\<lambda>ch s. (Inr (AwaitResponse ip d), emit (Sent c (JObj ch)) s)) s))"
  by (rule bindS_pres [where P = P]) (simp_all add: P_issue P_emit)

lemma P_on_hello: "P s \<Longrightarrow> P (snd (on_hello E env c ip cd f s))"
proof -
  assume s: "P s"
  have "P (snd (bindS (locked E env did ''device'')
      (\<lambda>l s. if l then (Inr Leaving, emit (Closed c 1008) s)
             else bindS (issue_challenge E env did) (\<lambda>ch s. (Inr (AwaitResponse ip d), emit (Sent c (JObj ch)) s)) s) s))" for did d
    by (rule bindS_pres [where P = P, OF s]) (simp_all add: P_locked P_emit P_challenge)
  then show ?thesis
    using s by (simp add: on_hello_def P_reject split: sum.split bool.split json.split option.split)
qed

lemma P_except: "P s \<Longrightarrow> P (snd (except E env c ip e s))"
proof -
  assume s: "P s"
  define r where "r = reject E env c ip None
    (if malformed_or_late e then ''malformed_or_late:'' @ exc_name e else ''internal_error'') True s"
  have "P (snd r)" unfolding r_def using s by (rule P_reject)
  then show ?thesis
    using s by (cases r) (auto simp: except_def r_def [symmetric] split: sum.split)
qed

lemma P_guarded: "P (snd r) \<Longrightarrow> P (snd (guarded E env c ip r))"
  by (auto simp: guarded_def split: prod.split sum.split intro: P_except)

lemma P_handle_sent: "P s \<Longrightarrow> P (snd (handle_sent E env c ph s))"
proof (cases ph)
  case (Rejecting ip did a b n)
  assume "P s"
  then have "P (snd (finish_reject E env ip did a b s))" by (rule P_finish_reject)
  with Rejecting show ?thesis
    by (auto simp: handle_sent_def split: prod.split sum.split intro: P_except)
qed (simp_all add: handle_sent_def)

end

locale service_handle = service_frame +
  assumes P_cfg: "P s \<Longrightarrow> P (s\<lparr>cfg := new\<rparr>)" and P_active: "P s \<Longrightarrow> P (s\<lparr>active := n\<rparr>)"
begin

lemma P_handle: "P s \<Longrightarrow> P (snd (handle E env rl c ra der s))"
  by (simp add: handle_def Let_def case_prod_unfold P_emit P_active P_cfg P_except P_guarded P_session_start
      split: option.split sum.split)

lemma P_leave: "P s \<Longrightarrow> P (leave s)"
  by (simp add: leave_def P_active)

end

locale service_broker = service_frame +
  assumes P_broker: "P s \<Longrightarrow> P (s\<lparr>sv_broker := b\<rparr>)"
    and P_ip_success: "P s \<Longrightarrow> P (s\<lparr>ip_backoff := success (ip_backoff s) k\<rparr>)"
    and P_dev_success: "P s \<Longrightarrow> P (s\<lparr>dev_backoff := success (dev_backoff s) k\<rparr>)"
    and P_check: "P s \<Longrightarrow> P (snd (check_response E env d n sg s))"
begin

lemma P_authorize: "P s \<Longrightarrow> P (snd (authorize E env c ip did s))"
proof -
  assume "P s"
  then have "P (s\<lparr>ip_backoff := success (ip_backoff s) ip\<rparr>)" (is "P ?s") by (rule P_ip_success)
  then have "P (?s\<lparr>dev_backoff := success (dev_backoff ?s) did\<rparr>)" (is "P ?t") by (rule P_dev_success)
  then have "P (?t\<lparr>sv_broker := issue (mono env) (sv_broker ?t)\<rparr>)" by (rule P_broker)
  then show ?thesis
    by (auto simp: authorize_def Let_def dict_ok_def intro!: bindS_pres [where P = P] P_record P_emit)
qed

lemma P_on_response: "P s \<Longrightarrow> P (snd (on_response E env c ip d f s))"
  by (auto simp: on_response_def split: sum.split option.split
      intro!: P_reject P_check P_authorize bindS_pres [where P = P])

lemma P_handle_frame: "P s \<Longrightarrow> P (snd (handle_frame E env c ph f s))"
  by (cases ph) (simp_all add: handle_frame_def P_guarded P_on_hello P_on_response)

end

locale service_pam = service_broker +
  assumes P_reply: "P s \<Longrightarrow> P (emit (PamReplied k ok) s)"
begin

lemma P_pam_reply: "P s \<Longrightarrow> P (pam_reply c ok s)"
  by (simp add: pam_reply_def P_reply)

lemma P_pam_open: "P s \<Longrightarrow> P (snd (pam_open E env c creds s))"
  by (auto simp: pam_open_def dict_ok_def split: sum.split intro!: P_pam_reply P_record)

lemma P_pam_finish: "P s \<Longrightarrow> P (pam_finish E env c user pid uid ok s)"
proof -
  assume "P s"
  then have "P (snd (record_event E env (if ok then ''pam_grant_consumed'' else ''pam_no_grant'')
      (if ok then Some ''PAM unlock granted'' else None) ''default'' [''key'']
      [(''user'', JStr user), (''uid'', JInt uid), (''pid'', JInt pid)] s))"
    by (rule P_record) (simp add: dict_ok_def)
  then show ?thesis
    by (auto simp: pam_finish_def split: prod.split sum.split intro!: P_pam_reply)
qed

lemma P_pam_turn: "P s \<Longrightarrow> P (snd (pam_turn E env c user pid uid r s))"
  by (simp add: pam_turn_def Let_def P_pam_finish P_broker split: turn.split)

lemma P_pam_line: "P s \<Longrightarrow> P (snd (pam_line E env c pid uid line s))"
  by (auto simp: pam_line_def dict_ok_def split: sum.split option.split json.split
      intro!: P_pam_reply P_record P_pam_turn)

lemma P_pam_enter: "P s \<Longrightarrow> P (pam_enter c s)"
  by (simp add: pam_enter_def P_broker)

lemma P_pam_resume: "P s \<Longrightarrow> P (snd (pam_resume E env c user pid uid d s))"
  by (simp add: pam_resume_def P_pam_turn)

lemma P_pam_timeout: "P s \<Longrightarrow> P (snd (pam_timeout E env c user pid uid s))"
  by (simp add: pam_timeout_def P_pam_turn)

end

locale service_inv = service_handle + service_pam

section \<open>Writing to the log\<close>

lemma append_audit_ok:
  assumes "disk_ok env"
  obtains sq hs l where "append_audit E env event data s = (Inr (sq, hs), emit (Audited event data) (s\<lparr>audit := l\<rparr>))"
proof -
  obtain l sq hs where "append_entry E True (stamp env) event data (audit s) = (l, Inr (sq, hs))"
    by (simp add: append_entry_def Let_def)
  with assms that show ?thesis by (simp add: append_audit_def)
qed

lemma append_audit_failed:
  assumes "\<not> disk_ok env"
  obtains l where "append_audit E env event data s = (Inl OSError, s\<lparr>audit := l\<rparr>)"
  using assms that by (simp add: append_audit_def append_entry_def Let_def)

definition alert_of :: "string option \<Rightarrow> ('sk, 'pk) ext \<Rightarrow> string \<Rightarrow> string list \<Rightarrow> (string \<times> json) list \<Rightarrow> nat \<Rightarrow> string \<Rightarrow> effect list" where
  "alert_of title E priority tags data sq hs =
     (case title of
        Some t \<Rightarrow> if t \<noteq> [] then [Alerted t (data_text E data @ [newline_char] @ ''audit #'' @ show_nat sq @ '' head='' @ take 16 hs) priority tags] else []
      | None \<Rightarrow> [])"

lemma record_event_ok:
  assumes "disk_ok env"
  obtains sq hs l where "record_event E env event title priority tags data s
    = (Inr (sq, hs), s\<lparr>audit := l, out := out s @ Audited event data # alert_of title E priority tags data sq hs\<rparr>)"
proof -
  obtain sq hs l where "append_audit E env event data s = (Inr (sq, hs), emit (Audited event data) (s\<lparr>audit := l\<rparr>))"
    by (rule append_audit_ok [OF assms])
  then have "record_event E env event title priority tags data s
    = (Inr (sq, hs), s\<lparr>audit := l, out := out s @ Audited event data # alert_of title E priority tags data sq hs\<rparr>)"
    by (cases title) (simp_all add: record_event_def alert_of_def alert_def emit_def Let_def)
  then show ?thesis by (rule that)
qed

lemma record_event_failed:
  assumes "\<not> disk_ok env"
  obtains l where "record_event E env event title priority tags data s = (Inl OSError, s\<lparr>audit := l\<rparr>)"
proof -
  obtain l where "append_audit E env event data s = (Inl OSError, s\<lparr>audit := l\<rparr>)"
    by (rule append_audit_failed [OF assms])
  then show ?thesis using that by (simp add: record_event_def)
qed

section \<open>Acceptance of a response\<close>

lemma check_response_state:
  "snd (check_response E env d nonce sg s) =
    (case nonce of JStr n \<Rightarrow> if NONCE_RE n then s\<lparr>pending := AList.delete n (pending s)\<rparr> else s | _ \<Rightarrow> s)"
  by (auto simp: check_response_def Let_def split: json.split option.split prod.split)

lemma check_response_accepts:
  "fst (check_response E env d nonce sg s) = Inr None \<longleftrightarrow>
    (\<exists>n t0 ms msg pk. nonce = JStr n \<and> NONCE_RE n \<and> map_of (pending s) n = Some (dev_id d, t0, ms)
       \<and> mono env - t0 \<le> challenge_ttl (cfg s)
       \<and> signed_message ''response'' n ms (dev_id d) (target_id (cfg s)) = Inr msg
       \<and> load_public_key E (public_key_pem d) = Inr pk
       \<and> verify_sig E pk msg sg = Inr True)"
proof (cases nonce)
  case (JStr n)
  show ?thesis
  proof (cases "map_of (pending s) n")
    case None
    with JStr show ?thesis by (simp add: check_response_def Let_def)
  next
    case (Some r)
    then obtain did t0 ms where "map_of (pending s) n = Some (did, t0, ms)" by (cases r) auto
    with JStr show ?thesis
      by (auto simp: check_response_def Let_def bindE_eq_Inr split: if_splits)
  qed
qed (simp_all add: check_response_def)

text \<open>
  C14.  A response is accepted exactly when its nonce is one this service issued to this very
  device and has not seen since, at most \<open>challenge_ttl\<close> seconds ago, and its signature verifies
  under the registered key of the device over the response message, built from the issue time
  the service remembered and its own target id; nothing the client sends besides the nonce and
  the signature enters the decision.
\<close>

theorem check_response_accepts_iff:
  "fst (check_response E env d nonce sg s) = Inr None \<longleftrightarrow>
    (\<exists>n t0 ms msg pk. nonce = JStr n \<and> NONCE_RE n \<and> map_of (pending s) n = Some (dev_id d, t0, ms)
       \<and> mono env - t0 \<le> challenge_ttl (cfg s)
       \<and> signed_message ''response'' n ms (dev_id d) (target_id (cfg s)) = Inr msg
       \<and> load_public_key E (public_key_pem d) = Inr pk
       \<and> verify_sig E pk msg sg = Inr True)"
  by (rule check_response_accepts)

text \<open>
  A nonce is consumed by its first well-formed use whatever comes of it: success, any of
  the failures, or an exception while loading the key or verifying.  Every other pending
  challenge, and the rest of the service, stay as they were.
\<close>

theorem check_response_consumes:
  assumes "NONCE_RE n"
  shows "map_of (pending (snd (check_response E env d (JStr n) sg s))) = (map_of (pending s))(n := None)
    \<and> snd (check_response E env d (JStr n) sg s) = s\<lparr>pending := pending (snd (check_response E env d (JStr n) sg s))\<rparr>"
  using assms by (simp add: check_response_state delete_conv [abs_def] fun_eq_iff delete_conv')

definition toy_config :: config where
  "toy_config = \<lparr>target_id = ''laptop'', listener_ip = ''100.64.0.5'', listener_port = 8765, unlock_user = ''me'',
     challenge_ttl = 10, grant_ttl = 20, pam_wait = 15, pam_socket = ''/run/remote-unlock/pam.sock'',
     pam_allowed_uids = [0], require_mtls = True, allow_any_interface = False, max_connections = 16,
     lockout = \<lparr>threshold = 3, base_seconds = 30, max_seconds = 3600\<rparr>,
     devices = [\<lparr>dev_id = ''phone1'', public_key_pem = ''BEGIN'', cert_sha256 = ''4'', enabled = True,
                 created = [], cert_expires = [], revoked = None\<rparr>]\<rparr>"

definition toy_device :: device where
  "toy_device = \<lparr>dev_id = ''phone1'', public_key_pem = ''BEGIN'', cert_sha256 = ''4'', enabled = True,
                 created = [], cert_expires = [], revoked = None\<rparr>"

definition toy_service :: "nat service" where
  "toy_service = new_service toy_config 7 empty_log"

definition toy_env :: "time \<Rightarrow> env" where
  "toy_env t = \<lparr>mono = t, wall = t, stamp = ''now'', token = replicate 32 (CHR ''a''), disk_ok = True\<rparr>"

lemma toy_device_sel [simp]: "dev_id toy_device = ''phone1''" "public_key_pem toy_device = ''BEGIN''"
  by (simp_all add: toy_device_def)

lemma toy_pending: "pending toy_service = []"
  by (simp add: toy_service_def new_service_def Let_def)

lemma NONCE_RE_toy [simp]: "NONCE_RE (replicate 32 (CHR ''a''))"
  by code_simp

lemma toy_map_of: "(map_of [(n, v)])(n := None) = Map.empty"
  by (rule ext) simp

lemma check_response_consumes_witness:
  "map_of (pending (snd (check_response toy_ext (toy_env 3) toy_device (JStr (replicate 32 (CHR ''a''))) JNull
     (toy_service\<lparr>pending := [(replicate 32 (CHR ''a''), (''phone1'', 1, 1000))]\<rparr>)))) = Map.empty"
  using conjunct1 [OF check_response_consumes [OF NONCE_RE_toy, of toy_ext "toy_env 3" toy_device JNull
      "toy_service\<lparr>pending := [(replicate 32 (CHR ''a''), (''phone1'', 1, 1000))]\<rparr>"]]
  by (simp add: toy_map_of)

section \<open>Pending challenges\<close>

lemma issue_challenge_state:
  "snd (issue_challenge E env did s) =
    (let kept = dict_keep (\<lambda>n r. mono env - fst (snd r) \<le> challenge_ttl (cfg s)) (pending s)
     in s\<lparr>pending := (if length kept \<ge> MAX_PENDING then kept
                      else AList.update (token env) (did, mono env, py_trunc (wall env * 1000)) kept)\<rparr>)"
  by (simp add: issue_challenge_def Let_def split: sum.split)

definition pending_ok :: "'sk service \<Rightarrow> bool" where
  "pending_ok s \<longleftrightarrow> dict_ok (pending s) \<and> length (pending s) \<le> MAX_PENDING"

lemma pending_ok_issue: "pending_ok s \<Longrightarrow> pending_ok (snd (issue_challenge E env did s))"
  using length_dict_keep [of "\<lambda>n r. mono env - fst (snd r) \<le> challenge_ttl (cfg s)" "pending s"]
  by (auto simp: pending_ok_def issue_challenge_state Let_def length_update)

lemma pending_ok_check: "pending_ok s \<Longrightarrow> pending_ok (snd (check_response E env d n sg s))"
  by (auto simp: pending_ok_def check_response_state split: json.split
      intro: order_trans [OF length_delete_le])

lemma append_audit_sel [simp]:
  "cfg (snd (append_audit E env ev data s)) = cfg s"
  "signing_key (snd (append_audit E env ev data s)) = signing_key s"
  "pending (snd (append_audit E env ev data s)) = pending s"
  "ip_backoff (snd (append_audit E env ev data s)) = ip_backoff s"
  "dev_backoff (snd (append_audit E env ev data s)) = dev_backoff s"
  "sv_broker (snd (append_audit E env ev data s)) = sv_broker s"
  "active (snd (append_audit E env ev data s)) = active s"
  "last_lock_audit (snd (append_audit E env ev data s)) = last_lock_audit s"
  by (simp_all add: append_audit_def emit_def split: prod.split sum.split)

lemma emit_sel [simp]:
  "cfg (emit x s) = cfg s" "signing_key (emit x s) = signing_key s" "pending (emit x s) = pending s"
  "ip_backoff (emit x s) = ip_backoff s" "dev_backoff (emit x s) = dev_backoff s"
  "sv_broker (emit x s) = sv_broker s" "active (emit x s) = active s"
  "last_lock_audit (emit x s) = last_lock_audit s" "out (emit x s) = out s @ [x]" "audit (emit x s) = audit s"
  by (simp_all add: emit_def)

lemma issue_challenge_sel [simp]:
  "cfg (snd (issue_challenge E env d s)) = cfg s"
  "signing_key (snd (issue_challenge E env d s)) = signing_key s"
  "ip_backoff (snd (issue_challenge E env d s)) = ip_backoff s"
  "dev_backoff (snd (issue_challenge E env d s)) = dev_backoff s"
  "sv_broker (snd (issue_challenge E env d s)) = sv_broker s"
  "active (snd (issue_challenge E env d s)) = active s"
  "audit (snd (issue_challenge E env d s)) = audit s"
  "out (snd (issue_challenge E env d s)) = out s"
  by (simp_all add: issue_challenge_state Let_def)

lemma check_response_sel [simp]:
  "cfg (snd (check_response E env d n sg s)) = cfg s"
  "signing_key (snd (check_response E env d n sg s)) = signing_key s"
  "ip_backoff (snd (check_response E env d n sg s)) = ip_backoff s"
  "dev_backoff (snd (check_response E env d n sg s)) = dev_backoff s"
  "sv_broker (snd (check_response E env d n sg s)) = sv_broker s"
  "active (snd (check_response E env d n sg s)) = active s"
  "audit (snd (check_response E env d n sg s)) = audit s"
  "out (snd (check_response E env d n sg s)) = out s"
  by (simp_all add: check_response_state split: json.split)

text \<open>The pending challenges as single-use tokens.\<close>

datatype nonce_call = NIssue env string | NCheck env device json json

definition nonce_step :: "('sk, 'pk) ext \<Rightarrow> nonce_call \<Rightarrow> 'sk service \<Rightarrow> 'sk service" where
  "nonce_step E e s =
     (case e of
        NIssue env did \<Rightarrow> snd (issue_challenge E env did s)
      | NCheck env d n sg \<Rightarrow> snd (check_response E env d n sg s))"

definition nonce_pending :: "'sk service \<Rightarrow> string \<Rightarrow> bool" where
  "nonce_pending s n \<longleftrightarrow> n \<in> fst ` set (pending s)"

definition draws :: "nonce_call \<Rightarrow> 'sk service \<Rightarrow> string \<Rightarrow> bool" where
  "draws e s n = (case e of NIssue env did \<Rightarrow> token env = n | NCheck env d nc sg \<Rightarrow> False)"

definition nonce_accepts :: "('sk, 'pk) ext \<Rightarrow> nonce_call \<Rightarrow> 'sk service \<Rightarrow> string \<Rightarrow> bool" where
  "nonce_accepts E e s n =
     (case e of
        NIssue env did \<Rightarrow> False
      | NCheck env d nc sg \<Rightarrow> nc = JStr n \<and> fst (check_response E env d nc sg s) = Inr None)"

interpretation nonces: single_use "nonce_step E" "\<lambda>_. True" nonce_pending draws "nonce_accepts E" for E
proof
  fix s :: "'a service" and e n
  have del: "fst ` set (AList.delete k d) = fst ` set d - {k}" for k and d :: "(string \<times> string \<times> time \<times> int) list"
    by (auto simp: AList.delete_eq)
  have mem: "map_of d k = Some v \<Longrightarrow> k \<in> fst ` set d" for k v and d :: "(string \<times> string \<times> time \<times> int) list"
    by (metis domI dom_map_of_conv_image_fst)
  show "nonce_accepts E e s n \<Longrightarrow> nonce_pending s n \<and> \<not> nonce_pending (nonce_step E e s) n"
    by (cases e)
      (auto simp: nonce_accepts_def nonce_step_def nonce_pending_def check_response_accepts check_response_state del
        intro: mem)
  show "nonce_pending (nonce_step E e s) n \<Longrightarrow> nonce_pending s n \<or> draws e s n"
    by (cases e)
      (auto simp: nonce_step_def nonce_pending_def draws_def issue_challenge_state check_response_state Let_def del
        dict_keep_def dom_update split: json.splits if_splits)
qed simp

lemma issued_draws: "single_use.issued (nonce_step E) draws calls s n = length (filter (\<lambda>e. draws e s' n) calls)"
proof (induction calls arbitrary: s)
  case (Cons e calls)
  have "draws e s n = draws e s' n" by (simp add: draws_def split: nonce_call.split)
  with Cons show ?case by (simp add: nonces.issued.simps)
qed (simp add: nonces.issued.simps)

text \<open>
  C15.  A nonce is worth at most one acceptance: in any sequence of challenges and responses, from
  any connections and devices and at any times, the responses accepted for a nonce are at most
  the challenges that drew it.  With random nonces that do not repeat, a response that was
  accepted, or only tried, can never be replayed.
\<close>

theorem nonce_accepted_at_most_once:
  assumes "pending s = []"
  shows "single_use.accepted (nonce_step E) (nonce_accepts E) calls s n \<le> length (filter (\<lambda>e. draws e s n) calls)"
  using nonces.accepted_le_issued [where s = s and E = E and es = calls and k = n] assms
  by (simp add: issued_draws [where s' = s] nonce_pending_def)

lemma nonce_accepted_at_most_once_witness:
  "single_use.accepted (nonce_step toy_ext) (nonce_accepts toy_ext)
     [NIssue (toy_env 1) ''phone1'', NCheck (toy_env 2) toy_device (JStr (replicate 32 (CHR ''a''))) (JStr ''0748''),
      NCheck (toy_env 3) toy_device (JStr (replicate 32 (CHR ''a''))) (JStr ''0748'')] toy_service (replicate 32 (CHR ''a'')) \<le> 1"
proof -
  let ?calls = "[NIssue (toy_env 1) ''phone1'', NCheck (toy_env 2) toy_device (JStr (replicate 32 (CHR ''a''))) (JStr ''0748''),
      NCheck (toy_env 3) toy_device (JStr (replicate 32 (CHR ''a''))) (JStr ''0748'')]"
  have "length (filter (\<lambda>e. draws e toy_service (replicate 32 (CHR ''a''))) ?calls) = 1"
    by (simp add: draws_def toy_env_def)
  with nonce_accepted_at_most_once [OF toy_pending, of toy_ext ?calls "replicate 32 (CHR ''a'')"]
  show ?thesis by (simp only:)
qed

section \<open>What the peer sees\<close>

text \<open>The effects a connection can observe.\<close>

definition peer_sees :: "nat \<Rightarrow> effect \<Rightarrow> bool" where
  "peer_sees c x = (case x of Sent c' m \<Rightarrow> c' = c | Closed c' n \<Rightarrow> c' = c | _ \<Rightarrow> False)"

definition peer_view :: "nat \<Rightarrow> 'sk service \<Rightarrow> effect list" where
  "peer_view c s = filter (peer_sees c) (out s)"

lemma peer_sees_simps [simp]:
  "peer_sees c (Sent c' m) = (c' = c)" "peer_sees c (Closed c' n) = (c' = c)"
  "\<not> peer_sees c (Audited ev data)" "\<not> peer_sees c (Alerted t b p g)" "\<not> peer_sees c (PamReplied k ok)"
  by (simp_all add: peer_sees_def)

lemma peer_sees_alert_of [simp]: "filter (peer_sees c) (alert_of t E p tg data sq hs) = []"
  by (simp add: alert_of_def split: option.split)

lemma count_failure_sel [simp]:
  "cfg (snd (snd (count_failure env ip did s))) = cfg s"
  "pending (snd (snd (count_failure env ip did s))) = pending s"
  "sv_broker (snd (snd (count_failure env ip did s))) = sv_broker s"
  "out (snd (snd (count_failure env ip did s))) = out s"
  "audit (snd (snd (count_failure env ip did s))) = audit s"
  "active (snd (snd (count_failure env ip did s))) = active s"
  by (auto simp: count_failure_def Let_def case_prod_unfold split: option.split)

lemma reject_ok:
  assumes "disk_ok env"
  shows "\<exists>a b. fst (reject E env c ip did reason nested s) = Inr (Rejecting ip did a b nested)"
    and "peer_view c (snd (reject E env c ip did reason nested s)) = peer_view c s @ [Sent c (result_msg False)]"
proof -
  obtain a b s1 where c: "count_failure env ip did s = (a, b, s1)"
    using prod_cases3 by blast
  have o: "out s1 = out s" using count_failure_sel(4) [of env ip did s] c by simp
  let ?data = "[(''ip'', JStr ip), (''device'', opt_str did), (''reason'', JStr reason)]"
  obtain sq hs l where "record_event E env ''unlock_rejected'' (Some ''Unlock REJECTED'') ''urgent'' [''warning''] ?data s1
      = (Inr (sq, hs), s1\<lparr>audit := l, out := out s1 @ Audited ''unlock_rejected'' ?data #
          alert_of (Some ''Unlock REJECTED'') E ''urgent'' [''warning''] ?data sq hs\<rparr>)"
    by (rule record_event_ok [OF assms])
  with c o show "\<exists>a b. fst (reject E env c ip did reason nested s) = Inr (Rejecting ip did a b nested)"
    and "peer_view c (snd (reject E env c ip did reason nested s)) = peer_view c s @ [Sent c (result_msg False)]"
    by (simp_all add: reject_def peer_view_def)
qed

definition ordinary :: "exc \<Rightarrow> bool" where
  "ordinary e \<longleftrightarrow> is_exception e \<and> e \<noteq> ConnectionClosed"

text \<open>The external functions raise ordinary exceptions only (not the web socket's, not an exit).\<close>

definition ext_ordinary :: "('sk, 'pk) ext \<Rightarrow> bool" where
  "ext_ordinary E \<longleftrightarrow>
     (\<forall>t e. load_pem E t = Inl e \<longrightarrow> ordinary e) \<and> (\<forall>t e. load_der E t = Inl e \<longrightarrow> ordinary e)
     \<and> (\<forall>pk sg m e. ec_verify E pk sg m = Some e \<longrightarrow> ordinary e)"

lemma ordinary_simps [simp]: "ordinary ValueError" "ordinary BinasciiError" "ordinary JSONDecodeError"
    "ordinary TimeoutError" "ordinary RuntimeError" "ordinary OSError"
  by (simp_all add: ordinary_def is_exception_def)

lemma verify_sig_Inl: "verify_sig E pk m v = Inl e \<Longrightarrow> \<exists>sg. ec_verify E pk sg m = Some e"
  by (auto simp: verify_sig_def verify_sig_body_def Let_def caught_by_verify_def is_value_error_def
      split: json.splits option.splits if_splits sum.splits)

lemma load_public_key_Inl: "ext_ordinary E \<Longrightarrow> load_public_key E t = Inl e \<Longrightarrow> ordinary e"
  by (auto simp: load_public_key_def ext_ordinary_def Let_def bindE_eq_Inl split: option.splits if_splits)

lemma signed_message_Inl: "signed_message r n ms d t = Inl e \<Longrightarrow> e = ValueError"
  by (auto simp: signed_message_def split: if_splits)

lemma check_response_Inl:
  assumes "ext_ordinary E" "fst (check_response E env d nonce sg s) = Inl e"
  shows "ordinary e"
  using assms
  by (auto simp: check_response_def Let_def bindE_eq_Inl split: json.splits option.splits if_splits prod.splits
      dest!: verify_sig_Inl signed_message_Inl intro: load_public_key_Inl) (auto simp: ext_ordinary_def)

lemma except_ordinary:
  assumes "ordinary e" "disk_ok env"
  shows "\<exists>a b. fst (except E env c ip e s) = Rejecting ip None a b True"
    and "peer_view c (snd (except E env c ip e s)) = peer_view c s @ [Sent c (result_msg False)]"
proof -
  define r where "r = reject E env c ip None
    (if malformed_or_late e then ''malformed_or_late:'' @ exc_name e else ''internal_error'') True s"
  obtain a b where "fst r = Inr (Rejecting ip None a b True)"
    using reject_ok(1) [OF assms(2)] unfolding r_def by blast
  moreover have "peer_view c (snd r) = peer_view c s @ [Sent c (result_msg False)]"
    unfolding r_def by (rule reject_ok(2) [OF assms(2)])
  ultimately show "\<exists>a b. fst (except E env c ip e s) = Rejecting ip None a b True"
    and "peer_view c (snd (except E env c ip e s)) = peer_view c s @ [Sent c (result_msg False)]"
    using assms(1) by (cases r; auto simp: except_def r_def [symmetric] ordinary_def)+
qed

text \<open>The nonce of a frame that would be accepted as the response of device \<open>d\<close>.\<close>

definition accepted_nonce :: "('sk, 'pk) ext \<Rightarrow> env \<Rightarrow> device \<Rightarrow> frame \<Rightarrow> 'sk service \<Rightarrow> string option" where
  "accepted_nonce E env d f s =
     (case recv_json f of
        Inl e \<Rightarrow> None
      | Inr resp \<Rightarrow>
          if jget resp ''type'' = JStr ''response''
             \<and> fst (check_response E env d (jget resp ''nonce'') (jget resp ''signature'') s) = Inr None
          then (case jget resp ''nonce'' of JStr n \<Rightarrow> Some n | _ \<Rightarrow> None) else None)"

lemma recv_json_Inl: "recv_json f = Inl e \<Longrightarrow> f \<noteq> Disconnected \<Longrightarrow> ordinary e"
  by (auto simp: recv_json_def split: frame.splits option.splits json.splits)

lemma peer_view_check [simp]: "peer_view c (snd (check_response E env d n sg s)) = peer_view c s"
  by (simp add: peer_view_def)

lemma not_accepted_rejected:
  assumes "disk_ok env" "ext_ordinary E" "f \<noteq> Disconnected" "accepted_nonce E env d f s = None"
  shows "peer_view c (snd (handle_frame E env c (AwaitResponse ip d) f s)) = peer_view c s @ [Sent c (result_msg False)]
    \<and> (\<exists>did a b n. fst (handle_frame E env c (AwaitResponse ip d) f s) = Rejecting ip did a b n)"
proof (cases "recv_json f")
  case (Inl e)
  then have "ordinary e" using assms(3) by (rule recv_json_Inl)
  with Inl except_ordinary [OF _ assms(1), where e = e and E = E and c = c and ip = ip and s = s] show ?thesis
    by (simp add: handle_frame_def on_response_def guarded_def) blast
next
  case (Inr resp)
  have rej: "peer_view c (snd (guarded E env c ip (reject E env c ip did reason False s'))) = peer_view c s' @ [Sent c (result_msg False)]
    \<and> (\<exists>x a b n. fst (guarded E env c ip (reject E env c ip did reason False s')) = Rejecting ip x a b n)" for did reason s'
    using reject_ok [OF assms(1), where E = E and c = c and ip = ip and did = did and reason = reason and nested = False and s = s']
    by (cases "reject E env c ip did reason False s'") (auto simp: guarded_def)
  show ?thesis
  proof (cases "jget resp ''type'' = JStr ''response''")
    case False
    with Inr rej show ?thesis by (simp add: handle_frame_def on_response_def)
  next
    case True
    obtain r s' where r: "check_response E env d (jget resp ''nonce'') (jget resp ''signature'') s = (r, s')"
      by (cases "check_response E env d (jget resp ''nonce'') (jget resp ''signature'') s")
    have pv: "peer_view c s' = peer_view c s"
      using peer_view_check [of c E env d "jget resp ''nonce''" "jget resp ''signature''" s] r by simp
    show ?thesis
    proof (cases r)
      case (Inl e)
      then have "ordinary e" using check_response_Inl [OF assms(2)] r by (metis fst_conv)
      with Inl Inr True r pv except_ordinary [OF _ assms(1), where e = e and E = E and c = c and ip = ip and s = s'] show ?thesis
        by (simp add: handle_frame_def on_response_def guarded_def) blast
    next
      case r': (Inr x)
      have "x \<noteq> None"
      proof
        assume "x = None"
        then have "fst (check_response E env d (jget resp ''nonce'') (jget resp ''signature'') s) = Inr None"
          using r r' by simp
        moreover from this obtain n where "jget resp ''nonce'' = JStr n"
          unfolding check_response_accepts by blast
        ultimately show False using assms(4) Inr True by (simp add: accepted_nonce_def)
      qed
      then obtain y where "x = Some y" by blast
      with r' Inr True r pv rej show ?thesis
        by (simp add: handle_frame_def on_response_def)
    qed
  qed
qed

text \<open>
  C27.  There is no oracle: a response that is not accepted is answered with one and the same
  message and nothing else, whatever was wrong with it --- a malformed or binary frame, a
  time-out, a bad type, an unknown, replayed, foreign or expired nonce, a bad signature, or an
  exception while checking.
\<close>

theorem rejections_look_alike:
  assumes "disk_ok env" and "ext_ordinary E" and "f \<noteq> Disconnected" and "accepted_nonce E env d f s = None"
  shows "peer_view c (snd (handle_frame E env c (AwaitResponse ip d) f s)) = peer_view c s @ [Sent c (result_msg False)]"
  using not_accepted_rejected [OF assms] by blast

lemma ext_ordinary_toy [simp]: "ext_ordinary toy_ext"
  by (simp add: ext_ordinary_def toy_ext_def ordinary_def is_exception_def)

lemma rejections_look_alike_witness:
  "peer_view 1 (snd (handle_frame toy_ext (toy_env 3) 1 (AwaitResponse ''ip'' toy_device) TimedOut toy_service))
    = [Sent 1 (result_msg False)]"
  using rejections_look_alike [of "toy_env 3" toy_ext TimedOut toy_device toy_service 1 "''ip''"]
  by (simp add: toy_env_def accepted_nonce_def recv_json_def peer_view_def toy_service_def new_service_def Let_def)

section \<open>The accepted response\<close>

lemma accepted_authorizes:
  assumes "accepted_nonce E env d f s = Some n"
  shows "on_response E env c ip d f s = authorize E env c ip (dev_id d) (s\<lparr>pending := AList.delete n (pending s)\<rparr>)"
proof -
  obtain resp where r: "recv_json f = Inr resp" and t: "jget resp ''type'' = JStr ''response''"
    and a: "fst (check_response E env d (jget resp ''nonce'') (jget resp ''signature'') s) = Inr None"
    and n: "jget resp ''nonce'' = JStr n"
    using assms by (auto simp: accepted_nonce_def split: sum.splits if_splits json.splits)
  from a n have "NONCE_RE n" by (auto simp: check_response_accepts)
  with n have "snd (check_response E env d (jget resp ''nonce'') (jget resp ''signature'') s)
      = s\<lparr>pending := AList.delete n (pending s)\<rparr>"
    by (simp add: check_response_state)
  with a have "check_response E env d (jget resp ''nonce'') (jget resp ''signature'') s
      = (Inr None, s\<lparr>pending := AList.delete n (pending s)\<rparr>)"
    by (metis prod.collapse)
  with r t show ?thesis by (simp add: on_response_def)
qed

definition authorized_state :: "env \<Rightarrow> string \<Rightarrow> string \<Rightarrow> string \<Rightarrow> 'sk service \<Rightarrow> 'sk service" where
  "authorized_state env ip did n s =
     s\<lparr>pending := AList.delete n (pending s), ip_backoff := success (ip_backoff s) ip,
       dev_backoff := success (dev_backoff s) did, sv_broker := issue (mono env) (sv_broker s)\<rparr>"

definition authorized_data :: "string \<Rightarrow> string \<Rightarrow> 'sk service \<Rightarrow> (string \<times> json) list" where
  "authorized_data ip did s = [(''ip'', JStr ip), (''device'', JStr did), (''target'', JStr (target_id (cfg s)))]"

lemma authorize_eq:
  "authorize E env c ip did (s\<lparr>pending := AList.delete n (pending s)\<rparr>) =
    bindS (record_event E env ''unlock_authorized'' (Some ''Unlock AUTHORIZED'') ''high'' [''unlock'']
             (authorized_data ip did s))
      (\<lambda>_ s. (Inr Leaving, emit (Sent c (result_msg True)) s)) (authorized_state env ip did n s)"
  by (simp add: authorize_def authorized_state_def authorized_data_def Let_def)

lemma accepted_effects:
  assumes "accepted_nonce E env d f s = Some n" and "disk_ok env"
  shows "\<exists>l body. handle_frame E env c (AwaitResponse ip d) f s =
    (Leaving, (authorized_state env ip (dev_id d) n s)\<lparr>audit := l,
       out := out s @ [Audited ''unlock_authorized'' (authorized_data ip (dev_id d) s),
                       Alerted ''Unlock AUTHORIZED'' body ''high'' [''unlock''], Sent c (result_msg True)]\<rparr>)"
proof -
  let ?s = "authorized_state env ip (dev_id d) n s"
  let ?data = "authorized_data ip (dev_id d) s"
  obtain sq hs l where "record_event E env ''unlock_authorized'' (Some ''Unlock AUTHORIZED'') ''high'' [''unlock''] ?data ?s
      = (Inr (sq, hs), ?s\<lparr>audit := l, out := out ?s @ Audited ''unlock_authorized'' ?data #
          alert_of (Some ''Unlock AUTHORIZED'') E ''high'' [''unlock''] ?data sq hs\<rparr>)"
    by (rule record_event_ok [OF assms(2)])
  then show ?thesis
    by (simp add: handle_frame_def accepted_authorizes [OF assms(1)] authorize_eq guarded_def emit_def alert_of_def authorized_state_def)
      (rule exI [of _ l], rule exI, rule refl)
qed

text \<open>
  An accepted response clears the failures of its address and device, issues a grant and is
  written to the audit log, and an alert is raised, before the peer learns of it; nothing else
  is sent, the nonce is spent and the connection ends.
\<close>

theorem accepted_response_effects:
  assumes "accepted_nonce E env d f s = Some n" and "disk_ok env"
  shows "\<exists>l body. handle_frame E env c (AwaitResponse ip d) f s =
    (Leaving, (authorized_state env ip (dev_id d) n s)\<lparr>audit := l,
       out := out s @ [Audited ''unlock_authorized'' (authorized_data ip (dev_id d) s),
                       Alerted ''Unlock AUTHORIZED'' body ''high'' [''unlock''], Sent c (result_msg True)]\<rparr>)"
  using assms by (rule accepted_effects)

text \<open>A frame that is accepted by the toy instance.\<close>

definition toy_nonce :: string where
  "toy_nonce = replicate 32 (CHR ''a'')"

definition toy_pending_service :: "nat service" where
  "toy_pending_service = toy_service\<lparr>pending := [(toy_nonce, (''phone1'', 1, 1000))]\<rparr>"

definition toy_response :: json where
  "toy_response = JObj [(''type'', JStr ''response''), (''nonce'', JStr toy_nonce),
     (''signature'', JStr (sign toy_ext 5 (PROTO @ ''|response|'' @ toy_nonce @ ''|1000|phone1|laptop|unlock'')))]"

definition toy_frame :: frame where
  "toy_frame = Text (dumps (\<lambda>_. []) default_style toy_response)"

lemma toy_frame_json: "recv_json toy_frame = Inr [(''type'', JStr ''response''), (''nonce'', JStr toy_nonce),
     (''signature'', JStr (sign toy_ext 5 (PROTO @ ''|response|'' @ toy_nonce @ ''|1000|phone1|laptop|unlock'')))]"
proof -
  have "loads (dumps (\<lambda>_. []) default_style toy_response) = Some toy_response"
    by (subst loads_dumps) (simp_all add: toy_response_def sorted_items_def dict_ok_def)
  then show ?thesis by (simp add: recv_json_def toy_frame_def toy_response_def)
qed

lemma toy_message:
  "signed_message ''response'' toy_nonce 1000 ''phone1'' ''laptop'' =
    Inr (PROTO @ ''|response|'' @ toy_nonce @ ''|1000|phone1|laptop|unlock'')"
  by code_simp

lemma toy_key: "load_public_key toy_ext ''BEGIN'' = Inr 5"
  by code_simp

lemma toy_accepted: "accepted_nonce toy_ext (toy_env 3) toy_device toy_frame toy_pending_service = Some toy_nonce"
proof -
  let ?m = "PROTO @ ''|response|'' @ toy_nonce @ ''|1000|phone1|laptop|unlock''"
  have "verify_sig toy_ext 5 ?m (JStr (sign toy_ext 5 ?m)) = Inr True"
    by code_simp
  moreover have "NONCE_RE toy_nonce" by (simp add: toy_nonce_def)
  ultimately have "fst (check_response toy_ext (toy_env 3) toy_device (JStr toy_nonce) (JStr (sign toy_ext 5 ?m)) toy_pending_service) = Inr None"
    unfolding check_response_accepts using toy_message toy_key
    by (simp add: toy_pending_service_def toy_device_def toy_env_def toy_service_def new_service_def toy_config_def Let_def)
  then show ?thesis
    by (simp add: accepted_nonce_def toy_frame_json jget_def)
qed

lemma accepted_response_effects_witness:
  "fst (handle_frame toy_ext (toy_env 3) 1 (AwaitResponse ''ip'' toy_device) toy_frame toy_pending_service) = Leaving
    \<and> peer_view 1 (snd (handle_frame toy_ext (toy_env 3) 1 (AwaitResponse ''ip'' toy_device) toy_frame toy_pending_service))
        = [Sent 1 (result_msg True)]"
proof -
  have "disk_ok (toy_env 3)" by (simp add: toy_env_def)
  from accepted_response_effects [OF toy_accepted this, of 1 "''ip''"] show ?thesis
    by (auto simp: peer_view_def toy_pending_service_def toy_service_def new_service_def Let_def)
qed

text \<open>
  C35.  Success is not all or nothing.  The grant is issued before the audit log is written: when
  that write fails, the connection ends without a word to the peer, nothing has reached the
  audit log and no alert is raised, and yet the grant is live for \<open>grant_ttl\<close> seconds.
\<close>

theorem grant_survives_failed_audit:
  assumes "accepted_nonce E env d f s = Some n" and "\<not> disk_ok env"
  shows "fst (handle_frame E env c (AwaitResponse ip d) f s) = Leaving
    \<and> out (snd (handle_frame E env c (AwaitResponse ip d) f s)) = out s
    \<and> expires (sv_broker (snd (handle_frame E env c (AwaitResponse ip d) f s))) = mono env + ttl (sv_broker s)"
proof -
  let ?s = "authorized_state env ip (dev_id d) n s"
  obtain l where "record_event E env ''unlock_authorized'' (Some ''Unlock AUTHORIZED'') ''high'' [''unlock'']
      (authorized_data ip (dev_id d) s) ?s = (Inl OSError, ?s\<lparr>audit := l\<rparr>)"
    by (rule record_event_failed [OF assms(2)])
  then have 1: "on_response E env c ip d f s = (Inl OSError, ?s\<lparr>audit := l\<rparr>)"
    by (simp add: accepted_authorizes [OF assms(1)] authorize_eq)
  obtain a b s1 where c: "count_failure env ip None (?s\<lparr>audit := l\<rparr>) = (a, b, s1)"
    using prod_cases3 by blast
  then have "s1 = snd (snd (count_failure env ip None (?s\<lparr>audit := l\<rparr>)))" by simp
  then have s1: "out s1 = out s" "sv_broker s1 = issue (mono env) (sv_broker s)"
    by (simp_all add: authorized_state_def)
  obtain l' where "record_event E env ''unlock_rejected'' (Some ''Unlock REJECTED'') ''urgent'' [''warning'']
      [(''ip'', JStr ip), (''device'', opt_str None), (''reason'', JStr ''internal_error'')] s1 = (Inl OSError, s1\<lparr>audit := l'\<rparr>)"
    by (rule record_event_failed [OF assms(2)])
  then have "except E env c ip OSError (?s\<lparr>audit := l\<rparr>) = (Leaving, s1\<lparr>audit := l'\<rparr>)"
    using c by (simp add: except_def is_exception_def malformed_or_late_def is_value_error_def is_runtime_error_def reject_def)
  with 1 s1 show ?thesis by (simp add: handle_frame_def guarded_def issue_def)
qed

lemma check_response_disk: "check_response E (env\<lparr>disk_ok := b\<rparr>) = check_response E env"
  by (rule ext)+ (simp add: check_response_def Let_def split: json.split option.split)

lemma grant_survives_failed_audit_witness:
  "live (sv_broker (snd (handle_frame toy_ext ((toy_env 3)\<lparr>disk_ok := False\<rparr>) 1 (AwaitResponse ''ip'' toy_device) toy_frame toy_pending_service))) 22"
proof -
  have "accepted_nonce toy_ext ((toy_env 3)\<lparr>disk_ok := False\<rparr>) toy_device toy_frame toy_pending_service = Some toy_nonce"
    using toy_accepted unfolding accepted_nonce_def check_response_disk .
  from grant_survives_failed_audit [OF this, of 1 "''ip''"] show ?thesis
    by (simp add: live_def toy_env_def toy_pending_service_def toy_service_def new_service_def Let_def new_broker_def toy_config_def)
qed

section \<open>Lockouts in the service\<close>

lemma locked_false: "remaining (if kind = ''ip'' then ip_backoff s else dev_backoff s) key (mono env) = 0
    \<Longrightarrow> locked E env key kind s = (Inr False, s)"
  by (simp add: locked_def Let_def)

lemma locked_Inr_False:
  assumes "locked E env key kind s = (Inr False, s')"
  shows "s' = s \<and> remaining (if kind = ''ip'' then ip_backoff s else dev_backoff s) key (mono env) = 0"
proof (cases "0 < remaining (if kind = ''ip'' then ip_backoff s else dev_backoff s) key (mono env)")
  case True
  with assms show ?thesis
    by (auto simp: locked_def Let_def bindS_def split: if_splits prod.splits sum.splits)
next
  case False
  then have "remaining (if kind = ''ip'' then ip_backoff s else dev_backoff s) key (mono env) = 0"
    using remaining_nonneg [of "if kind = ''ip'' then ip_backoff s else dev_backoff s" key "mono env"] by simp
  with assms show ?thesis by (simp add: locked_false)
qed

lemma locked_true:
  assumes "0 < remaining (if kind = ''ip'' then ip_backoff s else dev_backoff s) key (mono env)" "disk_ok env"
  shows "\<exists>la l xs. locked E env key kind s = (Inr True, s\<lparr>last_lock_audit := la, audit := l, out := out s @ xs\<rparr>)
    \<and> filter (peer_sees c) xs = []"
proof (cases "mono env - (case map_of (last_lock_audit s) (kind, key) of Some t \<Rightarrow> t | None \<Rightarrow> 0) > 10")
  case True
  let ?s = "s\<lparr>last_lock_audit := AList.update (kind, key) (mono env) (last_lock_audit s)\<rparr>"
  let ?data = "[(''kind'', JStr kind), (''key'', JStr key),
    (''seconds_left'', JInt (py_trunc (remaining (if kind = ''ip'' then ip_backoff s else dev_backoff s) key (mono env))))]"
  obtain sq hs l where a: "append_audit E env ''attempt_during_lockout'' ?data ?s
      = (Inr (sq, hs), emit (Audited ''attempt_during_lockout'' ?data) (?s\<lparr>audit := l\<rparr>))"
    by (rule append_audit_ok [OF assms(2)])
  have "locked E env key kind s = (Inr True, ?s\<lparr>audit := l, out := out s @ [Audited ''attempt_during_lockout'' ?data]\<rparr>)"
    using assms(1) True a by (simp add: locked_def Let_def emit_def)
  then show ?thesis by (auto intro!: exI [of _ l] exI [of _ "[Audited ''attempt_during_lockout'' ?data]"])
next
  case False
  then have "locked E env key kind s = (Inr True, s\<lparr>last_lock_audit := last_lock_audit s, audit := audit s, out := out s @ []\<rparr>)"
    using assms(1) by (simp add: locked_def Let_def)
  then show ?thesis by (metis filter.simps(1))
qed

text \<open>
  A locked-out address gets nothing: its connection is closed with code 1008 before its
  certificate is looked at or a frame is read.  No challenge is issued, no grant, no counter
  moves; at most the audit log grows.
\<close>

theorem locked_address_refused:
  assumes "0 < remaining (ip_backoff s) ip (mono env)" and "active s < max_connections (cfg s)" and "disk_ok env"
  shows "\<exists>la l xs. handle E env None c (Some ip) der s =
      (Some Leaving, s\<lparr>active := active s + 1, last_lock_audit := la, audit := l, out := out s @ xs @ [Closed c 1008]\<rparr>)
    \<and> filter (peer_sees c) xs = []"
proof -
  have "0 < remaining (if ''ip'' = ''ip'' then ip_backoff (s\<lparr>active := active s + 1\<rparr>) else dev_backoff (s\<lparr>active := active s + 1\<rparr>)) ip (mono env)"
    using assms(1) by simp
  from locked_true [OF this assms(3), of E c] obtain la l xs where
    "locked E env ip ''ip'' (s\<lparr>active := active s + 1\<rparr>)
      = (Inr True, s\<lparr>active := active s + 1, last_lock_audit := la, audit := l, out := out s @ xs\<rparr>)"
    and "filter (peer_sees c) xs = []" by auto
  then show ?thesis
    using assms(2) by (auto simp: handle_def Let_def session_start_def guarded_def emit_def)
qed

lemma locked_address_refused_witness:
  "peer_view 1 (snd (handle toy_ext (toy_env 3) None 1 (Some ''ip'') None
     (toy_service\<lparr>ip_backoff := fst (fail (new_backoff 1 30 3600) ''ip'' 2)\<rparr>))) = [Closed 1 1008]"
proof -
  let ?s = "toy_service\<lparr>ip_backoff := fst (fail (new_backoff 1 30 3600) ''ip'' 2)\<rparr>"
  have "0 < remaining (ip_backoff ?s) ''ip'' (mono (toy_env 3))"
    by (simp add: toy_env_def fail_def new_backoff_def remaining_def store_def)
  moreover have "active ?s < max_connections (cfg ?s)" "disk_ok (toy_env 3)" "out ?s = []"
    by (simp_all add: toy_service_def new_service_def toy_config_def toy_env_def Let_def)
  ultimately show ?thesis
    using locked_address_refused [of ?s "''ip''" "toy_env 3" toy_ext 1 None] by (auto simp: peer_view_def)
qed

lemma reject_Inr: "reject E env c ip did reason nested s = (Inr ph, s') \<Longrightarrow> \<not> waiting ph"
  by (auto simp: reject_def bindS_def split: prod.splits sum.splits)

lemma except_phase: "\<not> waiting (fst (except E env c ip e s))"
  by (auto simp: except_def split: prod.splits sum.splits if_splits dest: reject_Inr)

section \<open>Admission and challenges\<close>

lemma guarded_waiting: "guarded E env c ip r = (ph, s') \<Longrightarrow> waiting ph \<Longrightarrow> r = (Inr ph, s')"
  using except_phase [of E env c ip] by (auto simp: guarded_def split: prod.splits sum.splits) (metis fst_conv)

lemma session_start_hello:
  assumes "session_start E env c ip der s = (Inr (AwaitHello ip' cd), s')"
  shows "s' = s \<and> ip' = ip \<and> remaining (ip_backoff s) ip (mono env) = 0 \<and> (require_mtls (cfg s) \<longrightarrow> cd \<noteq> None)
    \<and> (\<forall>d. cd = Some d \<longrightarrow> d \<in> set (devices (cfg s)) \<and> enabled d \<and> (\<exists>x. der = Some x \<and> cert_sha256 d = sha256 E x))"
proof -
  obtain l s1 where l: "locked E env ip ''ip'' s = (Inr l, s1)"
    and r: "(if l then (Inr Leaving, emit (Closed c 1008) s1)
      else let cert_device = (case der of None \<Rightarrow> None
                 | Some d \<Rightarrow> if d \<noteq> [] then device_by_fp (devices (cfg s1)) (sha256 E d) else None)
           in if require_mtls (cfg s1) \<and> cert_device = None
              then reject E env c ip None ''no_registered_client_certificate'' False s1
              else (Inr (AwaitHello ip cert_device), s1)) = (Inr (AwaitHello ip' cd), s')"
    using assms unfolding session_start_def by (rule bindS_InrE)
  from r have "l = False" by (auto split: if_splits)
  with l have "s1 = s" "remaining (ip_backoff s) ip (mono env) = 0" using locked_Inr_False [of E env ip "''ip''" s s1] by simp_all
  with r \<open>l = False\<close> show ?thesis
    by (auto simp: Let_def split: if_splits option.splits dest: reject_Inr device_by_fp_Some)
qed

lemma on_hello_response:
  assumes "on_hello E env c ip cd f s = (Inr (AwaitResponse ip' d), s')"
  shows "\<exists>hello ch. recv_json f = Inr hello \<and> jget hello ''type'' = JStr ''hello'' \<and> jget hello ''device_id'' = JStr (dev_id d)
    \<and> (cd = Some d \<or> cd = None \<and> device_by_id (devices (cfg s)) (dev_id d) = Some d)
    \<and> remaining (dev_backoff s) (dev_id d) (mono env) = 0 \<and> ip' = ip
    \<and> fst (issue_challenge E env (dev_id d) s) = Inr ch \<and> s' = emit (Sent c (JObj ch)) (snd (issue_challenge E env (dev_id d) s))"
proof -
  obtain hello where h: "recv_json f = Inr hello" using assms by (cases "recv_json f") (simp_all add: on_hello_def)
  have no: "reject E env c ip x y False s \<noteq> (Inr (AwaitResponse ip' d), s')" for x y
    by (auto dest: reject_Inr)
  show ?thesis
  proof (cases "jget hello ''type'' = JStr ''hello''")
    case False
    with assms h no show ?thesis by (simp add: on_hello_def)
  next
    case True
    obtain hid where hid: "jget hello ''device_id'' = JStr hid"
      using assms h True no by (cases "jget hello ''device_id''") (simp_all add: on_hello_def)
    obtain dev where dev: "(case cd of Some d \<Rightarrow> Some d | None \<Rightarrow> device_by_id (devices (cfg s)) hid) = Some dev"
      using assms h True hid no
      by (cases "case cd of Some d \<Rightarrow> Some d | None \<Rightarrow> device_by_id (devices (cfg s)) hid") (simp_all add: on_hello_def)
    have id: "dev_id dev = hid" using assms h True hid dev no by (auto simp: on_hello_def split: if_splits)
    have "bindS (locked E env (dev_id dev) ''device'')
        (\<lambda>l s. if l then (Inr Leaving, emit (Closed c 1008) s)
               else bindS (issue_challenge E env (dev_id dev))
                      (\<lambda>ch s. (Inr (AwaitResponse ip dev), emit (Sent c (JObj ch)) s)) s) s = (Inr (AwaitResponse ip' d), s')"
      using assms h True hid dev id by (simp add: on_hello_def)
    then obtain l s1 where l: "locked E env (dev_id dev) ''device'' s = (Inr l, s1)"
      and r: "(if l then (Inr Leaving, emit (Closed c 1008) s1)
               else bindS (issue_challenge E env (dev_id dev))
                      (\<lambda>ch s. (Inr (AwaitResponse ip dev), emit (Sent c (JObj ch)) s)) s1) = (Inr (AwaitResponse ip' d), s')"
      by (rule bindS_InrE)
    from r have "\<not> l" by (auto split: if_splits)
    with l have s1: "s1 = s" "remaining (dev_backoff s) (dev_id dev) (mono env) = 0"
      using locked_Inr_False [of E env "dev_id dev" "''device''" s s1] by simp_all
    from r \<open>\<not> l\<close> obtain ch s2 where ch: "issue_challenge E env (dev_id dev) s1 = (Inr ch, s2)"
      and "(Inr (AwaitResponse ip dev), emit (Sent c (JObj ch)) s2) = (Inr (AwaitResponse ip' d), s')"
      by (auto elim: bindS_InrE)
    with h True hid dev id s1 show ?thesis by (auto split: option.splits)
  qed
qed

lemma issue_challenge_Inr:
  assumes "fst (issue_challenge E env did s) = Inr ch"
  shows "\<exists>msg. signed_message ''challenge'' (token env) (py_trunc (wall env * 1000)) did (target_id (cfg s)) = Inr msg
    \<and> ch = [(''type'', JStr ''challenge''), (''nonce'', JStr (token env)), (''issued_ms'', JInt (py_trunc (wall env * 1000))),
            (''target_id'', JStr (target_id (cfg s))), (''server_sig'', JStr (sign E (signing_key s) msg))]
    \<and> map_of (pending (snd (issue_challenge E env did s))) (token env) = Some (did, mono env, py_trunc (wall env * 1000))"
  using assms by (auto simp: issue_challenge_def Let_def update_conv' split: if_splits sum.splits)

text \<open>
  A challenge goes only to a peer that may get one: when a connection comes to wait for a
  response, its hello named the device of its client certificate --- or, without one, an enabled
  registered device --- that device is not locked out, the challenge carries the service's
  signature over its nonce, issue time, device and target, and exactly that nonce is now
  pending for that device.
\<close>

theorem challenge_only_for_named_device:
  assumes "handle_frame E env c (AwaitHello ip cd) f s = (AwaitResponse ip' d, s')"
  shows "\<exists>hello msg. recv_json f = Inr hello \<and> jget hello ''device_id'' = JStr (dev_id d)
    \<and> (cd = Some d \<or> cd = None \<and> d \<in> set (devices (cfg s)) \<and> enabled d)
    \<and> remaining (dev_backoff s) (dev_id d) (mono env) = 0
    \<and> signed_message ''challenge'' (token env) (py_trunc (wall env * 1000)) (dev_id d) (target_id (cfg s)) = Inr msg
    \<and> map_of (pending s') (token env) = Some (dev_id d, mono env, py_trunc (wall env * 1000))
    \<and> peer_view c s' = peer_view c s @ [Sent c (JObj [(''type'', JStr ''challenge''), (''nonce'', JStr (token env)),
        (''issued_ms'', JInt (py_trunc (wall env * 1000))), (''target_id'', JStr (target_id (cfg s))),
        (''server_sig'', JStr (sign E (signing_key s) msg))])]"
proof -
  have "on_hello E env c ip cd f s = (Inr (AwaitResponse ip' d), s')"
    using assms by (auto simp: handle_frame_def intro: guarded_waiting)
  from on_hello_response [OF this] obtain hello ch where h: "recv_json f = Inr hello" "jget hello ''device_id'' = JStr (dev_id d)"
    "cd = Some d \<or> cd = None \<and> device_by_id (devices (cfg s)) (dev_id d) = Some d" "remaining (dev_backoff s) (dev_id d) (mono env) = 0"
    and ch: "fst (issue_challenge E env (dev_id d) s) = Inr ch"
    and s': "s' = emit (Sent c (JObj ch)) (snd (issue_challenge E env (dev_id d) s))" by blast
  from issue_challenge_Inr [OF ch] h s' show ?thesis
    by (auto simp: peer_view_def dest: device_by_id_Some)
qed

lemma hello_phase:
  assumes "handle_frame E env c (AwaitHello ip cd) f s = (ph, s')" "waiting ph"
  shows "\<exists>d. ph = AwaitResponse ip d \<and> (cd = Some d \<or> cd = None \<and> d \<in> set (devices (cfg s)) \<and> enabled d)"
proof -
  have o: "on_hello E env c ip cd f s = (Inr ph, s')"
    using assms by (auto simp: handle_frame_def intro: guarded_waiting)
  then have "\<exists>d. ph = AwaitResponse ip d"
    using assms(2) by (auto simp: on_hello_def dest: reject_Inr elim!: bindS_InrE
        split: sum.splits bool.splits json.splits option.splits if_splits)
  with on_hello_response o show ?thesis by (blast dest: device_by_id_Some)
qed

lemma response_phase: "\<not> waiting (fst (handle_frame E env c (AwaitResponse ip d) f s))"
proof
  obtain ph s' where Pair: "handle_frame E env c (AwaitResponse ip d) f s = (ph, s')"
    by (cases "handle_frame E env c (AwaitResponse ip d) f s")
  assume "waiting (fst (handle_frame E env c (AwaitResponse ip d) f s))"
  with Pair have w: "waiting ph" by simp
  with Pair have "on_response E env c ip d f s = (Inr ph, s')"
    by (auto simp: handle_frame_def intro: guarded_waiting)
  with w show False
    by (auto simp: on_response_def authorize_def Let_def dest: reject_Inr elim!: bindS_InrE
        split: sum.splits option.splits if_splits)
qed

definition toy_hello :: frame where
  "toy_hello = Text (dumps (\<lambda>_. []) default_style (JObj [(''type'', JStr ''hello''), (''device_id'', JStr ''phone1'')]))"

lemma toy_hello_json: "recv_json toy_hello = Inr [(''type'', JStr ''hello''), (''device_id'', JStr ''phone1'')]"
proof -
  have "loads (dumps (\<lambda>_. []) default_style (JObj [(''type'', JStr ''hello''), (''device_id'', JStr ''phone1'')]))
      = Some (JObj [(''type'', JStr ''hello''), (''device_id'', JStr ''phone1'')])"
    by (subst loads_dumps) (simp_all add: sorted_items_def dict_ok_def)
  then show ?thesis by (simp add: recv_json_def toy_hello_def)
qed

lemma toy_challenge: "\<exists>ch. fst (issue_challenge toy_ext (toy_env 1) ''phone1'' (toy_service\<lparr>active := n\<rparr>)) = Inr ch"
proof -
  have "signed_message ''challenge'' (replicate 32 (CHR ''a'')) 1000 ''phone1'' ''laptop'' =
      Inr (PROTO @ ''|challenge|'' @ replicate 32 (CHR ''a'') @ ''|1000|phone1|laptop|unlock'')"
    by code_simp
  moreover have "py_trunc 1000 = 1000" using py_trunc_of_int [of 1000] by simp
  ultimately show ?thesis
    by (auto simp: issue_challenge_def Let_def toy_env_def toy_service_def new_service_def toy_config_def
        dict_keep_def MAX_PENDING_def)
qed

lemma toy_hello_response_active:
  "fst (handle_frame toy_ext (toy_env 1) 1 (AwaitHello ''ip'' (Some toy_device)) toy_hello (toy_service\<lparr>active := n\<rparr>)) = AwaitResponse ''ip'' toy_device"
proof -
  obtain ch s' where "issue_challenge toy_ext (toy_env 1) ''phone1'' (toy_service\<lparr>active := n\<rparr>) = (Inr ch, s')"
    using toy_challenge by (metis prod.collapse)
  moreover have "locked toy_ext (toy_env 1) ''phone1'' ''device'' (toy_service\<lparr>active := n\<rparr>) = (Inr False, toy_service\<lparr>active := n\<rparr>)"
    by (rule locked_false) (simp add: toy_service_def new_service_def Let_def new_backoff_def remaining_def)
  ultimately show ?thesis
    by (simp add: handle_frame_def on_hello_def toy_hello_json jget_def guarded_def bindS_def)
qed

lemma toy_hello_response:
  "fst (handle_frame toy_ext (toy_env 1) 1 (AwaitHello ''ip'' (Some toy_device)) toy_hello toy_service) = AwaitResponse ''ip'' toy_device"
  using toy_hello_response_active [of 0] by (simp add: toy_service_def new_service_def Let_def)

lemma challenge_only_for_named_device_witness:
  "map_of (pending (snd (handle_frame toy_ext (toy_env 1) 1 (AwaitHello ''ip'' (Some toy_device)) toy_hello toy_service)))
     (replicate 32 (CHR ''a'')) = Some (''phone1'', 1, 1000)"
proof -
  obtain s' where s': "handle_frame toy_ext (toy_env 1) 1 (AwaitHello ''ip'' (Some toy_device)) toy_hello toy_service
      = (AwaitResponse ''ip'' toy_device, s')"
    using toy_hello_response by (metis prod.collapse)
  have "py_trunc 1000 = 1000" using py_trunc_of_int [of 1000] by simp
  with challenge_only_for_named_device [OF s'] show ?thesis
    unfolding s' by (auto simp: toy_env_def)
qed

lemma handle_phase:
  assumes "handle E env rl c ra der s = (Some ph, s')" "waiting ph"
  shows "active s < max_connections (cfg s)
    \<and> (let ip = (case ra of Some a \<Rightarrow> a | None \<Rightarrow> ''unknown'');
            s1 = (case rl of Some (Inr new) \<Rightarrow> s\<lparr>active := active s + 1, cfg := new\<rparr> | _ \<Rightarrow> s\<lparr>active := active s + 1\<rparr>)
        in session_start E env c ip der s1 = (Inr ph, s'))"
proof -
  let ?ip = "case ra of Some a \<Rightarrow> a | None \<Rightarrow> ''unknown''"
  let ?s1 = "case rl of Some (Inr new) \<Rightarrow> s\<lparr>active := active s + 1, cfg := new\<rparr> | _ \<Rightarrow> s\<lparr>active := active s + 1\<rparr>"
  have a: "active s < max_connections (cfg s)"
    using assms(1) by (auto simp: handle_def Let_def split: if_splits)
  have "rl \<noteq> Some (Inl e)" for e
    using assms a except_phase [of E env c ?ip e "s\<lparr>active := active s + 1\<rparr>"]
    by (auto simp: handle_def Let_def split: prod.splits)
  then have "guarded E env c ?ip (session_start E env c ?ip der ?s1) = (ph, s')"
    using assms(1) a by (auto simp: handle_def Let_def split: option.splits sum.splits prod.splits)
  from guarded_waiting [OF this assms(2)] a show ?thesis by (simp add: Let_def)
qed

lemma session_start_phase:
  assumes "session_start E env c ip der s = (Inr ph, s')" "waiting ph"
  shows "\<exists>cd. ph = AwaitHello ip cd"
  using assms unfolding session_start_def
  by (elim bindS_InrE) (auto simp: Let_def split: if_splits dest: reject_Inr)

lemma handle_admits:
  assumes "handle E env rl c ra der s = (Some (AwaitHello ip' cd), s')"
  shows "ip' = (case ra of Some a \<Rightarrow> a | None \<Rightarrow> ''unknown'') \<and> remaining (ip_backoff s) ip' (mono env) = 0
    \<and> active s < max_connections (cfg s) \<and> (require_mtls (cfg s') \<longrightarrow> cd \<noteq> None)
    \<and> (\<forall>d. cd = Some d \<longrightarrow> d \<in> set (devices (cfg s')) \<and> enabled d \<and> (\<exists>x. der = Some x \<and> cert_sha256 d = sha256 E x))"
proof -
  define ip where "ip = (case ra of Some a \<Rightarrow> a | None \<Rightarrow> ''unknown'')"
  define s1 where "s1 = (case rl of Some (Inr new) \<Rightarrow> s\<lparr>active := active s + 1, cfg := new\<rparr> | _ \<Rightarrow> s\<lparr>active := active s + 1\<rparr>)"
  have a: "active s < max_connections (cfg s)" "session_start E env c ip der s1 = (Inr (AwaitHello ip' cd), s')"
    using handle_phase [OF assms] by (simp_all add: ip_def s1_def Let_def)
  moreover have "ip_backoff s1 = ip_backoff s" by (simp add: s1_def split: option.split sum.split)
  ultimately show ?thesis using session_start_hello [OF a(2)] by (auto simp: ip_def)
qed

text \<open>
  C29.  Under mutual TLS an unregistered peer never gets as far as its first frame: a connection
  that comes to wait for a hello presented a certificate whose fingerprint is pinned to an enabled
  device of the configuration in force, and its address is not locked out.
\<close>

theorem mtls_peer_is_registered:
  assumes "handle E env rl c (Some ip) der s = (Some (AwaitHello ip' cd), s')" and "require_mtls (cfg s')"
  shows "\<exists>d x. cd = Some d \<and> d \<in> set (devices (cfg s')) \<and> enabled d \<and> der = Some x \<and> cert_sha256 d = sha256 E x
    \<and> remaining (ip_backoff s) ip (mono env) = 0 \<and> active s < max_connections (cfg s)"
  using handle_admits [OF assms(1)] assms(2) by auto

lemma mtls_peer_is_registered_witness:
  "handle toy_ext (toy_env 3) None 1 (Some ''ip'') (Some ''cert'') toy_service =
      (Some (AwaitHello ''ip'' (Some toy_device)), toy_service\<lparr>active := 1\<rparr>)
    \<and> sha256 toy_ext ''cert'' = ''4''"
proof -
  have fp: "sha256 toy_ext ''cert'' = ''4''" by code_simp
  have "locked toy_ext (toy_env 3) ''ip'' ''ip'' (toy_service\<lparr>active := 1\<rparr>) = (Inr False, toy_service\<lparr>active := 1\<rparr>)"
    by (rule locked_false) (simp add: toy_service_def new_service_def Let_def new_backoff_def remaining_def)
  then have h: "handle toy_ext (toy_env 3) None 1 (Some ''ip'') (Some ''cert'') toy_service =
      (Some (AwaitHello ''ip'' (Some toy_device)), toy_service\<lparr>active := 1\<rparr>)"
    using fp by (simp add: handle_def Let_def session_start_def bindS_def guarded_def toy_service_def new_service_def
        toy_config_def toy_device_def)
  moreover have "require_mtls (cfg (toy_service\<lparr>active := 1\<rparr>))"
    by (simp add: toy_service_def new_service_def toy_config_def Let_def)
  from mtls_peer_is_registered [OF h this] have "sha256 toy_ext ''cert'' = cert_sha256 toy_device" by auto
  ultimately show ?thesis by (simp add: toy_device_def)
qed

section \<open>The invariants of the service\<close>

lemma issue_challenge_out: "audit (snd (issue_challenge E env d s)) = audit s"
  by simp

interpretation pend: service_inv E env pending_ok for E :: "('sk, 'pk) ext" and env
proof
  fix s :: "'sk service" and d n sg did
  show "pending_ok s \<Longrightarrow> pending_ok (snd (issue_challenge E env did s))" by (rule pending_ok_issue)
  show "pending_ok s \<Longrightarrow> pending_ok (snd (check_response E env d n sg s))" by (rule pending_ok_check)
qed (simp_all add: pending_ok_def)

definition backoffs_ok :: "'sk service \<Rightarrow> bool" where
  "backoffs_ok s \<longleftrightarrow> wf_backoff (ip_backoff s) \<and> wf_backoff (dev_backoff s)"

interpretation offs: service_inv E env backoffs_ok for E :: "('sk, 'pk) ext" and env
  by unfold_locales (simp_all add: backoffs_ok_def wf_backoff_fail wf_backoff_success)

text \<open>The log stays verifiable as long as every write succeeds.\<close>

definition chain_ok :: "('sk, 'pk) ext \<Rightarrow> env \<Rightarrow> 'sk service \<Rightarrow> bool" where
  "chain_ok E env s \<longleftrightarrow> (disk_ok env \<longrightarrow> log_ok E (audit s))"

lemma log_ok_append_audit:
  assumes "disk_ok env" "log_ok E (audit s)" "plain (JObj data)"
  shows "log_ok E (audit (snd (append_audit E env event data s)))"
proof -
  obtain l r where a: "append_entry E True (stamp env) event data (audit s) = (l, r)"
    by (cases "append_entry E True (stamp env) event data (audit s)")
  with log_ok_append [OF assms(2,3), of "stamp env" event] have "log_ok E l" by simp
  with a assms(1) show ?thesis by (cases r) (simp_all add: append_audit_def emit_def split: prod.split)
qed

interpretation logged: service_inv E env "chain_ok E env" for E :: "('sk, 'pk) ext" and env
  by unfold_locales (simp_all add: chain_ok_def log_ok_append_audit del: plain.simps)

text \<open>The broker and the count of connections, which most operations leave alone.\<close>

interpretation brok: service_handle E env "\<lambda>s. sv_broker s = b" for E :: "('sk, 'pk) ext" and env b
  by unfold_locales simp_all

interpretation act: service_pam E env "\<lambda>s. active s = n" for E :: "('sk, 'pk) ext" and env n
  by unfold_locales simp_all

interpretation conf: service_pam E env "\<lambda>s. cfg s = x" for E :: "('sk, 'pk) ext" and env x
  by unfold_locales simp_all

text \<open>The PAM requests answered yes: no part of a connection adds one.\<close>

definition pam_yes :: "'sk service \<Rightarrow> nat set" where
  "pam_yes s = {c. PamReplied c True \<in> set (out s)}"

lemma pam_yes_append_audit [simp]: "pam_yes (snd (append_audit E env ev data s)) = pam_yes s"
  by (simp add: append_audit_def pam_yes_def emit_def split: prod.split sum.split)

lemma pam_yes_upd [simp]:
  "pam_yes (s\<lparr>last_lock_audit := la\<rparr>) = pam_yes s" "pam_yes (s\<lparr>ip_backoff := b\<rparr>) = pam_yes s"
  "pam_yes (s\<lparr>dev_backoff := b\<rparr>) = pam_yes s" "pam_yes (s\<lparr>sv_broker := k\<rparr>) = pam_yes s"
  "pam_yes (s\<lparr>active := n\<rparr>) = pam_yes s" "pam_yes (s\<lparr>cfg := x\<rparr>) = pam_yes s"
  "pam_yes (snd (issue_challenge E env d s)) = pam_yes s"
  "pam_yes (snd (check_response E env dv nc sg s)) = pam_yes s"
  by (simp_all add: pam_yes_def)

lemma pam_yes_emit: "(\<And>k ok. x \<noteq> PamReplied k ok) \<Longrightarrow> pam_yes (emit x s) = pam_yes s"
  by (auto simp: pam_yes_def)

lemma pam_yes_reply: "pam_yes (pam_reply c ok s) = (if ok then insert c (pam_yes s) else pam_yes s)"
  by (auto simp: pam_yes_def pam_reply_def)

interpretation yes: service_handle E env "\<lambda>s. pam_yes s = X" for E :: "('sk, 'pk) ext" and env X
  by unfold_locales (simp_all add: pam_yes_emit)

interpretation yes_frame: service_broker E env "\<lambda>s. pam_yes s = X" for E :: "('sk, 'pk) ext" and env X
  by unfold_locales (simp_all add: pam_yes_emit)

end
