(* ===== verification/System.thy ===== *)
theory System
  imports Service
begin

text \<open>
  The running service: connections and PAM requests as interleaved state machines over one
  \<open>UnlockService\<close>, as a step relation.  Every step is one stretch of code between two \<open>await\<close>s, with
  its own environment.  The theory proves what holds in every reachable state, and that the
  system refines the broker with its consumers (theory \<^verbatim>\<open>Grant\<close>), from which the central
  property follows: every PAM request that is answered yes is backed by a verified unlock of its own.
\<close>

section \<open>State and steps\<close>

text \<open>
  \<open>auths\<close> and \<open>pam_grants\<close> are records for the statements: the accepted responses with their
  time, connection, device and nonce; and the grants taken by PAM requests, with their time and
  the number of the accepted response that issued them.
\<close>

record 'sk system =
  sys_now :: time
  svc :: "'sk service"
  conns :: "nat \<rightharpoonup> sess"
  pams :: "nat \<rightharpoonup> pam"
  auths :: "(time \<times> nat \<times> string \<times> string) list"
  pam_grants :: "(nat \<times> time \<times> nat) list"

definition note_auth ::
  "('sk, 'pk) ext \<Rightarrow> env \<Rightarrow> nat \<Rightarrow> sess \<Rightarrow> frame \<Rightarrow> 'sk system \<Rightarrow> (time \<times> nat \<times> string \<times> string) list" where
  "note_auth E env c ph f s =
     (case ph of
        AwaitResponse ip d \<Rightarrow>
          (case accepted_nonce E env d f (svc s) of
             Some n \<Rightarrow> auths s @ [(mono env, c, dev_id d, n)]
           | None \<Rightarrow> auths s)
      | _ \<Rightarrow> auths s)"

text \<open>The request \<open>c\<close> has made a turn on the broker.\<close>

definition pam_moved :: "env \<Rightarrow> nat \<Rightarrow> turn \<Rightarrow> pam \<times> 'sk service \<Rightarrow> 'sk system \<Rightarrow> 'sk system" where
  "pam_moved env c t r s =
     s\<lparr>sys_now := mono env, svc := snd r, pams := (pams s)(c \<mapsto> fst r),
       pam_grants := (if t = Return True then (c, mono env, length (auths s) - 1) # pam_grants s else pam_grants s)\<rparr>"

text \<open>
  \<open>okc\<close> holds of every configuration that is loaded, \<open>oke\<close> of the environment of every step.
\<close>

inductive sstep :: "('sk, 'pk) ext \<Rightarrow> (config \<Rightarrow> bool) \<Rightarrow> (env \<Rightarrow> bool) \<Rightarrow> 'sk system \<Rightarrow> 'sk system \<Rightarrow> bool"
  for E okc oke where
  Open: "sys_now s \<le> mono env \<Longrightarrow> oke env \<Longrightarrow> conns s c = None \<Longrightarrow> (\<And>new. rl = Some (Inr new) \<Longrightarrow> okc new) \<Longrightarrow>
    r = handle E env rl c ra der (svc s) \<Longrightarrow>
    sstep E okc oke s (s\<lparr>sys_now := mono env, svc := snd r,
      conns := (case fst r of None \<Rightarrow> conns s | Some ph \<Rightarrow> (conns s)(c \<mapsto> ph))\<rparr>)"
| Frame: "sys_now s \<le> mono env \<Longrightarrow> oke env \<Longrightarrow> conns s c = Some ph \<Longrightarrow> waiting ph \<Longrightarrow>
    r = handle_frame E env c ph f (svc s) \<Longrightarrow>
    sstep E okc oke s (s\<lparr>sys_now := mono env, svc := snd r, conns := (conns s)(c \<mapsto> fst r),
      auths := note_auth E env c ph f s\<rparr>)"
| RejectionSent: "sys_now s \<le> mono env \<Longrightarrow> oke env \<Longrightarrow> conns s c = Some (Rejecting ip did a b n) \<Longrightarrow>
    r = handle_sent E env c (Rejecting ip did a b n) (svc s) \<Longrightarrow>
    sstep E okc oke s (s\<lparr>sys_now := mono env, svc := snd r, conns := (conns s)(c \<mapsto> fst r)\<rparr>)"
| Leave: "conns s c = Some Leaving \<Longrightarrow>
    sstep E okc oke s (s\<lparr>svc := leave (svc s), conns := (conns s)(c := None)\<rparr>)"
| PamOpen: "sys_now s \<le> mono env \<Longrightarrow> oke env \<Longrightarrow> pams s c = None \<Longrightarrow>
    r = pam_open E env c creds (svc s) \<Longrightarrow>
    sstep E okc oke s (s\<lparr>sys_now := mono env, svc := snd r, pams := (pams s)(c \<mapsto> fst r)\<rparr>)"
| PamRefuse: "sys_now s \<le> mono env \<Longrightarrow> oke env \<Longrightarrow> pams s c = Some (PamReading pid uid) \<Longrightarrow>
    pam_line E env c pid uid line (svc s) = (PamRefused, s1) \<Longrightarrow>
    sstep E okc oke s (s\<lparr>sys_now := mono env, svc := s1, pams := (pams s)(c \<mapsto> PamRefused)\<rparr>)"
| PamAsk: "sys_now s \<le> mono env \<Longrightarrow> oke env \<Longrightarrow> pams s c = Some (PamReading pid uid) \<Longrightarrow>
    pam_line E env c pid uid line (svc s) = (p, s1) \<Longrightarrow> p \<noteq> PamRefused \<Longrightarrow>
    t = snd (consume (pam_wait (cfg (svc s))) (mono env) (sv_broker (svc s))) \<Longrightarrow>
    sstep E okc oke s (pam_moved env c t (p, s1) s)"
| PamEnter: "pams s c = Some (PamReady user pid uid d) \<Longrightarrow>
    sstep E okc oke s (s\<lparr>svc := pam_enter c (svc s), pams := (pams s)(c \<mapsto> PamBlocked user pid uid d)\<rparr>)"
| PamWake: "sys_now s \<le> mono env \<Longrightarrow> oke env \<Longrightarrow> pams s c = Some (PamBlocked user pid uid d) \<Longrightarrow>
    c \<in> set (ev_woken (grant_event (sv_broker (svc s)))) \<Longrightarrow>
    t = snd (resume c d (mono env) (sv_broker (svc s))) \<Longrightarrow>
    sstep E okc oke s (pam_moved env c t (pam_resume E env c user pid uid d (svc s)) s)"
| PamTimeout: "sys_now s \<le> mono env \<Longrightarrow> oke env \<Longrightarrow>
    pams s c = Some (PamReady user pid uid d) \<or> pams s c = Some (PamBlocked user pid uid d) \<Longrightarrow> d \<le> mono env \<Longrightarrow>
    sstep E okc oke s (pam_moved env c (Return False) (pam_timeout E env c user pid uid (svc s)) s)"

definition sys_start :: "config \<Rightarrow> 'sk \<Rightarrow> audit_log \<Rightarrow> time \<Rightarrow> 'sk system" where
  "sys_start c key l t =
     \<lparr>sys_now = t, svc = new_service c key l, conns = Map.empty, pams = Map.empty, auths = [], pam_grants = []\<rparr>"

definition reach :: "('sk, 'pk) ext \<Rightarrow> (config \<Rightarrow> bool) \<Rightarrow> (env \<Rightarrow> bool) \<Rightarrow> 'sk system \<Rightarrow> 'sk system \<Rightarrow> bool" where
  "reach E okc oke = (sstep E okc oke)\<^sup>*\<^sup>*"

inductive_cases sstepE: "sstep E okc oke s s'"

text \<open>An invariant that holds at the start and is kept by every step holds in every reachable state.\<close>

lemma reach_invariant:
  assumes "reach E okc oke s0 s" "I s0" "\<And>s s'. reach E okc oke s0 s \<Longrightarrow> I s \<Longrightarrow> sstep E okc oke s s' \<Longrightarrow> I s'"
  shows "I s"
  using assms(1) unfolding reach_def
  by (induction rule: rtranclp_induct) (use assms(2,3) in \<open>auto simp: reach_def\<close>)

lemma pam_moved_sel [simp]:
  "sys_now (pam_moved env c t r s) = mono env" "svc (pam_moved env c t r s) = snd r"
  "conns (pam_moved env c t r s) = conns s" "pams (pam_moved env c t r s) = (pams s)(c \<mapsto> fst r)"
  "auths (pam_moved env c t r s) = auths s"
  by (simp_all add: pam_moved_def)

section \<open>The broker's part of every step\<close>

lemmas broker_kept [simp] =
  brok.P_record [OF refl] brok.P_reject [OF refl] brok.P_except [OF refl] brok.P_guarded [OF refl]
  brok.P_handle [OF refl] brok.P_handle_sent [OF refl] brok.P_on_hello [OF refl] brok.P_session_start [OF refl]

lemma broker_on_response:
  "sv_broker (snd (handle_frame E env c (AwaitResponse ip d) f s)) =
    (if accepted_nonce E env d f s = None then sv_broker s else issue (mono env) (sv_broker s))"
proof (cases "accepted_nonce E env d f s")
  case (Some n)
  let ?s = "authorized_state env ip (dev_id d) n s"
  have "sv_broker (snd (record_event E env ''unlock_authorized'' (Some ''Unlock AUTHORIZED'') ''high'' [''unlock'']
      (authorized_data ip (dev_id d) s) ?s)) = sv_broker ?s"
    by (rule broker_kept) (simp add: authorized_data_def dict_ok_def)
  then have "sv_broker (snd (on_response E env c ip d f s)) = issue (mono env) (sv_broker s)"
    by (simp add: accepted_authorizes [OF Some] authorize_eq bindS_def authorized_state_def split: prod.split sum.split)
      fastforce
  with Some show ?thesis by (simp add: handle_frame_def)
next
  case None
  have "sv_broker (snd (on_response E env c ip d f s)) = sv_broker s"
  proof (cases "recv_json f")
    case (Inl e)
    then show ?thesis by (simp add: on_response_def)
  next
    case (Inr resp)
    show ?thesis
    proof (cases "jget resp ''type'' = JStr ''response''")
      case True
      obtain r s1 where r: "check_response E env d (jget resp ''nonce'') (jget resp ''signature'') s = (r, s1)"
        by (cases "check_response E env d (jget resp ''nonce'') (jget resp ''signature'') s")
      have b: "sv_broker s1 = sv_broker s"
        using check_response_sel(5) [of E env d "jget resp ''nonce''" "jget resp ''signature''" s] r by simp
      have "r \<noteq> Inr None"
      proof
        assume "r = Inr None"
        then have "fst (check_response E env d (jget resp ''nonce'') (jget resp ''signature'') s) = Inr None"
          using r by simp
        moreover from this obtain n where "jget resp ''nonce'' = JStr n"
          unfolding check_response_accepts by blast
        ultimately show False using None Inr True by (simp add: accepted_nonce_def)
      qed
      with Inr True r b show ?thesis
        by (auto simp: on_response_def bindS_def split: sum.split option.split)
    qed (use Inr in \<open>simp add: on_response_def\<close>)
  qed
  with None show ?thesis by (simp add: handle_frame_def)
qed

lemma pam_broker [simp]:
  "sv_broker (pam_reply c ok s) = sv_broker s"
  "sv_broker (snd (pam_open E env c creds s)) = sv_broker s"
  "sv_broker (pam_finish E env c user pid uid ok s) = sv_broker s"
  "sv_broker (snd (pam_turn E env c user pid uid r s)) = fst r"
proof -
  show 1: "sv_broker (pam_reply c ok s) = sv_broker s" for c ok and s :: "'a service"
    by (simp add: pam_reply_def)
  show "sv_broker (snd (pam_open E env c creds s)) = sv_broker s"
    by (simp add: pam_open_def 1 dict_ok_def split: sum.split prod.split)
  show 2: "sv_broker (pam_finish E env c user pid uid ok s) = sv_broker s" for ok s
  proof -
    have "sv_broker (snd (record_event E env (if ok then ''pam_grant_consumed'' else ''pam_no_grant'')
        (if ok then Some ''PAM unlock granted'' else None) ''default'' [''key'']
        [(''user'', JStr user), (''uid'', JInt uid), (''pid'', JInt pid)] s)) = sv_broker s"
      by (rule broker_kept) (simp add: dict_ok_def)
    then show ?thesis
      by (auto simp: pam_finish_def 1 split: prod.split sum.split)
  qed
  show "sv_broker (snd (pam_turn E env c user pid uid r s)) = fst r"
    by (simp add: pam_turn_def 2 Let_def split: turn.split)
qed

section \<open>The system refines the broker with its consumers\<close>

fun consumer_phase :: "pam \<Rightarrow> phase option" where
  "consumer_phase (PamReading pid uid) = None"
| "consumer_phase PamRefused = None"
| "consumer_phase (PamReady user pid uid d) = Some (Ready d)"
| "consumer_phase (PamBlocked user pid uid d) = Some (Blocked d)"
| "consumer_phase (PamAnswered r) = Some (Done r)"

definition abs :: "'sk system \<Rightarrow> bsys" where
  "abs s = \<lparr>clock = sys_now s, brk = sv_broker (svc s),
     consumers = (\<lambda>c. case pams s c of None \<Rightarrow> None | Some p \<Rightarrow> consumer_phase p),
     issue_times = map fst (auths s), grants = pam_grants s\<rparr>"

definition tick :: "time \<Rightarrow> 'sk system \<Rightarrow> 'sk system" where
  "tick t s = s\<lparr>sys_now := t\<rparr>"

lemma abs_tick: "sys_now s \<le> t \<Longrightarrow> bstep (abs s) (abs (tick t s))"
  using bstep.Tick [of "abs s" t] by (simp add: abs_def tick_def)

lemma abs_frame:
  "sv_broker (svc s') = sv_broker (svc s) \<Longrightarrow> sys_now s' = sys_now s \<Longrightarrow> auths s' = auths s \<Longrightarrow> pam_grants s' = pam_grants s
    \<Longrightarrow> (\<And>c. (case pams s' c of None \<Rightarrow> None | Some p \<Rightarrow> consumer_phase p) = (case pams s c of None \<Rightarrow> None | Some p \<Rightarrow> consumer_phase p))
    \<Longrightarrow> abs s' = abs s"
  by (simp add: abs_def)

lemma consumer_of_turn:
  "consumer_phase (fst (pam_turn E env c user pid uid r s)) = Some (phase_of (snd r))"
  by (simp add: pam_turn_def Let_def split: turn.split)

text \<open>A turn of a request is a turn of its consumer.\<close>

lemma abs_moved:
  assumes "sv_broker (snd p) = fst r" "consumer_phase (fst p) = Some (phase_of (snd r))" "t = snd r"
  shows "abs (pam_moved env c t p s) = turned c r (abs (tick (mono env) s))"
  using assms by (auto simp: abs_def pam_moved_def turned_def tick_def fun_eq_iff)

lemma pam_line_ask:
  assumes "pam_line E env c pid uid line s = (p, s1)" "p \<noteq> PamRefused"
  shows "(p, s1) = pam_turn E env c (unlock_user (cfg s)) pid uid (consume (pam_wait (cfg s)) (mono env) (sv_broker s)) s"
  using assms by (auto simp: pam_line_def split: sum.splits option.splits json.splits if_splits)

lemma pam_line_refuse_broker: "pam_line E env c pid uid line s = (PamRefused, s1) \<Longrightarrow> sv_broker s1 = sv_broker s"
proof -
  assume a: "pam_line E env c pid uid line s = (PamRefused, s1)"
  have turn: "pam_turn E env c u pid uid r s \<noteq> (PamRefused, s1)" for u r
    by (simp add: pam_turn_def Let_def split: turn.split)
  have "sv_broker (snd (record_event E env ''pam_denied'' None ''default'' [] [(''user'', JStr u), (''uid'', JInt uid)] s)) = sv_broker s" for u
    by (rule broker_kept) (simp add: dict_ok_def)
  with a turn show ?thesis
    by (auto simp: pam_line_def split: sum.splits option.splits json.splits if_splits)
qed

lemma simulation:
  assumes "sstep E okc oke s s'"
  shows "bstep\<^sup>*\<^sup>* (abs s) (abs s')"
  using assms
proof cases
  case (Open env c rl r ra der)
  have "abs s' = abs (tick (mono env) s)"
    using Open by (intro abs_frame) (simp_all add: tick_def)
  with abs_tick [OF Open(2)] show ?thesis by simp
next
  case (Frame env c ph r f)
  show ?thesis
  proof (cases ph)
    case (AwaitResponse ip d)
    show ?thesis
    proof (cases "accepted_nonce E env d f (svc s)")
      case None
      then have "abs s' = abs (tick (mono env) s)"
        using Frame AwaitResponse by (intro abs_frame) (simp_all add: tick_def note_auth_def broker_on_response)
      with abs_tick [OF Frame(2)] show ?thesis by simp
    next
      case (Some n)
      then have "abs s' = (abs (tick (mono env) s))
          \<lparr>brk := issue (clock (abs (tick (mono env) s))) (brk (abs (tick (mono env) s))),
           issue_times := issue_times (abs (tick (mono env) s)) @ [clock (abs (tick (mono env) s))]\<rparr>"
        using Frame AwaitResponse by (simp add: abs_def tick_def note_auth_def broker_on_response)
      then have "bstep (abs (tick (mono env) s)) (abs s')" using bstep.Issue by simp
      with abs_tick [OF Frame(2)] show ?thesis by auto
    qed
  next
    case (AwaitHello ip cd)
    then have "abs s' = abs (tick (mono env) s)"
      using Frame by (intro abs_frame) (simp_all add: tick_def note_auth_def handle_frame_def)
    with abs_tick [OF Frame(2)] show ?thesis by simp
  qed (use Frame(5) in \<open>simp_all add: waiting_def\<close>)
next
  case (RejectionSent env c ip did a b n r)
  have "abs s' = abs (tick (mono env) s)"
    using RejectionSent by (intro abs_frame) (simp_all add: tick_def)
  with abs_tick [OF RejectionSent(2)] show ?thesis by simp
next
  case (Leave c)
  then have "abs s' = abs s" by (intro abs_frame) (simp_all add: leave_def)
  then show ?thesis by simp
next
  case (PamOpen env c r creds)
  have "consumer_phase (fst r) = None"
    using PamOpen(5) by (simp add: pam_open_def split: sum.split prod.split)
  then have "abs s' = abs (tick (mono env) s)"
    using PamOpen by (intro abs_frame) (simp_all add: tick_def)
  with abs_tick [OF PamOpen(2)] show ?thesis by simp
next
  case (PamRefuse env c pid uid line s1)
  have "abs s' = abs (tick (mono env) s)"
    using PamRefuse by (intro abs_frame) (simp_all add: tick_def pam_line_refuse_broker)
  with abs_tick [OF PamRefuse(2)] show ?thesis by simp
next
  case (PamAsk env c pid uid line p s1 t)
  let ?b = "abs (tick (mono env) s)"
  let ?r = "consume (pam_wait (cfg (svc s))) (clock ?b) (brk ?b)"
  have p: "(p, s1) = pam_turn E env c (unlock_user (cfg (svc s))) pid uid ?r (svc s)"
    using pam_line_ask [OF PamAsk(5,6)] by (simp add: abs_def tick_def)
  have "abs s' = turned c ?r ?b"
    unfolding PamAsk(1)
  proof (rule abs_moved)
    show "sv_broker (snd (p, s1)) = fst ?r" by (simp only: p pam_broker)
    show "consumer_phase (fst (p, s1)) = Some (phase_of (snd ?r))" by (simp only: p consumer_of_turn)
    show "t = snd ?r" using PamAsk(7) by (simp add: abs_def tick_def)
  qed
  moreover have "consumers ?b c = None" using PamAsk(4) by (simp add: abs_def tick_def)
  ultimately have "bstep ?b (abs s')" using bstep.Call by simp
  with abs_tick [OF PamAsk(2)] show ?thesis by auto
next
  case (PamEnter c user pid uid d)
  then have "abs s' = (abs s)\<lparr>brk := start_wait c (brk (abs s)), consumers := (consumers (abs s))(c \<mapsto> Blocked d)\<rparr>"
    by (auto simp: abs_def pam_enter_def fun_eq_iff)
  moreover have "consumers (abs s) c = Some (Ready d)" using PamEnter by (simp add: abs_def)
  ultimately have "bstep (abs s) (abs s')" using bstep.Enter by simp
  then show ?thesis by simp
next
  case (PamWake env c user pid uid d t)
  let ?b = "abs (tick (mono env) s)"
  let ?r = "resume c d (clock ?b) (brk ?b)"
  have "abs s' = turned c ?r ?b"
    unfolding PamWake(1) by (rule abs_moved) (use PamWake(6) in \<open>simp_all add: pam_resume_def consumer_of_turn, simp_all add: abs_def tick_def\<close>)
  moreover have "consumers ?b c = Some (Blocked d)" "c \<in> set (ev_woken (grant_event (brk ?b)))"
    using PamWake by (simp_all add: abs_def tick_def)
  ultimately have "bstep ?b (abs s')" using bstep.Wake [of ?b c d] by simp
  with abs_tick [OF PamWake(2)] show ?thesis by auto
next
  case (PamTimeout env c user pid uid d)
  let ?b = "abs (tick (mono env) s)"
  let ?r = "give_up c (brk ?b)"
  have "abs s' = turned c ?r ?b"
    unfolding PamTimeout(1)
    by (rule abs_moved) (simp_all add: pam_timeout_def consumer_of_turn, simp_all add: give_up_def abs_def tick_def)
  moreover have "consumers ?b c = Some (Ready d) \<or> consumers ?b c = Some (Blocked d)" "d \<le> clock ?b"
    using PamTimeout by (auto simp: abs_def tick_def)
  ultimately have "bstep ?b (abs s')" using bstep.Timeout [of ?b c] by auto
  with abs_tick [OF PamTimeout(2)] show ?thesis by auto
qed

lemma abs_start: "0 \<le> t \<Longrightarrow> breachable (grant_ttl c) (abs (sys_start c key l t))"
  by (auto simp: breachable_def abs_def sys_start_def bstart_def new_service_def Let_def intro!: exI [of _ t])

lemma reach_abs:
  assumes "reach E okc oke (sys_start c key l t) s" "0 \<le> t"
  shows "breachable (grant_ttl c) (abs s)"
proof (rule reach_invariant [OF assms(1)])
  show "breachable (grant_ttl c) (abs (sys_start c key l t))" using assms(2) by (rule abs_start)
next
  fix s s' assume "breachable (grant_ttl c) (abs s)" "sstep E okc oke s s'"
  then show "breachable (grant_ttl c) (abs s')"
    using simulation unfolding breachable_def by (meson rtranclp_trans)
qed

text \<open>
  C5.  The running service refines the grant broker: each step of the system --- a connection
  handled up to its next wait, a PAM request moved on --- is a sequence of steps of the broker
  with its consumers, in which only an accepted response is an issue and only a PAM request's
  own turn takes a grant.
\<close>

theorem system_refines_broker:
  assumes "sstep E okc oke s s'"
  shows "bstep\<^sup>*\<^sup>* (abs s) (abs s')"
  using assms by (rule simulation)

lemma system_refines_broker_witness:
  "bstep\<^sup>*\<^sup>* (abs ((sys_start toy_config (7 :: nat) empty_log 0)\<lparr>conns := [1 \<mapsto> Leaving]\<rparr>))
     (abs ((sys_start toy_config (7 :: nat) empty_log 0)\<lparr>svc := leave (new_service toy_config 7 empty_log), conns := Map.empty\<rparr>))"
proof -
  let ?s = "(sys_start toy_config (7 :: nat) empty_log 0)\<lparr>conns := [1 \<mapsto> Leaving]\<rparr>"
  have "sstep toy_ext (\<lambda>_. True) (\<lambda>_. True) ?s (?s\<lparr>svc := leave (svc ?s), conns := (conns ?s)(1 := None)\<rparr>)"
    by (rule sstep.Leave) simp
  from system_refines_broker [OF this] show ?thesis by (simp add: sys_start_def)
qed

section \<open>Every yes to PAM is backed by an unlock\<close>

lemma pam_yes_turn: "pam_yes (snd (pam_turn E env c user pid uid r s)) \<subseteq> (if snd r = Return True then insert c (pam_yes s) else pam_yes s)"
proof -
  have "pam_yes (snd (record_event E env ev t p tg [(''user'', JStr user), (''uid'', JInt uid), (''pid'', JInt pid)] s)) = pam_yes s"
    for ev t p tg and s :: "'a service"
    by (rule yes.P_record) (simp_all add: dict_ok_def)
  then have "pam_yes (pam_finish E env c user pid uid ok s) \<subseteq> (if ok then insert c (pam_yes s) else pam_yes s)" for ok and s :: "'a service"
    by (auto simp: pam_finish_def pam_yes_reply split: prod.splits sum.splits if_splits)
      (metis snd_conv)+
  from this [of True "s\<lparr>sv_broker := fst r\<rparr>"] this [of False "s\<lparr>sv_broker := fst r\<rparr>"] show ?thesis
    by (simp add: pam_turn_def Let_def split: turn.split)
qed

lemma pam_yes_open: "pam_yes (snd (pam_open E env c creds s)) = pam_yes s"
proof -
  have "pam_yes (snd (record_event E env ev t p tg [(''uid'', JInt uid), (''pid'', JInt pid)] s)) = pam_yes s" for ev t p tg uid pid
    by (rule yes.P_record) (simp_all add: dict_ok_def)
  then show ?thesis by (auto simp: pam_open_def pam_yes_reply split: sum.split prod.split)
qed

lemma pam_yes_refuse:
  assumes "pam_line E env c pid uid line s = (PamRefused, s1)"
  shows "pam_yes s1 = pam_yes s"
proof -
  have turn: "pam_turn E env c u pid uid r s \<noteq> (PamRefused, s1)" for u r
    by (simp add: pam_turn_def Let_def split: turn.split)
  have "pam_yes (snd (record_event E env ''pam_denied'' None ''default'' [] [(''user'', JStr u), (''uid'', JInt uid)] s)) = pam_yes s" for u
    by (rule yes.P_record) (simp_all add: dict_ok_def)
  with assms turn show ?thesis
    by (auto simp: pam_line_def pam_yes_reply split: sum.splits option.splits json.splits if_splits)
qed

text \<open>A request answered yes has taken a grant.\<close>

definition yes_ok :: "'sk system \<Rightarrow> bool" where
  "yes_ok s \<longleftrightarrow> pam_yes (svc s) \<subseteq> fst ` set (pam_grants s)"

lemma yes_ok_moved:
  assumes "yes_ok s" "pam_yes (snd r) \<subseteq> (if t = Return True then insert c (pam_yes (svc s)) else pam_yes (svc s))"
  shows "yes_ok (pam_moved env c t r s)"
  using assms by (auto simp: yes_ok_def pam_moved_def split: if_splits)

lemma yes_ok_frame:
  "yes_ok s \<Longrightarrow> pam_yes (svc s') = pam_yes (svc s) \<Longrightarrow> pam_grants s' = pam_grants s \<Longrightarrow> yes_ok s'"
  by (simp add: yes_ok_def)

lemma yes_ok_step: "sstep E okc oke s s' \<Longrightarrow> yes_ok s \<Longrightarrow> yes_ok s'"
proof (induction rule: sstep.induct)
  case (Open s env c rl r ra der)
  then show ?case by (elim yes_ok_frame) (simp_all add: yes.P_handle [OF refl])
next
  case (Frame s env c ph r f)
  then show ?case by (elim yes_ok_frame) (simp_all add: yes_frame.P_handle_frame [OF refl])
next
  case (RejectionSent s env c ip did a b n r)
  then show ?case by (elim yes_ok_frame) (simp_all add: yes.P_handle_sent [OF refl])
next
  case (Leave s c)
  then show ?case by (elim yes_ok_frame) (simp_all add: leave_def)
next
  case (PamOpen s env c r creds)
  then show ?case by (elim yes_ok_frame) (simp_all add: pam_yes_open)
next
  case (PamRefuse s env c pid uid line s1)
  then show ?case by (elim yes_ok_frame) (simp_all add: pam_yes_refuse)
next
  case (PamAsk s env c pid uid line p s1 t)
  have "pam_yes (snd (p, s1)) \<subseteq> (if t = Return True then insert c (pam_yes (svc s)) else pam_yes (svc s))"
    unfolding pam_line_ask [OF PamAsk(4,5)] PamAsk(6) by (rule pam_yes_turn)
  with PamAsk(7) show ?case by (rule yes_ok_moved)
next
  case (PamEnter s c user pid uid d)
  then show ?case by (elim yes_ok_frame) (simp_all add: pam_enter_def)
next
  case (PamWake s env c user pid uid d t)
  then show ?case
    by (intro yes_ok_moved) (auto simp: pam_resume_def dest: subsetD [OF pam_yes_turn] split: if_splits)
next
  case (PamTimeout s env c user pid uid d)
  then show ?case
    by (intro yes_ok_moved) (auto simp: pam_timeout_def give_up_def dest: subsetD [OF pam_yes_turn] split: if_splits)
qed

lemma yes_ok_reach: "reach E okc oke (sys_start c key l t) s \<Longrightarrow> yes_ok s"
  by (erule reach_invariant [where I = yes_ok])
    (simp add: yes_ok_def sys_start_def new_service_def pam_yes_def Let_def, rule yes_ok_step)

lemma pam_yes_backed:
  assumes "reach E okc oke (sys_start cf key l t0) s" "0 \<le> t0"
  shows "\<exists>f. inj_on f (pam_yes (svc s))
    \<and> (\<forall>c \<in> pam_yes (svc s). f c < length (auths s)
         \<and> (\<exists>t. (c, t, f c) \<in> set (pam_grants s) \<and> fst (auths s ! f c) \<le> t \<and> t < fst (auths s ! f c) + grant_ttl cf))"
proof -
  have tok: "tokens_ok (grant_ttl cf) (abs s)"
    using reach_abs [OF assms] by (rule tokens_ok_reachable)
  have y: "pam_yes (svc s) \<subseteq> fst ` set (pam_grants s)"
    using yes_ok_reach [OF assms(1)] by (simp add: yes_ok_def)
  then have "\<forall>c \<in> pam_yes (svc s). \<exists>g \<in> set (pam_grants s). fst g = c" by fastforce
  then obtain g where g: "\<And>c. c \<in> pam_yes (svc s) \<Longrightarrow> g c \<in> set (pam_grants s) \<and> fst (g c) = c"
    by metis
  have gr: "grants (abs s) = pam_grants s" and it: "issue_times (abs s) = map fst (auths s)"
    by (simp_all add: abs_def)
  have d: "distinct (map (\<lambda>(c, t, i). i) (pam_grants s))"
    using tok by (simp add: tokens_ok_def used_def gr)
  have "inj_on (\<lambda>(c, t, i). i) (set (pam_grants s))" using d by (simp add: distinct_map)
  then have inj: "inj_on (\<lambda>c. snd (snd (g c))) (pam_yes (svc s))"
    using g by (auto simp: inj_on_def case_prod_unfold) (metis prod.collapse)
  have ok: "grant_ok (grant_ttl cf) (abs s) (g c)" if "c \<in> pam_yes (svc s)" for c
    using tok g [OF that] by (auto simp: tokens_ok_def gr list_all_iff)
  have "snd (snd (g c)) < length (auths s) \<and> (\<exists>t. (c, t, snd (snd (g c))) \<in> set (pam_grants s)
      \<and> fst (auths s ! snd (snd (g c))) \<le> t \<and> t < fst (auths s ! snd (snd (g c))) + grant_ttl cf)"
    if "c \<in> pam_yes (svc s)" for c
    using ok [OF that] g [OF that] by (cases "g c") (auto simp: grant_ok_def it)
  with inj show ?thesis by blast
qed

section \<open>Connections are counted\<close>

lemmas active_kept [simp] =
  act.P_guarded [OF refl] act.P_session_start [OF refl] act.P_except [OF refl] act.P_handle_frame [OF refl]
  act.P_handle_sent [OF refl] act.P_pam_open [OF refl] act.P_pam_line [OF refl] act.P_pam_resume [OF refl]
  act.P_pam_timeout [OF refl] act.P_pam_enter [OF refl]

lemma handle_active:
  "active (snd (handle E env rl c ra der s)) = active s + (if fst (handle E env rl c ra der s) = None then 0 else 1)"
  by (simp add: handle_def Let_def case_prod_unfold split: option.split sum.split)

lemma leave_sel [simp]: "active (leave s) = active s - 1" "cfg (leave s) = cfg s" "pending (leave s) = pending s"
    "audit (leave s) = audit s"
  by (simp_all add: leave_def)

definition counted :: "'sk system \<Rightarrow> bool" where
  "counted s \<longleftrightarrow> finite (dom (conns s)) \<and> active (svc s) = int (card (dom (conns s)))"

lemma counted_same:
  "counted s \<Longrightarrow> active (svc s') = active (svc s) \<Longrightarrow> dom (conns s') = dom (conns s) \<Longrightarrow> counted s'"
  by (simp add: counted_def)

lemma pam_line_active: "pam_line E env c pid uid line s = (p, s1) \<Longrightarrow> active s1 = active s"
  using act.P_pam_line [OF refl, where s = s and E = E and env = env and c = c and pid = pid and uid = uid and line = line] by simp

lemma counted_step: "sstep E okc oke s s' \<Longrightarrow> counted s \<Longrightarrow> counted s'"
proof (induction rule: sstep.induct)
  case (Open s env c rl r ra der)
  show ?case
  proof (cases "fst r")
    case None
    with Open show ?thesis by (elim counted_same) (simp_all add: handle_active)
  next
    case (Some ph)
    moreover have "c \<notin> dom (conns s)" using Open(3) by auto
    ultimately show ?thesis using Open by (simp add: counted_def handle_active)
  qed
next
  case (Leave s c)
  then have "c \<in> dom (conns s)" by auto
  then have "dom (conns s) \<noteq> {}" by blast
  with Leave \<open>c \<in> dom (conns s)\<close> show ?case
    by (auto simp: counted_def card_Diff_singleton of_nat_diff card_gt_0_iff Suc_le_eq)
next
  case (Frame s env c ph r f)
  then show ?case by (elim counted_same) (auto simp: insert_absorb)
next
  case (RejectionSent s env c ip did a b n r)
  then show ?case by (elim counted_same) (auto simp: insert_absorb)
qed (auto elim!: counted_same dest: pam_line_active)

lemma counted_reach: "reach E okc oke (sys_start cf key l t0) s \<Longrightarrow> counted s"
  by (erule reach_invariant [where I = counted])
    (simp add: counted_def sys_start_def new_service_def Let_def, rule counted_step)

text \<open>The configuration of a step: unchanged, or the one just loaded.\<close>

lemma cfg_kept [simp]:
  "cfg (snd (handle_frame E env c ph f s)) = cfg s" "cfg (snd (handle_sent E env c ph s)) = cfg s"
  "cfg (snd (pam_open E env c creds s)) = cfg s" "cfg (snd (pam_line E env c pid uid line s)) = cfg s"
  "cfg (snd (pam_resume E env c user pid uid d s)) = cfg s" "cfg (snd (pam_timeout E env c user pid uid s)) = cfg s"
  "cfg (pam_enter c s) = cfg s" "cfg (snd (guarded E env c ip (session_start E env c ip der s))) = cfg s"
  "cfg (snd (except E env c ip e s)) = cfg s"
  by (simp_all add: conf.P_handle_frame [OF refl] conf.P_handle_sent [OF refl] conf.P_pam_open [OF refl]
      conf.P_pam_line [OF refl] conf.P_pam_resume [OF refl] conf.P_pam_timeout [OF refl] conf.P_pam_enter [OF refl]
      conf.P_guarded [OF conf.P_session_start [OF refl]] conf.P_except [OF refl])

lemma handle_cfg:
  "cfg (snd (handle E env rl c ra der s)) = cfg s \<or> rl = Some (Inr (cfg (snd (handle E env rl c ra der s))))"
  by (simp add: handle_def Let_def case_prod_unfold split: option.split sum.split)

lemma okc_step: "sstep E okc oke s s' \<Longrightarrow> okc (cfg (svc s)) \<Longrightarrow> okc (cfg (svc s'))"
proof (induction rule: sstep.induct)
  case (Open s env c rl r ra der)
  then show ?case using handle_cfg [of E env rl c ra der "svc s"] by auto
next
  case (PamRefuse s env c pid uid line s1)
  then show ?case using cfg_kept(4) [of E env c pid uid line "svc s"] by simp
next
  case (PamAsk s env c pid uid line p s1 t)
  then show ?case using cfg_kept(4) [of E env c pid uid line "svc s"] by simp
qed simp_all

lemma okc_reach: "reach E okc oke (sys_start cf key l t0) s \<Longrightarrow> okc cf \<Longrightarrow> okc (cfg (svc s))"
  by (erule reach_invariant [where I = "\<lambda>s. okc (cfg (svc s))"])
    (simp add: sys_start_def new_service_def Let_def, rule okc_step)

lemma active_bound_step:
  assumes "sstep E okc oke s s'" "okc (cfg (svc s))" "\<And>cf. okc cf \<Longrightarrow> max_connections cf \<le> M" "0 \<le> M"
  shows "active (svc s) \<le> M \<Longrightarrow> active (svc s') \<le> M"
  using assms(1,2)
proof (induction rule: sstep.induct)
  case (Open s env c rl r ra der)
  show ?case
  proof (cases "fst r")
    case None
    with Open show ?thesis by (simp add: handle_active)
  next
    case (Some ph)
    then have "active (svc s) < max_connections (cfg (svc s))"
      using Open(5) by (auto simp: handle_def Let_def split: if_splits)
    with assms(3) [OF Open(7)] Open(5) show ?thesis by (simp add: handle_active)
  qed
qed (auto dest: pam_line_active)

text \<open>
  C28.  The counter of connections is exact and bounded: in every reachable state it is the
  number of connections that are being handled --- every way out of \<open>handle\<close>, exceptions and
  rejections included, gives its slot back once --- and it never exceeds the largest
  \<open>max_connections\<close> of the configurations loaded.
\<close>

theorem connections_counted_and_bounded:
  assumes "reach E okc oke (sys_start cf key l t0) s"
    and "okc cf" and "\<And>cf. okc cf \<Longrightarrow> max_connections cf \<le> M" and "0 \<le> M"
  shows "finite (dom (conns s)) \<and> active (svc s) = int (card (dom (conns s))) \<and> active (svc s) \<le> M"
proof -
  have "active (svc s) \<le> M"
    by (rule reach_invariant [OF assms(1), where I = "\<lambda>s. active (svc s) \<le> M"])
      (use assms(4) in \<open>auto simp: sys_start_def new_service_def Let_def intro: active_bound_step [OF _ okc_reach assms(3)] assms(2)\<close>)
  with counted_reach [OF assms(1)] show ?thesis by (simp add: counted_def)
qed

text \<open>A system with one connection, for the examples.\<close>

definition toy_open :: "nat system" where
  "toy_open = (sys_start toy_config 7 empty_log 0)\<lparr>sys_now := 1, svc := toy_service\<lparr>active := 1\<rparr>,
     conns := [1 \<mapsto> AwaitHello ''ip'' (Some toy_device)]\<rparr>"

lemma toy_handle:
  "handle toy_ext (toy_env 1) None 1 (Some ''ip'') (Some ''cert'') toy_service =
      (Some (AwaitHello ''ip'' (Some toy_device)), toy_service\<lparr>active := 1\<rparr>)"
proof -
  have fp: "sha256 toy_ext ''cert'' = ''4''" by code_simp
  have "locked toy_ext (toy_env 1) ''ip'' ''ip'' (toy_service\<lparr>active := 1\<rparr>) = (Inr False, toy_service\<lparr>active := 1\<rparr>)"
    by (rule locked_false) (simp add: toy_service_def new_service_def Let_def new_backoff_def remaining_def)
  then show ?thesis
    using fp by (simp add: handle_def Let_def session_start_def bindS_def guarded_def toy_service_def new_service_def
        toy_config_def toy_device_def)
qed

lemma toy_open_step:
  assumes "oke (toy_env 1)"
  shows "sstep toy_ext okc oke (sys_start toy_config 7 empty_log 0) toy_open"
proof -
  let ?s = "sys_start toy_config (7 :: nat) empty_log 0"
  let ?r = "handle toy_ext (toy_env 1) None 1 (Some ''ip'') (Some ''cert'') (svc ?s)"
  have s: "svc ?s = toy_service" by (simp add: sys_start_def toy_service_def)
  have "sstep toy_ext okc oke ?s (?s\<lparr>sys_now := mono (toy_env 1), svc := snd ?r,
      conns := (case fst ?r of None \<Rightarrow> conns ?s | Some ph \<Rightarrow> (conns ?s)(1 \<mapsto> ph))\<rparr>)"
    by (rule sstep.Open [where c = 1 and rl = None]) (simp_all add: sys_start_def toy_env_def assms [unfolded toy_env_def])
  then show ?thesis
    by (simp only: s toy_handle) (simp add: toy_open_def toy_env_def sys_start_def)
qed

lemma toy_open_reach: "oke (toy_env 1) \<Longrightarrow> reach toy_ext okc oke (sys_start toy_config 7 empty_log 0) toy_open"
  using toy_open_step by (simp add: reach_def r_into_rtranclp)

lemma connections_counted_and_bounded_witness: "active (svc toy_open) = int (card (dom (conns toy_open))) \<and> active (svc toy_open) \<le> 16"
  using connections_counted_and_bounded [OF toy_open_reach [of "\<lambda>_. True"], of "\<lambda>cf. max_connections cf \<le> 16" 16]
  by (simp add: toy_config_def)

section \<open>The table of challenges, and the audit log\<close>

lemma sys_start_sel:
  "cfg (svc (sys_start c key l t)) = c" "audit (svc (sys_start c key l t)) = l" "pending (svc (sys_start c key l t)) = []"
  "conns (sys_start c key l t) = Map.empty" "auths (sys_start c key l t) = []"
  by (simp_all add: sys_start_def new_service_def Let_def)

lemma pending_step: "sstep E okc oke s s' \<Longrightarrow> pending_ok (svc s) \<Longrightarrow> pending_ok (svc s')"
proof (induction rule: sstep.induct)
  case (PamRefuse s env c pid uid line s1)
  then show ?case using pend.P_pam_line [OF PamRefuse(5), of E env c pid uid line] by simp
next
  case (PamAsk s env c pid uid line p s1 t)
  then show ?case using pend.P_pam_line [OF PamAsk(7), of E env c pid uid line] by simp
next
  case (Leave s c)
  then show ?case by (simp add: pending_ok_def)
qed (simp_all add: pend.P_handle pend.P_handle_frame pend.P_handle_sent pend.P_pam_open pend.P_pam_enter
    pend.P_pam_resume pend.P_pam_timeout)

lemma log_step:
  assumes "sstep E okc oke s s'" "\<And>env. oke env \<Longrightarrow> disk_ok env"
  shows "log_ok E (audit (svc s)) \<Longrightarrow> log_ok E (audit (svc s'))"
  using assms(1)
proof (induction rule: sstep.induct)
  case (Open s env c rl r ra der)
  then show ?case using logged.P_handle [of E env "svc s" rl c ra der] assms(2) by (simp add: chain_ok_def)
next
  case (Frame s env c ph r f)
  then show ?case using logged.P_handle_frame [of E env "svc s" c ph f] assms(2) by (simp add: chain_ok_def)
next
  case (RejectionSent s env c ip did a b n r)
  then show ?case using logged.P_handle_sent [of E env "svc s" c "Rejecting ip did a b n"] assms(2) by (simp add: chain_ok_def)
next
  case (PamOpen s env c r creds)
  then show ?case using logged.P_pam_open [of E env "svc s" c creds] assms(2) by (simp add: chain_ok_def)
next
  case (PamRefuse s env c pid uid line s1)
  then show ?case using logged.P_pam_line [of E env "svc s" c pid uid line] assms(2) by (simp add: chain_ok_def)
next
  case (PamAsk s env c pid uid line p s1 t)
  then show ?case using logged.P_pam_line [of E env "svc s" c pid uid line] assms(2) by (simp add: chain_ok_def)
next
  case (PamEnter s c user pid uid d)
  then show ?case by (simp add: pam_enter_def)
next
  case (PamWake s env c user pid uid d t)
  then show ?case using logged.P_pam_resume [of E env "svc s" c user pid uid d] assms(2) by (simp add: chain_ok_def)
next
  case (PamTimeout s env c user pid uid d)
  then show ?case using logged.P_pam_timeout [of E env "svc s" c user pid uid] assms(2) by (simp add: chain_ok_def)
qed simp

lemma reach_log_ok:
  assumes "reach E okc oke (sys_start cf key l t0) s" "log_ok E l" "\<And>env. oke env \<Longrightarrow> disk_ok env"
  shows "log_ok E (audit (svc s))"
proof (rule reach_invariant [OF assms(1), where I = "\<lambda>s. log_ok E (audit (svc s))"])
  show "log_ok E (audit (svc (sys_start cf key l t0)))" using assms(2) by (simp add: sys_start_sel)
  show "log_ok E (audit (svc s))" if "log_ok E (audit (svc r))" "sstep E okc oke r s" for r s
    using log_step [OF that(2) assms(3) that(1)] .
qed

text \<open>
  C22.  Whatever the service goes through --- any interleaving of connections, rejections, lockouts
  and PAM requests --- its audit log remains one unbroken chain that verifies from the first
  entry to the last, with the head and the sequence number the service holds in memory, as long
  as the writes themselves succeed.
\<close>

theorem service_log_verifies:
  assumes "reach E okc oke (sys_start cf key l t0) s"
    and "log_ok E l" and "\<And>env. oke env \<Longrightarrow> disk_ok env"
  shows "log_ok E (audit (svc s))"
  using assms by (rule reach_log_ok)

lemma service_log_verifies_witness: "log_ok toy_ext (audit (svc toy_open))"
  by (rule service_log_verifies [OF toy_open_reach [of disk_ok "\<lambda>_. True"] log_ok_empty]) (simp_all add: toy_env_def)

text \<open>
  The table of pending challenges stays small: never more than 64, and one per nonce, in any
  reachable state; a peer cannot make the service hold more.
\<close>

theorem pending_challenges_bounded:
  assumes "reach E okc oke (sys_start cf key l t0) s"
  shows "length (pending (svc s)) \<le> 64 \<and> distinct (map fst (pending (svc s)))"
proof -
  have "pending_ok (svc s)"
    by (rule reach_invariant [OF assms, where I = "\<lambda>s. pending_ok (svc s)"])
      (simp add: sys_start_sel pending_ok_def, rule pending_step)
  then show ?thesis by (simp add: pending_ok_def dict_ok_def MAX_PENDING_def)
qed

lemma pending_challenges_bounded_witness: "length (pending (svc toy_open)) \<le> 64"
  using pending_challenges_bounded [OF toy_open_reach [of "\<lambda>_. True" "\<lambda>_. True"]] by simp

section \<open>Who can authorize\<close>

text \<open>A device that some loaded configuration registers and enables.\<close>

definition registered :: "(config \<Rightarrow> bool) \<Rightarrow> device \<Rightarrow> bool" where
  "registered okc d \<longleftrightarrow> (\<exists>cf. okc cf \<and> d \<in> set (devices cf) \<and> enabled d)"

text \<open>What holds of the device of every open connection.\<close>

definition sessions_ok :: "(device \<Rightarrow> bool) \<Rightarrow> 'sk system \<Rightarrow> bool" where
  "sessions_ok Q s \<longleftrightarrow>
     (\<forall>c ip d. conns s c = Some (AwaitHello ip (Some d)) \<or> conns s c = Some (AwaitResponse ip d) \<longrightarrow> Q d)"

lemma sessions_ok_upd:
  assumes "sessions_ok Q s" "conns s' = (conns s)(c \<mapsto> ph)"
    and "\<And>ip d. ph = AwaitHello ip (Some d) \<or> ph = AwaitResponse ip d \<Longrightarrow> Q d"
  shows "sessions_ok Q s'"
  using assms by (auto simp: sessions_ok_def)

lemma sessions_ok_same: "sessions_ok Q s \<Longrightarrow> conns s' = conns s \<Longrightarrow> sessions_ok Q s'"
  by (simp add: sessions_ok_def)

lemma handle_sent_phase: "\<not> waiting (fst (handle_sent E env c (Rejecting ip did a b n) s))"
  using except_phase [of E env c ip]
  by (auto simp: handle_sent_def finish_reject_def elim!: bindS_InrE split: prod.splits sum.splits)

lemma sessions_step:
  assumes "sstep E okc oke s s'" "okc (cfg (svc s))" "sessions_ok Q s"
    and Q: "\<And>cf d. okc cf \<Longrightarrow> d \<in> set (devices cf) \<Longrightarrow> enabled d \<Longrightarrow> Q d"
  shows "sessions_ok Q s'"
  using assms(1-3)
proof (induction rule: sstep.induct)
  case (Open s env c rl r ra der)
  show ?case
  proof (cases "fst r")
    case None
    with Open show ?thesis by (elim sessions_ok_same) simp
  next
    case (Some ph)
    then have h: "handle E env rl c ra der (svc s) = (Some ph, snd r)" using Open(5) by (metis prod.collapse)
    have "okc (cfg (snd r))" using handle_cfg [of E env rl c ra der "svc s"] Open by auto
    then have "Q d" if "ph = AwaitHello ip (Some d) \<or> ph = AwaitResponse ip d" for ip d
    proof -
      have "waiting ph" using that by auto
      with handle_phase [OF h] session_start_phase have "\<exists>i cd. ph = AwaitHello i cd"
        by (metis (no_types, lifting) waiting_simps)
      with that have "ph = AwaitHello ip (Some d)" by auto
      with handle_admits [of E env rl c ra der "svc s"] h have "d \<in> set (devices (cfg (snd r)))" "enabled d" by auto
      with \<open>okc (cfg (snd r))\<close> show ?thesis by (rule Q)
    qed
    with Open(7) Some show ?thesis by (intro sessions_ok_upd [OF Open(7)]) auto
  qed
next
  case (Frame s env c ph r f)
  have "Q d" if w: "fst r = AwaitHello ip (Some d) \<or> fst r = AwaitResponse ip d" for ip d
  proof (cases ph)
    case (AwaitHello ip' cd)
    have "waiting (fst r)" using w by auto
    with hello_phase [of E env c ip' cd f "svc s" "fst r" "snd r"] AwaitHello Frame(5) w
    have "cd = Some d \<or> cd = None \<and> d \<in> set (devices (cfg (svc s))) \<and> enabled d" by auto
    with Frame(3,6,7) AwaitHello show ?thesis by (auto simp: sessions_ok_def intro: Q)
  next
    case (AwaitResponse ip' d')
    with response_phase [of E env c ip' d' f "svc s"] Frame(5) w show ?thesis by auto
  qed (use Frame(4) in simp_all)
  then show ?case by (intro sessions_ok_upd [OF Frame(7)]) auto
next
  case (RejectionSent s env c ip did a b n r)
  have "\<not> waiting (fst r)" using handle_sent_phase RejectionSent(4) by simp
  then show ?case by (intro sessions_ok_upd [OF RejectionSent(6)]) auto
next
  case (Leave s c)
  then show ?case by (auto simp: sessions_ok_def)
qed (auto elim: sessions_ok_same)

lemma sessions_run:
  assumes "reach E okc oke s1 s2" "okc (cfg (svc s1))" "sessions_ok Q s1"
    and Q: "\<And>cf d. okc cf \<Longrightarrow> d \<in> set (devices cf) \<Longrightarrow> enabled d \<Longrightarrow> Q d"
  shows "okc (cfg (svc s2)) \<and> sessions_ok Q s2"
proof (rule reach_invariant [OF assms(1), where I = "\<lambda>s. okc (cfg (svc s)) \<and> sessions_ok Q s"])
  show "okc (cfg (svc s1)) \<and> sessions_ok Q s1" using assms(2,3) ..
next
  fix s s' assume "okc (cfg (svc s)) \<and> sessions_ok Q s" "sstep E okc oke s s'"
  then show "okc (cfg (svc s')) \<and> sessions_ok Q s'" using sessions_step [of E okc oke s s' Q] okc_step [of E okc oke s s'] Q by blast
qed

lemma sessions_reach:
  assumes "reach E okc oke (sys_start cf key l t0) s" "okc cf"
  shows "sessions_ok (registered okc) s"
  using sessions_run [OF assms(1), of "registered okc"] assms(2) by (auto simp: sys_start_sel sessions_ok_def registered_def)

lemma accepted_nonce_Some:
  assumes "accepted_nonce E env d f s = Some n"
  shows "\<exists>t0 ms msg pk resp. recv_json f = Inr resp \<and> jget resp ''nonce'' = JStr n
    \<and> map_of (pending s) n = Some (dev_id d, t0, ms) \<and> mono env - t0 \<le> challenge_ttl (cfg s)
    \<and> signed_message ''response'' n ms (dev_id d) (target_id (cfg s)) = Inr msg
    \<and> load_public_key E (public_key_pem d) = Inr pk \<and> verify_sig E pk msg (jget resp ''signature'') = Inr True"
  using assms
  by (auto simp: accepted_nonce_def check_response_accepts split: sum.splits if_splits json.splits)

lemma note_auth_changes:
  assumes "note_auth E env c ph f s \<noteq> auths s"
  shows "\<exists>ip d n. ph = AwaitResponse ip d \<and> accepted_nonce E env d f (svc s) = Some n
    \<and> note_auth E env c ph f s = auths s @ [(mono env, c, dev_id d, n)]"
  using assms by (auto simp: note_auth_def split: sess.splits option.splits)

lemma authorization_step:
  assumes "reach E okc oke (sys_start cf key l t1) s" and "okc cf"
    and "sstep E okc oke s s'" and "auths s' \<noteq> auths s"
  shows "\<exists>(env :: env) c ip d n t0 ms msg pk f resp. conns s c = Some (AwaitResponse ip d) \<and> registered okc d
    \<and> auths s' = auths s @ [(mono env, c, dev_id d, n)]
    \<and> recv_json f = Inr resp \<and> jget resp ''nonce'' = JStr n
    \<and> map_of (pending (svc s)) n = Some (dev_id d, t0, ms) \<and> mono env - t0 \<le> challenge_ttl (cfg (svc s))
    \<and> signed_message ''response'' n ms (dev_id d) (target_id (cfg (svc s))) = Inr msg
    \<and> load_public_key E (public_key_pem d) = Inr pk \<and> verify_sig E pk msg (jget resp ''signature'') = Inr True"
proof -
  have so: "sessions_ok (registered okc) s" using sessions_reach [OF assms(1,2)] .
  from assms(3) obtain env :: env and c ph f where f: "conns s c = Some ph" "auths s' = note_auth E env c ph f s"
    by cases (use assms(4) in auto)
  with note_auth_changes [of E env c ph f s] assms(4) obtain ip d n where n: "ph = AwaitResponse ip d"
    "accepted_nonce E env d f (svc s) = Some n" "auths s' = auths s @ [(mono env, c, dev_id d, n)]"
    by auto
  moreover have "registered okc d" using so f(1) n(1) by (auto simp: sessions_ok_def)
  ultimately show ?thesis using f(1) accepted_nonce_Some [OF n(2)] by blast
qed

end
