(* ===== verification/Numbers.thy ===== *)
theory Numbers
  imports Json
begin

text \<open>
  \<open>int(v)\<close> and \<open>float(v)\<close> on parsed JSON values, texts included, as the reference client, the PAM
  helper and the Windows service call them on what they read.
\<close>

section \<open>Integers\<close>

text \<open>\<open>int(s)\<close> for a text: white space around, a sign, digits with single underscores between.\<close>

fun digit_groups :: "string \<Rightarrow> string option" where
  "digit_groups [] = None"
| "digit_groups [c] = (if is_digit c then Some [c] else None)"
| "digit_groups (c # d # s) =
     (if \<not> is_digit c then None
      else if d = CHR ''_'' then map_option ((#) c) (digit_groups s)
      else map_option ((#) c) (digit_groups (d # s)))"

definition int_of_str :: "string \<Rightarrow> int option" where
  "int_of_str s =
     (case py_strip s of
        [] \<Rightarrow> None
      | c # r \<Rightarrow>
          if c = CHR ''-'' then map_option (\<lambda>ds. - int (digits_val ds)) (digit_groups r)
          else if c = CHR ''+'' then map_option (\<lambda>ds. int (digits_val ds)) (digit_groups r)
          else map_option (\<lambda>ds. int (digits_val ds)) (digit_groups (c # r)))"

definition py_int :: "json \<Rightarrow> int result" where
  "py_int v =
     (case v of
        JInt i \<Rightarrow> Inr i
      | JBool b \<Rightarrow> Inr (if b then 1 else 0)
      | JFloat (Fin q) \<Rightarrow> Inr (py_trunc q)
      | JFloat NaN \<Rightarrow> Inl ValueError
      | JFloat _ \<Rightarrow> Inl OverflowError
      | JStr s \<Rightarrow> (case int_of_str s of None \<Rightarrow> Inl ValueError | Some i \<Rightarrow> Inr i)
      | _ \<Rightarrow> Inl TypeError)"

section \<open>Floats\<close>

text \<open>
  \<open>float(s)\<close> for a text: white space around, a sign, and \<open>inf\<close>, \<open>infinity\<close>, \<open>nan\<close> in any case or a
  decimal number with an optional exponent; at least one digit before or after the point.
\<close>

definition sign_stripped :: "string \<Rightarrow> string" where
  "sign_stripped s = (case s of c # r \<Rightarrow> if c = CHR ''+'' \<or> c = CHR ''-'' then r else s | [] \<Rightarrow> [])"

definition is_negative :: "string \<Rightarrow> bool" where
  "is_negative s = (case s of c # r \<Rightarrow> c = CHR ''-'' | [] \<Rightarrow> False)"

definition is_exp_char :: "char \<Rightarrow> bool" where
  "is_exp_char c \<longleftrightarrow> c = CHR ''e'' \<or> c = CHR ''E''"

definition exponent_of :: "string \<Rightarrow> int option" where
  "exponent_of s =
     (case s of
        [] \<Rightarrow> Some 0
      | c # r \<Rightarrow>
          if \<not> is_exp_char c then None
          else map_option (\<lambda>ds. if is_negative r then - int (digits_val ds) else int (digits_val ds))
                 (digit_groups (sign_stripped r)))"

definition optional_digits :: "string \<Rightarrow> string option" where
  "optional_digits s = (if s = [] then Some [] else digit_groups s)"

definition decimal_of :: "string \<Rightarrow> rat option" where
  "decimal_of t =
     (let mant = takeWhile (\<lambda>c. \<not> is_exp_char c) t;
          whole = takeWhile (\<lambda>c. c \<noteq> CHR ''.'') mant;
          frac = drop (length whole + 1) mant
      in if whole = [] \<and> frac = [] then None
         else case (optional_digits whole, optional_digits frac, exponent_of (dropWhile (\<lambda>c. \<not> is_exp_char c) t)) of
                (Some w, Some f, Some e) \<Rightarrow> Some (scale10 (e - int (length f)) (of_nat (digits_val (w @ f))))
              | _ \<Rightarrow> None)"

definition float_of_str :: "string \<Rightarrow> pyfloat option" where
  "float_of_str s =
     (let u = py_strip s; neg = is_negative u; t = sign_stripped u
      in if py_lower t \<in> {''inf'', ''infinity''} then Some (if neg then NInf else PInf)
         else if py_lower t = ''nan'' then Some NaN
         else map_option (\<lambda>q. to_float (if neg then - q else q)) (decimal_of t))"

definition py_float :: "json \<Rightarrow> pyfloat result" where
  "py_float v =
     (case v of
        JInt i \<Rightarrow> (case to_float (of_int i) of Fin q \<Rightarrow> Inr (Fin q) | _ \<Rightarrow> Inl OverflowError)
      | JBool b \<Rightarrow> Inr (Fin (if b then 1 else 0))
      | JFloat x \<Rightarrow> Inr x
      | JStr s \<Rightarrow> (case float_of_str s of None \<Rightarrow> Inl ValueError | Some x \<Rightarrow> Inr x)
      | _ \<Rightarrow> Inl TypeError)"

text \<open>Which exceptions the two conversions raise.\<close>

lemma py_int_exc: "py_int v = Inl e \<Longrightarrow> e \<in> {ValueError, OverflowError, TypeError}"
  by (auto simp: py_int_def split: json.splits pyfloat.splits option.splits)

lemma py_float_exc: "py_float v = Inl e \<Longrightarrow> e \<in> {ValueError, OverflowError, TypeError}"
  by (auto simp: py_float_def split: json.splits pyfloat.splits option.splits)

text \<open>A printed integer is read back by both.\<close>

lemma digit_groups_digits: "list_all is_digit s \<Longrightarrow> s \<noteq> [] \<Longrightarrow> digit_groups s = Some s"
  by (induction s rule: digit_groups.induct) (auto simp: is_digit_def)

lemma number_char_not_space: "number_char c \<Longrightarrow> \<not> is_space c"
  by (auto simp: number_char_def is_digit_def is_space_def)

lemma py_strip_number: "list_all number_char s \<Longrightarrow> py_strip s = s"
proof -
  assume a: "list_all number_char s"
  have d: "dropWhile is_space t = t" if "list_all number_char t" for t
    using that by (cases t) (simp_all add: number_char_not_space)
  from a have "list_all number_char (rev s)" by (simp add: list_all_iff)
  with a show ?thesis by (simp add: py_strip_def lstrip_by_def rstrip_by_def d)
qed

lemma int_of_show_int: "int_of_str (show_int i) = Some i"
proof -
  obtain c ds where s: "show_nat (nat \<bar>i\<bar>) = c # ds" "is_digit c" by (rule show_nat_Cons)
  have g: "digit_groups (c # ds) = Some (c # ds)"
    using show_nat_digits [of "nat \<bar>i\<bar>"] s by (intro digit_groups_digits) simp_all
  have v: "digits_val (c # ds) = nat \<bar>i\<bar>" using digits_val_show_nat [of "nat \<bar>i\<bar>"] s by simp
  have "c \<noteq> CHR ''-''" "c \<noteq> CHR ''+''" using s(2) by (auto simp: is_digit_def)
  with s g v show ?thesis
    unfolding int_of_str_def py_strip_number [OF show_int_number_chars]
    by (auto simp: show_int_def)
qed

lemma py_int_text [simp]: "py_int (JStr (show_int i)) = Inr i"
  by (simp add: py_int_def int_of_show_int)

end
