(* ===== verification/Client.thy ===== *)
theory Client
  imports Service Numbers
begin

text \<open>
  The phone's side: the coroutine \<open>unlock\<close> of \<^verbatim>\<open>src/client_example.py\<close>, cut at its two receives, and
  its proof against the service.  What it receives is the text of a frame, or the exception of
  \<open>wait_for\<close> and \<open>recv\<close>.  The client passes JSON values of any kind on to \<open>signed_message\<close>, so the
  conversions of that function are written out here.
\<close>

section \<open>The call of signed_message on received values\<close>

text \<open>The checks come in the order of the source; the number is converted last.\<close>

definition signed_message_json :: "string \<Rightarrow> json \<Rightarrow> json \<Rightarrow> string \<Rightarrow> string \<Rightarrow> bytes result" where
  "signed_message_json role nonce issued_ms device_id target =
     (if role \<noteq> ''challenge'' \<and> role \<noteq> ''response'' then Inl ValueError
      else case nonce of
             JStr n \<Rightarrow>
               if \<not> NONCE_RE n then Inl ValueError
               else if \<not> ID_RE device_id \<or> \<not> ID_RE target then Inl ValueError
               else bindE (py_int issued_ms) (\<lambda>ms. signed_message role n ms device_id target)
           | _ \<Rightarrow> Inl TypeError)"

section \<open>The coroutine\<close>

definition client_hello :: "string \<Rightarrow> json" where
  "client_hello device_id = JObj [(''type'', JStr ''hello''), (''device_id'', JStr device_id)]"

text \<open>\<open>json.loads\<close> of the received text, then a method call that only a dictionary has.\<close>

definition recv_obj :: "string result \<Rightarrow> (string \<times> json) list result" where
  "recv_obj raw =
     bindE raw (\<lambda>t. case loads t of
                      None \<Rightarrow> Inl JSONDecodeError
                    | Some (JObj d) \<Rightarrow> Inr d
                    | Some _ \<Rightarrow> Inl AttributeError)"

definition client_respond ::
  "('sk, 'pk) ext \<Rightarrow> 'sk \<Rightarrow> string \<Rightarrow> 'pk \<Rightarrow> string \<Rightarrow> string result \<Rightarrow> json result" where
  "client_respond E device_key device_id laptop_pub target raw =
     bindE (recv_obj raw)
       (\<lambda>ch.
          if jget ch ''type'' \<noteq> JStr ''challenge'' \<or> jget ch ''target_id'' \<noteq> JStr target
          then Inl (ServerAuthError ''unexpected challenge'')
          else
            bindE (jitem ch ''nonce'') (\<lambda>nonce.
            bindE (jitem ch ''issued_ms'') (\<lambda>issued_ms.
            bindE (signed_message_json ''challenge'' nonce issued_ms device_id target) (\<lambda>smsg.
            bindE (verify_sig E laptop_pub smsg (jget ch ''server_sig'')) (\<lambda>ok.
              if \<not> ok then Inl (ServerAuthError ''server signature invalid - refusing to sign'')
              else
                bindE (signed_message_json ''response'' nonce issued_ms device_id target) (\<lambda>rmsg.
                  Inr (JObj [(''type'', JStr ''response''), (''nonce'', nonce),
                             (''signature'', JStr (sign E device_key rmsg))])))))))"

definition client_result :: "string result \<Rightarrow> bool result" where
  "client_result raw = bindE (recv_obj raw) (\<lambda>res. Inr (jget res ''ok'' = JBool True))"

section \<open>The client signs nothing unverified\<close>

lemma signed_message_json_Inr:
  "signed_message_json role v w dev tgt = Inr m \<longleftrightarrow>
    (\<exists>n ms. v = JStr n \<and> py_int w = Inr ms \<and> signed_message role n ms dev tgt = Inr m)"
  by (auto simp: signed_message_json_def bindE_eq_Inr signed_message_def split: json.splits)

lemma client_respond_Inr:
  assumes "client_respond E dk dev lp tgt raw = Inr r"
  shows "\<exists>ch n ms smsg rmsg. recv_obj raw = Inr ch \<and> jget ch ''nonce'' = JStr n
    \<and> signed_message ''challenge'' n ms dev tgt = Inr smsg \<and> verify_sig E lp smsg (jget ch ''server_sig'') = Inr True
    \<and> signed_message ''response'' n ms dev tgt = Inr rmsg
    \<and> r = JObj [(''type'', JStr ''response''), (''nonce'', JStr n), (''signature'', JStr (sign E dk rmsg))]"
  using assms
  by (auto simp: client_respond_def bindE_eq_Inr signed_message_json_Inr jitem_def jget_def split: if_splits option.splits)

text \<open>
  C26.  The phone signs nothing for a laptop it has not verified: it produces a response only when
  the challenge carries a signature that verifies under the laptop's key, over the challenge
  message for this device and this target and the very nonce and issue time of the response; and
  the one thing it signs is the response message with these values.
\<close>

theorem client_signs_only_verified:
  assumes "client_respond E dk dev lp tgt raw = Inr r"
  shows "\<exists>ch n ms smsg rmsg. recv_obj raw = Inr ch \<and> jget ch ''nonce'' = JStr n
    \<and> signed_message ''challenge'' n ms dev tgt = Inr smsg \<and> verify_sig E lp smsg (jget ch ''server_sig'') = Inr True
    \<and> signed_message ''response'' n ms dev tgt = Inr rmsg
    \<and> r = JObj [(''type'', JStr ''response''), (''nonce'', JStr n), (''signature'', JStr (sign E dk rmsg))]"
  using assms by (rule client_respond_Inr)

section \<open>An honest phone gets in\<close>

text \<open>A key pair whose signatures verify and have the length of a DER signature.\<close>

definition key_pair :: "('sk, 'pk) ext \<Rightarrow> 'sk \<Rightarrow> 'pk \<Rightarrow> bool" where
  "key_pair E sk pk \<longleftrightarrow>
     (\<forall>m. ec_verify E pk (ec_sign E sk m) m = None \<and> length (ec_sign E sk m) \<le> 100 \<and> length (ec_sign E sk m) \<noteq> 64)"

lemma key_pair_verifies: "key_pair E sk pk \<Longrightarrow> verify_sig E pk m (JStr (sign E sk m)) = Inr True"
  by (auto simp: key_pair_def verify_sig_JStr sign_def der_signature_def MAX_SIG_HEX_def not_less)

lemma signed_message_role:
  assumes "signed_message ''challenge'' n ms dev tgt = Inr m"
  shows "\<exists>m'. signed_message ''response'' n ms dev tgt = Inr m'"
  using assms by (auto simp: signed_message_def split: if_splits)

definition send :: "('sk, 'pk) ext \<Rightarrow> json \<Rightarrow> string" where
  "send E v = dumps (float_repr E) default_style v"

lemma loads_send: "plain v \<Longrightarrow> loads (send E v) = Some v"
  by (simp add: send_def loads_dumps)

lemma recv_obj_send: "plain (JObj d) \<Longrightarrow> recv_obj (Inr (send E (JObj d))) = Inr d"
  using loads_send [of "JObj d" E] by (simp add: recv_obj_def del: plain.simps)

lemma recv_json_send: "plain (JObj d) \<Longrightarrow> recv_json (Text (send E (JObj d))) = Inr d"
  using loads_send [of "JObj d" E] by (simp add: recv_json_def del: plain.simps)

text \<open>The answer of the honest client to a challenge of the service.\<close>

lemma client_answers:
  assumes m: "signed_message ''challenge'' n ms dev tgt = Inr m" and k: "key_pair E sk lp"
  obtains rmsg where "signed_message ''response'' n ms dev tgt = Inr rmsg"
    and "client_respond E dk dev lp tgt (Inr (send E (JObj [(''type'', JStr ''challenge''), (''nonce'', JStr n),
      (''issued_ms'', JInt ms), (''target_id'', JStr tgt), (''server_sig'', JStr (sign E sk m))])))
      = Inr (JObj [(''type'', JStr ''response''), (''nonce'', JStr n), (''signature'', JStr (sign E dk rmsg))])"
proof -
  obtain rmsg where r: "signed_message ''response'' n ms dev tgt = Inr rmsg"
    using signed_message_role [OF m] by blast
  let ?ch = "[(''type'', JStr ''challenge''), (''nonce'', JStr n), (''issued_ms'', JInt ms), (''target_id'', JStr tgt), (''server_sig'', JStr (sign E sk m))]"
  have "recv_obj (Inr (send E (JObj ?ch))) = Inr ?ch"
    by (rule recv_obj_send) (simp add: dict_ok_def)
  moreover have "signed_message_json ''challenge'' (JStr n) (JInt ms) dev tgt = Inr m"
      "signed_message_json ''response'' (JStr n) (JInt ms) dev tgt = Inr rmsg"
    using m r by (simp_all add: signed_message_json_Inr py_int_def)
  ultimately have "client_respond E dk dev lp tgt (Inr (send E (JObj ?ch)))
      = Inr (JObj [(''type'', JStr ''response''), (''nonce'', JStr n), (''signature'', JStr (sign E dk rmsg))])"
    using key_pair_verifies [OF k] by (simp add: client_respond_def jget_def jitem_def)
  with r show ?thesis by (rule that)
qed

lemma honest_response:
  assumes hello: "handle_frame E env c (AwaitHello ip cd) f s = (AwaitResponse ip' d, s1)"
    and server: "key_pair E (signing_key s) lp"
    and phone: "load_public_key E (public_key_pem d) = Inr pk" "key_pair E dk pk"
    and time: "mono env2 - mono env \<le> challenge_ttl (cfg s)"
  shows "\<exists>ch r. peer_view c s1 = peer_view c s @ [Sent c ch]
    \<and> client_respond E dk (dev_id d) lp (target_id (cfg s)) (Inr (send E ch)) = Inr r
    \<and> accepted_nonce E env2 d (Text (send E r)) s1 = Some (token env)"
proof -
  let ?n = "token env" and ?ms = "py_trunc (wall env * 1000)" and ?tgt = "target_id (cfg s)"
  have o: "on_hello E env c ip cd f s = (Inr (AwaitResponse ip' d), s1)"
    using hello by (auto simp: handle_frame_def intro: guarded_waiting)
  from on_hello_response [OF o] obtain ch where ch: "fst (issue_challenge E env (dev_id d) s) = Inr ch"
    and s1: "s1 = emit (Sent c (JObj ch)) (snd (issue_challenge E env (dev_id d) s))" by blast
  from issue_challenge_Inr [OF ch] obtain m where m: "signed_message ''challenge'' ?n ?ms (dev_id d) ?tgt = Inr m"
    and chj: "ch = [(''type'', JStr ''challenge''), (''nonce'', JStr ?n), (''issued_ms'', JInt ?ms),
            (''target_id'', JStr ?tgt), (''server_sig'', JStr (sign E (signing_key s) m))]"
    and p: "map_of (pending s1) ?n = Some (dev_id d, mono env, ?ms)"
    using s1 by auto
  obtain rmsg where rm: "signed_message ''response'' ?n ?ms (dev_id d) ?tgt = Inr rmsg"
    and cl: "client_respond E dk (dev_id d) lp ?tgt (Inr (send E (JObj ch)))
      = Inr (JObj [(''type'', JStr ''response''), (''nonce'', JStr ?n), (''signature'', JStr (sign E dk rmsg))])"
    unfolding chj by (rule client_answers [OF m server])
  let ?r = "[(''type'', JStr ''response''), (''nonce'', JStr ?n), (''signature'', JStr (sign E dk rmsg))]"
  have rj: "recv_json (Text (send E (JObj ?r))) = Inr ?r"
    by (rule recv_json_send) (simp add: dict_ok_def)
  have "NONCE_RE ?n" using m by (simp add: signed_message_def split: if_splits)
  moreover have "cfg s1 = cfg s" using s1 by simp
  ultimately have "fst (check_response E env2 d (JStr ?n) (JStr (sign E dk rmsg)) s1) = Inr None"
    unfolding check_response_accepts using p time rm phone key_pair_verifies [OF phone(2)] by auto
  then have "accepted_nonce E env2 d (Text (send E (JObj ?r))) s1 = Some ?n"
    by (simp add: accepted_nonce_def rj jget_def)
  moreover have "peer_view c s1 = peer_view c s @ [Sent c (JObj ch)]" using s1 by (simp add: peer_view_def)
  ultimately show ?thesis using cl by blast
qed

lemma client_result_sent: "client_result (Inr (send E (result_msg b))) = Inr b"
proof -
  have "recv_obj (Inr (send E (result_msg b))) = Inr [(''type'', JStr ''result''), (''ok'', JBool b)]"
    unfolding result_msg_def by (rule recv_obj_send) (simp add: dict_ok_def)
  then show ?thesis by (simp add: client_result_def jget_def)
qed

lemma honest_run:
  assumes hello: "handle_frame E env c (AwaitHello ip cd) f s = (AwaitResponse ip' d, s1)"
    and server: "key_pair E (signing_key s) lp"
    and phone: "load_public_key E (public_key_pem d) = Inr pk" "key_pair E dk pk"
    and time: "mono env2 - mono env \<le> challenge_ttl (cfg s)" and disk: "disk_ok env2"
  shows "\<exists>ch r s2. peer_view c s1 = peer_view c s @ [Sent c ch]
    \<and> client_respond E dk (dev_id d) lp (target_id (cfg s)) (Inr (send E ch)) = Inr r
    \<and> handle_frame E env2 c (AwaitResponse ip' d) (Text (send E r)) s1 = (Leaving, s2)
    \<and> peer_view c s2 = peer_view c s1 @ [Sent c (result_msg True)]
    \<and> client_result (Inr (send E (result_msg True))) = Inr True
    \<and> expires (sv_broker s2) = mono env2 + ttl (sv_broker s)"
proof -
  from honest_response [OF hello server phone time] obtain ch r where 1: "peer_view c s1 = peer_view c s @ [Sent c ch]"
    "client_respond E dk (dev_id d) lp (target_id (cfg s)) (Inr (send E ch)) = Inr r"
    and a: "accepted_nonce E env2 d (Text (send E r)) s1 = Some (token env)" by blast
  obtain l body where h: "handle_frame E env2 c (AwaitResponse ip' d) (Text (send E r)) s1 =
    (Leaving, (authorized_state env2 ip' (dev_id d) (token env) s1)\<lparr>audit := l,
       out := out s1 @ [Audited ''unlock_authorized'' (authorized_data ip' (dev_id d) s1),
                       Alerted ''Unlock AUTHORIZED'' body ''high'' [''unlock''], Sent c (result_msg True)]\<rparr>)"
    using accepted_effects [OF a disk] by blast
  have "on_hello E env c ip cd f s = (Inr (AwaitResponse ip' d), s1)"
    using hello by (auto simp: handle_frame_def intro: guarded_waiting)
  then have b: "sv_broker s1 = sv_broker s"
    using brok.P_on_hello [OF refl] by (metis snd_conv)
  obtain s2 where s2: "handle_frame E env2 c (AwaitResponse ip' d) (Text (send E r)) s1 = (Leaving, s2)"
    "peer_view c s2 = peer_view c s1 @ [Sent c (result_msg True)]" "expires (sv_broker s2) = mono env2 + ttl (sv_broker s)"
    using h b by (simp add: peer_view_def authorized_state_def issue_def)
  have "client_result (Inr (send E (result_msg True))) = Inr True" by (rule client_result_sent)
  with 1 s2 show ?thesis by blast
qed

text \<open>
  An honest phone gets in.  When the service has taken a phone's hello, the client, given the
  challenge the service sent, produces a response; if that reaches the service within
  \<open>challenge_ttl\<close> it is accepted, a grant is live for \<open>grant_ttl\<close> seconds, and the client reports
  success --- for every signature scheme that verifies its own signatures.
\<close>

theorem honest_phone_unlocks:
  assumes hello: "handle_frame E env c (AwaitHello ip cd) f s = (AwaitResponse ip' d, s1)"
    and server: "key_pair E (signing_key s) lp"
    and phone: "load_public_key E (public_key_pem d) = Inr pk" "key_pair E dk pk"
    and time: "mono env2 - mono env \<le> challenge_ttl (cfg s)" and disk: "disk_ok env2"
  shows "\<exists>ch r s2. peer_view c s1 = peer_view c s @ [Sent c ch]
    \<and> client_respond E dk (dev_id d) lp (target_id (cfg s)) (Inr (send E ch)) = Inr r
    \<and> handle_frame E env2 c (AwaitResponse ip' d) (Text (send E r)) s1 = (Leaving, s2)
    \<and> peer_view c s2 = peer_view c s1 @ [Sent c (result_msg True)]
    \<and> client_result (Inr (send E (result_msg True))) = Inr True
    \<and> expires (sv_broker s2) = mono env2 + ttl (sv_broker s)"
  by (rule honest_run [OF assms])

lemma key_pair_toy: "key_pair toy_ext k k"
  by (simp add: key_pair_def toy_ext_def)

lemma honest_phone_unlocks_witness:
  "\<exists>ch r (s2 :: nat service). client_respond toy_ext 5 ''phone1'' 7 ''laptop'' (Inr (send toy_ext ch)) = Inr r
    \<and> expires (sv_broker s2) = 22"
proof -
  obtain s1 where h: "handle_frame toy_ext (toy_env 1) 1 (AwaitHello ''ip'' (Some toy_device)) toy_hello toy_service
      = (AwaitResponse ''ip'' toy_device, s1)"
    using toy_hello_response by (metis prod.collapse)
  have k: "key_pair toy_ext (signing_key toy_service) 7" "load_public_key toy_ext (public_key_pem toy_device) = Inr 5"
    by (simp_all add: toy_service_def new_service_def Let_def key_pair_toy toy_key)
  have t: "mono (toy_env 2) - mono (toy_env 1) \<le> challenge_ttl (cfg toy_service)" "disk_ok (toy_env 2)"
    by (simp_all add: toy_env_def toy_service_def new_service_def toy_config_def Let_def)
  have c: "target_id (cfg toy_service) = ''laptop''" "mono (toy_env 2) + ttl (sv_broker toy_service) = 22"
    by (simp_all add: toy_env_def toy_service_def new_service_def toy_config_def Let_def new_broker_def)
  from honest_phone_unlocks [OF h k(1,2) key_pair_toy t] show ?thesis unfolding c toy_device_sel by blast
qed

lemma client_signs_only_verified_witness:
  "\<exists>ch n ms smsg. recv_obj (Inr (send toy_ext (JObj [(''type'', JStr ''challenge''), (''nonce'', JStr toy_nonce),
      (''issued_ms'', JInt 1000), (''target_id'', JStr ''laptop''),
      (''server_sig'', JStr (sign toy_ext 7 (PROTO @ ''|challenge|'' @ toy_nonce @ ''|1000|phone1|laptop|unlock'')))]))) = Inr ch
    \<and> signed_message ''challenge'' n ms ''phone1'' ''laptop'' = Inr smsg
    \<and> verify_sig toy_ext 7 smsg (jget ch ''server_sig'') = Inr True"
proof -
  have m: "signed_message ''challenge'' toy_nonce 1000 ''phone1'' ''laptop'' =
      Inr (PROTO @ ''|challenge|'' @ toy_nonce @ ''|1000|phone1|laptop|unlock'')"
    by code_simp
  obtain r where "client_respond toy_ext 5 ''phone1'' 7 ''laptop'' (Inr (send toy_ext (JObj [(''type'', JStr ''challenge''), (''nonce'', JStr toy_nonce),
      (''issued_ms'', JInt 1000), (''target_id'', JStr ''laptop''),
      (''server_sig'', JStr (sign toy_ext 7 (PROTO @ ''|challenge|'' @ toy_nonce @ ''|1000|phone1|laptop|unlock'')))]))) = Inr r"
    using client_answers [OF m key_pair_toy] by blast
  from client_signs_only_verified [OF this] show ?thesis by blast
qed

end
