(* ===== verification/PamHelper.thy ===== *)
theory PamHelper
  imports Client
begin

text \<open>
  The helper that \<^verbatim>\<open>pam_exec\<close> runs as root, \<^verbatim>\<open>src/pam_unlock_helper.py\<close>: \<open>request_unlock\<close> with its
  loop over \<open>recv\<close>, and \<open>main\<close> with its exit status.  A call on the socket is its outcome: a
  value or an exception; every exception is a refusal.
\<close>

section \<open>The reply\<close>

text \<open>
  \<open>rx i\<close> is the outcome of the \<open>i\<close>-th call of \<open>s.recv(8)\<close>; an empty chunk is the end of the
  stream.  The loop ends because every other chunk makes the reply longer.
\<close>

definition ends_newline :: "bytes \<Rightarrow> bool" where
  "ends_newline r \<longleftrightarrow> r \<noteq> [] \<and> last r = newline_char"

function read_reply :: "(nat \<Rightarrow> bytes result) \<Rightarrow> nat \<Rightarrow> bytes \<Rightarrow> bytes result" where
  "read_reply rx i reply =
     (if \<not> ends_newline reply \<and> length reply < 8
      then (case rx i of
              Inl e \<Rightarrow> Inl e
            | Inr chunk \<Rightarrow> if chunk = [] then Inr reply else read_reply rx (Suc i) (reply @ chunk))
      else Inr reply)"
  by pat_completeness auto
termination
  by (relation "measure (\<lambda>(rx, i, reply). 8 - length reply)") (auto simp: diff_less_mono2)

declare read_reply.simps [simp del]

text \<open>
  The socket as \<open>request_unlock\<close> uses it: \<open>connect\<close> stands for making the socket, setting its
  time-out and connecting; \<open>peer\<close> is the user id of the peer.
\<close>

record link =
  connect :: "unit result"
  peer :: "int result"
  sendall :: "unit result"
  rx :: "nat \<Rightarrow> bytes result"

definition unlock_request :: "('sk, 'pk) ext \<Rightarrow> string \<Rightarrow> string" where
  "unlock_request E user = send E (JObj [(''user'', JStr user)]) @ [newline_char]"

definition request_unlock :: "link \<Rightarrow> int \<Rightarrow> bool" where
  "request_unlock l expected_uid =
     (case bindE (connect l) (\<lambda>_. bindE (peer l) (\<lambda>peer_uid.
             if peer_uid \<noteq> expected_uid then Inr False
             else bindE (sendall l) (\<lambda>_. bindE (read_reply (rx l) 0 []) (\<lambda>reply. Inr (reply = ''1'' @ [newline_char])))))
      of Inr b \<Rightarrow> b | Inl e \<Rightarrow> False)"

section \<open>The command\<close>

text \<open>
  Whether \<open>float(v)\<close> returns.  The value is only used as a time-out, which is part of the outcome
  \<open>connect\<close>.
\<close>

definition float_ok :: "json \<Rightarrow> bool" where
  "float_ok v = (case py_float v of Inl e \<Rightarrow> False | Inr x \<Rightarrow> True)"

text \<open>
  \<open>main\<close>: the user name from the environment, the text of the configuration file, the user data
  base (\<open>None\<close> for a user it does not have), the own user id, and the socket behind a path.  The
  result is the exit status.
\<close>

definition helper_main ::
  "string \<Rightarrow> string result \<Rightarrow> (string \<Rightarrow> int option) \<Rightarrow> int \<Rightarrow> (json \<Rightarrow> link) \<Rightarrow> int" where
  "helper_main user cfg_text pwnam uid socks =
     (case cfg_text of
        Inl e \<Rightarrow> 1
      | Inr t \<Rightarrow>
          (case loads t of
             Some (JObj cf) \<Rightarrow>
               (case jget_default cf ''service_user'' (JStr ''remote-unlock'') of
                  JStr su \<Rightarrow>
                    (case pwnam su of
                       None \<Rightarrow> 1
                     | Some expected_uid \<Rightarrow>
                         if \<not> float_ok (jget_default cf ''pam_wait'' (JInt 15)) then 1
                         else if uid \<noteq> 0 \<or> user = [] then 1
                         else if request_unlock (socks (jget_default cf ''pam_socket'' (JStr ''/run/remote-unlock/pam.sock''))) expected_uid
                         then 0 else 1)
                | _ \<Rightarrow> 1)
           | _ \<Rightarrow> 1))"

section \<open>Only the exact reply unlocks\<close>

lemma read_reply_newline: "ends_newline r \<Longrightarrow> read_reply rv i r = Inr r"
  by (simp add: read_reply.simps)

lemma read_reply_extends: "read_reply rv i r = Inr x \<Longrightarrow> \<exists>t. x = r @ t"
proof (induction rv i r rule: read_reply.induct)
  case (1 rv i reply)
  then show ?case
    by (subst (asm) (2) read_reply.simps) (fastforce split: if_splits sum.splits)
qed

text \<open>The loop makes at most eight calls: each chunk that is not the last one brings a byte.\<close>

lemma read_reply_calls:
  "(\<And>j. i \<le> j \<Longrightarrow> j < i + (8 - length r) \<Longrightarrow> rv j = rv' j) \<Longrightarrow> read_reply rv i r = read_reply rv' i r"
proof (induction rv i r rule: read_reply.induct)
  case (1 rv i r)
  show ?case
  proof (cases "\<not> ends_newline r \<and> length r < 8")
    case True
    then have "i < i + (8 - length r)" by arith
    from "1.prems" [OF order_refl this] have here: "rv' i = rv i" by simp
    have "read_reply rv (Suc i) (r @ ch) = read_reply rv' (Suc i) (r @ ch)" if "rv i = Inr ch" "ch \<noteq> []" for ch
    proof (rule "1.IH" [OF True that])
      fix j
      assume "Suc i \<le> j" "j < Suc i + (8 - length (r @ ch))"
      then show "rv j = rv' j" using True \<open>ch \<noteq> []\<close> by (intro "1.prems") (cases ch; simp)+
    qed
    then show ?thesis using True
      by (subst (1 2) read_reply.simps) (auto simp: here split: sum.split)
  next
    case False
    then show ?thesis by (subst (1 2) read_reply.simps) auto
  qed
qed

lemma read_reply_length:
  "(\<And>j ch. rv j = Inr ch \<Longrightarrow> length ch \<le> 8) \<Longrightarrow> length r \<le> 15 \<Longrightarrow> read_reply rv i r = Inr x \<Longrightarrow> length x \<le> 15"
proof (induction rv i r rule: read_reply.induct)
  case (1 rv i r)
  show ?case
  proof (cases "\<not> ends_newline r \<and> length r < 8")
    case True
    from True "1.prems"(3) obtain ch where ch: "rv i = Inr ch" "ch = [] \<and> x = r \<or> ch \<noteq> [] \<and> read_reply rv (Suc i) (r @ ch) = Inr x"
      by (subst (asm) (2) read_reply.simps) (auto split: sum.splits if_splits)
    show ?thesis
    proof (cases "ch = []")
      case True
      with ch "1.prems"(2) show ?thesis by simp
    next
      case False
      have "length (r @ ch) \<le> 15" using "1.prems"(1) [OF ch(1)] True by simp
      with False ch(2) show ?thesis by (auto intro: "1.IH" [OF True ch(1) False "1.prems"(1)])
    qed
  next
    case False
    then have "read_reply rv i r = Inr r" by (subst read_reply.simps) auto
    with "1.prems"(2,3) show ?thesis by simp
  qed
qed

text \<open>
  C40.  The helper's reading ends whatever the other side sends: the loop depends on the first eight
  calls of \<open>recv\<close> alone, so no further call is made, and the reply it returns has at most fifteen
  bytes when no call returns more than the eight that were asked for.
\<close>

theorem read_reply_ends:
  "(list_all (\<lambda>j. rv j = rv' j) [0..<8] \<longrightarrow> read_reply rv 0 [] = read_reply rv' 0 [])
    \<and> ((\<forall>j ch. rv j = Inr ch \<longrightarrow> length ch \<le> 8) \<and> read_reply rv 0 [] = Inr x \<longrightarrow> length x \<le> 15)"
  using read_reply_calls [of 0 "[]" rv rv'] read_reply_length [of rv "[]" 0 x] by (auto simp: list_all_iff)

lemma read_reply_ends_witness:
  "read_reply (\<lambda>j. Inr ''x'') 0 [] = read_reply (\<lambda>j. if j < 8 then Inr ''x'' else Inl OSError) 0 []
    \<and> length ''xxxxxxxx'' \<le> (15 :: nat)"
proof -
  have c: "list_all (\<lambda>j. (Inr ''x'' :: bytes result) = (if j < 8 then Inr ''x'' else Inl OSError)) [0..<8]"
    by (simp add: list_all_iff)
  have r: "read_reply (\<lambda>j. Inr ''x'') 0 [] = Inr ''xxxxxxxx''"
    by (simp add: read_reply.simps ends_newline_def)
  have "\<forall>j ch. (Inr ''x'' :: bytes result) = Inr ch \<longrightarrow> length ch \<le> 8" by auto
  with read_reply_ends [of "\<lambda>j. Inr ''x''" "\<lambda>j. if j < 8 then Inr ''x'' else Inl OSError" "''xxxxxxxx''"] c r
  show ?thesis by (simp only: simp_thms)
qed

lemma append_one_newline:
  "ch @ t = ''1'' @ [newline_char] \<Longrightarrow> ch \<noteq> [] \<Longrightarrow> ch = ''1'' @ [newline_char] \<and> t = [] \<or> ch = ''1'' \<and> t = [newline_char]"
  by (cases ch; cases "tl ch") auto

lemma read_reply_yes:
  "read_reply rv 0 [] = Inr (''1'' @ [newline_char]) \<longleftrightarrow>
    rv 0 = Inr (''1'' @ [newline_char]) \<or> (rv 0 = Inr ''1'' \<and> rv 1 = Inr [newline_char])"
  (is "?l \<longleftrightarrow> ?r")
proof
  assume ?r
  then show ?l
    by (auto simp: read_reply.simps [of rv 0 "[]"] read_reply.simps [of rv "Suc 0" "''1''"] read_reply_newline ends_newline_def)
next
  assume l: ?l
  then obtain ch where ch: "rv 0 = Inr ch" "ch \<noteq> []" "read_reply rv 1 ch = Inr (''1'' @ [newline_char])"
    by (auto simp: read_reply.simps [of rv 0 "[]"] ends_newline_def split: sum.splits if_splits)
  from read_reply_extends [OF ch(3)] obtain t where "ch @ t = ''1'' @ [newline_char]" by metis
  from append_one_newline [OF this ch(2)] show ?r
  proof
    assume "ch = ''1'' \<and> t = [newline_char]"
    then have c1: "ch = ''1''" by simp
    with ch(3) obtain ch' where ch': "rv 1 = Inr ch'" "ch' \<noteq> []" "read_reply rv 2 (''1'' @ ch') = Inr (''1'' @ [newline_char])"
      by (auto simp: read_reply.simps [of rv "Suc 0" "''1''"] ends_newline_def numeral_2_eq_2 split: sum.splits if_splits)
    from read_reply_extends [OF ch'(3)] have "ch' = [newline_char]" using ch'(2) by (cases ch') auto
    with ch(1) ch'(1) c1 show ?r by simp
  qed (use ch(1) in simp)
qed

lemma request_unlock_iff:
  "request_unlock l u \<longleftrightarrow> connect l = Inr () \<and> peer l = Inr u \<and> sendall l = Inr ()
    \<and> read_reply (rx l) 0 [] = Inr (''1'' @ [newline_char])"
  by (auto simp: request_unlock_def bindE_def split: sum.splits)

text \<open>
  The helper says yes only to the real service and to its exact words: every call on the
  socket must succeed, the peer must run as the configured service user, and the bytes received
  must be \<open>1\<close> and a newline, in one piece or in two; any other reply, time-out, end of stream or
  error is a refusal.
\<close>

theorem request_unlock_yes_iff:
  "request_unlock l u \<longleftrightarrow> connect l = Inr () \<and> peer l = Inr u \<and> sendall l = Inr ()
    \<and> (rx l 0 = Inr (''1'' @ [newline_char]) \<or> (rx l 0 = Inr ''1'' \<and> rx l 1 = Inr [newline_char]))"
  by (simp only: request_unlock_iff read_reply_yes)

text \<open>
  C34.  The exit status is \<open>0\<close> exactly for root, with a user name, with a readable configuration
  whose service user exists and whose waiting time is a number, when every call on the socket it
  names succeeds, the process at the other end runs as this very user, and its bytes are \<open>1\<close> and a
  newline, in one piece or in two; in every other case, any malformed configuration included, it is \<open>1\<close>.
\<close>

theorem helper_exit_iff:
  "(helper_main user cfg_text pwnam uid socks = 0 \<longleftrightarrow>
     uid = 0 \<and> user \<noteq> []
     \<and> (\<exists>t cf su u w l. cfg_text = Inr t \<and> loads t = Some (JObj cf)
          \<and> jget_default cf ''service_user'' (JStr ''remote-unlock'') = JStr su \<and> pwnam su = Some u
          \<and> py_float (jget_default cf ''pam_wait'' (JInt 15)) = Inr w
          \<and> l = socks (jget_default cf ''pam_socket'' (JStr ''/run/remote-unlock/pam.sock''))
          \<and> connect l = Inr () \<and> peer l = Inr u \<and> sendall l = Inr ()
          \<and> (rx l 0 = Inr (''1'' @ [newline_char]) \<or> rx l 0 = Inr ''1'' \<and> rx l 1 = Inr [newline_char])))
   \<and> helper_main user cfg_text pwnam uid socks \<in> {0, 1}"
proof
  have f: "float_ok v \<longleftrightarrow> (\<exists>w. py_float v = Inr w)" for v by (simp add: float_ok_def split: sum.split)
  have "helper_main user cfg_text pwnam uid socks = 0 \<longleftrightarrow> uid = 0 \<and> user \<noteq> []
     \<and> (\<exists>t cf su u. cfg_text = Inr t \<and> loads t = Some (JObj cf)
          \<and> jget_default cf ''service_user'' (JStr ''remote-unlock'') = JStr su \<and> pwnam su = Some u
          \<and> float_ok (jget_default cf ''pam_wait'' (JInt 15))
          \<and> request_unlock (socks (jget_default cf ''pam_socket'' (JStr ''/run/remote-unlock/pam.sock''))) u)"
    by (auto simp: helper_main_def split: sum.splits option.splits json.splits)
  then show "helper_main user cfg_text pwnam uid socks = 0 \<longleftrightarrow>
     uid = 0 \<and> user \<noteq> []
     \<and> (\<exists>t cf su u w l. cfg_text = Inr t \<and> loads t = Some (JObj cf)
          \<and> jget_default cf ''service_user'' (JStr ''remote-unlock'') = JStr su \<and> pwnam su = Some u
          \<and> py_float (jget_default cf ''pam_wait'' (JInt 15)) = Inr w
          \<and> l = socks (jget_default cf ''pam_socket'' (JStr ''/run/remote-unlock/pam.sock''))
          \<and> connect l = Inr () \<and> peer l = Inr u \<and> sendall l = Inr ()
          \<and> (rx l 0 = Inr (''1'' @ [newline_char]) \<or> rx l 0 = Inr ''1'' \<and> rx l 1 = Inr [newline_char]))"
    unfolding f request_unlock_iff read_reply_yes by blast
  show "helper_main user cfg_text pwnam uid socks \<in> {0, 1}"
    by (simp add: helper_main_def split: sum.split option.split json.split)
qed

lemma helper_exit_iff_witness:
  "helper_main ''me'' (Inr ''{}'') (\<lambda>_. Some 990) 0 (\<lambda>_. \<lparr>connect = Inr (), peer = Inr 990, sendall = Inr (), rx = (\<lambda>_. Inr (''1'' @ [newline_char]))\<rparr>) = 0
    \<and> helper_main ''me'' (Inr ''{}'') (\<lambda>_. Some 991) 0 (\<lambda>_. \<lparr>connect = Inr (), peer = Inr 990, sendall = Inr (), rx = (\<lambda>_. Inr (''1'' @ [newline_char]))\<rparr>) = 1"
proof -
  have l: "loads ''{}'' = Some (JObj [])" by code_simp
  have d: "jget_default [] k v = v" for k v by (simp add: jget_default_def)
  have w: "\<exists>w. py_float (JInt 15) = Inr w" by (simp add: py_float_def to_float_def)
  have "helper_main ''me'' (Inr ''{}'') (\<lambda>_. Some 990) 0 (\<lambda>_. \<lparr>connect = Inr (), peer = Inr 990, sendall = Inr (), rx = (\<lambda>_. Inr (''1'' @ [newline_char]))\<rparr>) = 0"
    unfolding helper_exit_iff [THEN conjunct1] using w by (simp add: l d)
  moreover have "helper_main ''me'' (Inr ''{}'') (\<lambda>_. Some 991) 0 (\<lambda>_. \<lparr>connect = Inr (), peer = Inr 990, sendall = Inr (), rx = (\<lambda>_. Inr (''1'' @ [newline_char]))\<rparr>) \<noteq> 0"
    unfolding helper_exit_iff [THEN conjunct1] by (simp add: l d)
  with helper_exit_iff [THEN conjunct2, of "''me''" "Inr ''{}''" "\<lambda>_. Some 991" 0 "\<lambda>_. \<lparr>connect = Inr (), peer = Inr 990, sendall = Inr (), rx = (\<lambda>_. Inr (''1'' @ [newline_char]))\<rparr>"]
  have "helper_main ''me'' (Inr ''{}'') (\<lambda>_. Some 991) 0 (\<lambda>_. \<lparr>connect = Inr (), peer = Inr 990, sendall = Inr (), rx = (\<lambda>_. Inr (''1'' @ [newline_char]))\<rparr>) = 1" by blast
  ultimately show ?thesis ..
qed

section \<open>Helper and service\<close>

lemma loads_request: "loads (unlock_request E user) = Some (JObj [(''user'', JStr user)])"
proof -
  have "loads (dumps (float_repr E) default_style (JObj [(''user'', JStr user)]) @ [newline_char])
      = Some (jnorm False (JObj [(''user'', JStr user)]))"
    by (subst loads_dumps_ws) (simp_all add: dict_ok_def follow_ok_def is_digit_def ws_def is_ws_def del: jnorm_JObj)
  then show ?thesis by (simp add: unlock_request_def send_def sorted_items_def)
qed

text \<open>The bytes of the service's answer.\<close>

definition answer_bytes :: "bool \<Rightarrow> bytes" where
  "answer_bytes ok = (if ok then ''1'' else ''0'') @ [newline_char]"

lemma answer_read: "connect l = Inr () \<Longrightarrow> peer l = Inr u \<Longrightarrow> sendall l = Inr () \<Longrightarrow> rx l 0 = Inr (answer_bytes ok)
    \<Longrightarrow> request_unlock l u = ok"
  by (simp only: request_unlock_iff read_reply_yes) (auto simp: answer_bytes_def)

lemma service_answers_request:
  assumes "live (sv_broker s) (mono env)" "disk_ok env" "0 \<le> mono env"
  shows "\<exists>s'. pam_line E env c pid uid (Inr (unlock_request E (unlock_user (cfg s)))) s = (PamAnswered True, s')
    \<and> PamReplied c True \<in> set (out s') \<and> \<not> live (sv_broker s') (mono env)"
proof -
  let ?b = "consume (pam_wait (cfg s)) (mono env) (sv_broker s)"
  have t: "snd ?b = Return True" using assms(1) by (simp add: consume_def poll_live)
  have nl: "\<not> live (fst ?b) (mono env)" using assms(3) by (simp add: consume_def poll_not_live)
  let ?s = "s\<lparr>sv_broker := fst ?b\<rparr>"
  let ?data = "[(''user'', JStr (unlock_user (cfg s))), (''uid'', JInt uid), (''pid'', JInt pid)]"
  obtain sq hs l where r: "record_event E env ''pam_grant_consumed'' (Some ''PAM unlock granted'') ''default'' [''key''] ?data ?s
      = (Inr (sq, hs), ?s\<lparr>audit := l, out := out ?s @ Audited ''pam_grant_consumed'' ?data #
          alert_of (Some ''PAM unlock granted'') E ''default'' [''key''] ?data sq hs\<rparr>)"
    by (rule record_event_ok [OF assms(2)])
  have "pam_line E env c pid uid (Inr (unlock_request E (unlock_user (cfg s)))) s
      = (PamAnswered True, pam_finish E env c (unlock_user (cfg s)) pid uid True ?s)"
    using t by (simp add: pam_line_def loads_request jget_def py_eq_str_def pam_turn_def Let_def)
  then show ?thesis using r nl by (simp add: pam_finish_def pam_reply_def emit_def)
qed

section \<open>From the hello to the login\<close>

lemma login_run:
  assumes hello: "handle_frame E env c (AwaitHello ip cd) f s = (AwaitResponse ip' d, s1)"
    and server: "key_pair E (signing_key s) lp"
    and phone: "load_public_key E (public_key_pem d) = Inr pk" "key_pair E dk pk"
    and time: "mono env2 - mono env \<le> challenge_ttl (cfg s)" and disk: "disk_ok env2" "disk_ok env3"
    and login: "0 \<le> mono env3" "mono env3 < mono env2 + ttl (sv_broker s)"
  shows "\<exists>ch r s2 s3. peer_view c s1 = peer_view c s @ [Sent c ch]
    \<and> client_respond E dk (dev_id d) lp (target_id (cfg s)) (Inr (send E ch)) = Inr r
    \<and> handle_frame E env2 c (AwaitResponse ip' d) (Text (send E r)) s1 = (Leaving, s2)
    \<and> pam_line E env3 k pid uid (Inr (unlock_request E (unlock_user (cfg s2)))) s2 = (PamAnswered True, s3)
    \<and> PamReplied k True \<in> set (out s3)
    \<and> request_unlock \<lparr>connect = Inr (), peer = Inr u, sendall = Inr (), rx = (\<lambda>_. Inr (answer_bytes True))\<rparr> u"
proof -
  from honest_run [OF hello server phone time disk(1)] obtain ch r s2 where
    1: "peer_view c s1 = peer_view c s @ [Sent c ch]"
       "client_respond E dk (dev_id d) lp (target_id (cfg s)) (Inr (send E ch)) = Inr r"
       "handle_frame E env2 c (AwaitResponse ip' d) (Text (send E r)) s1 = (Leaving, s2)"
    and "expires (sv_broker s2) = mono env2 + ttl (sv_broker s)" by blast
  then have "live (sv_broker s2) (mono env3)" using login(2) by (simp add: live_def)
  from service_answers_request [OF this disk(2) login(1), of E k pid uid] obtain s3 where
    2: "pam_line E env3 k pid uid (Inr (unlock_request E (unlock_user (cfg s2)))) s2 = (PamAnswered True, s3)"
       "PamReplied k True \<in> set (out s3)" by blast
  have "request_unlock \<lparr>connect = Inr (), peer = Inr u, sendall = Inr (), rx = (\<lambda>_. Inr (answer_bytes True))\<rparr> u"
    by (subst answer_read [where ok = True]) simp_all
  with 1 2 show ?thesis by blast
qed

end
