(* ===== verification/Pretty.thy ===== *)
theory Pretty
  imports Json
begin

text \<open>
  \<open>json.dumps(v, indent=2)\<close>, as the pairing tools write the configuration, and its round trip
  through \<open>loads\<close>.
\<close>

definition new_line :: "nat \<Rightarrow> string" where
  "new_line d = newline_char # replicate (2 * d) (CHR '' '')"

text \<open>\<open>d\<close> is the nesting depth.  Empty containers are printed without white space.\<close>

fun dumps_indent :: "(rat \<Rightarrow> string) \<Rightarrow> nat \<Rightarrow> json \<Rightarrow> string" where
  "dumps_indent fr d (JList xs) =
     (if xs = [] then ''[]''
      else ''['' @ new_line (Suc d) @ py_join (CHR '','' # new_line (Suc d)) (map (dumps_indent fr (Suc d)) xs)
           @ new_line d @ '']'')"
| "dumps_indent fr d (JObj m) =
     (if m = [] then ''{}''
      else ''{'' @ new_line (Suc d)
           @ py_join (CHR '','' # new_line (Suc d)) (map (\<lambda>(k, v). quote_str k @ '': '' @ dumps_indent fr (Suc d) v) m)
           @ new_line d @ ''}'')"
| "dumps_indent fr d v = dumps fr default_style v"

lemma ws_new_line [simp]: "list_all is_ws (new_line d)"
  by (simp add: new_line_def list_all_iff is_ws_def)

lemma starts_value_indent: "plain v \<Longrightarrow> starts_value (dumps_indent fr d v @ s)"
  by (cases v) (simp_all add: starts_value_dumps del: dumps.simps, simp_all add: starts_value_def is_ws_def)

lemma reads_indent: "plain v \<Longrightarrow> reads pval (dumps_indent fr d v) v"
proof (induction v arbitrary: d)
  case (JList xs)
  show ?case
  proof (cases "xs = []")
    case True
    show ?thesis unfolding True
      by (rule readsI [where k = 1], rename_tac n rest, case_tac n) simp_all
  next
    case False
    let ?sep = "CHR '','' # new_line (Suc d)"
    let ?t = "py_join ?sep (map (dumps_indent fr (Suc d)) xs)"
    from False obtain y ys where xs: "xs = y # ys" by (cases xs) simp_all
    have "starts_value (dumps_indent fr (Suc d) y @ s)" for s
      by (rule starts_value_indent) (use JList.prems xs in simp)
    then have "starts_value (?t @ new_line d @ '']'')" by (cases ys) (simp_all add: xs)
    moreover have "reads (\<lambda>n. pelems n []) (?t @ new_line d @ '']'') (JList ([] @ map (\<lambda>x. x) xs))"
      by (rule reads_elems [OF refl ws_new_line ws_new_line False])
        (use JList in \<open>auto simp: list_all_iff starts_value_indent\<close>)
    ultimately have "reads pval (CHR ''['' # new_line (Suc d) @ ?t @ new_line d @ '']'') (JList ([] @ map (\<lambda>x. x) xs))"
      by (intro reads_bracket) simp_all
    with False show ?thesis by simp
  qed
next
  case (JObj m)
  show ?case
  proof (cases "m = []")
    case True
    show ?thesis unfolding True
      by (rule readsI [where k = 1], rename_tac n rest, case_tac n) simp_all
  next
    case False
    let ?sep = "CHR '','' # new_line (Suc d)"
    let ?tx = "\<lambda>(k, v). quote_str k @ '': '' @ dumps_indent fr (Suc d) v"
    let ?t = "py_join ?sep (map ?tx m)"
    have v: "plain x" "reads pval (dumps_indent fr (Suc d) x) x" if "(k, x) \<in> set m" for k x
      using JObj that by (auto simp: list_all_iff snds.simps)
    have "starts_value (?t @ new_line d @ ''}'')"
      using False by (cases m; cases "tl m") (auto simp: quote_str_def starts_value_def is_ws_def)
    moreover have "reads (\<lambda>n. pmembers n []) (?t @ new_line d @ ''}'') (JObj ([] @ map (\<lambda>(k, x). (k, x)) m))"
    proof (rule reads_members [OF refl ws_new_line refl _ ws_new_line False, where g = "\<lambda>x. x"])
      show "distinct (map fst m)" using JObj.prems by (simp add: dict_ok_def)
    qed (use v in \<open>auto intro: starts_value_indent simp: is_ws_def\<close>)
    ultimately have "reads pval (CHR ''{'' # new_line (Suc d) @ ?t @ new_line d @ ''}'') (JObj ([] @ map (\<lambda>(k, x). (k, x)) m))"
      by (intro reads_bracket) simp_all
    with False show ?thesis by simp
  qed
qed (use reads_dumps [OF style_ok_default] in \<open>auto simp del: dumps.simps\<close>)

lemma loads_indent: "plain v \<Longrightarrow> loads (dumps_indent fr d v) = Some v"
proof -
  assume v: "plain v"
  let ?t = "dumps_indent fr d v"
  obtain k where k: "\<forall>n\<ge>k. \<forall>rest. follow_ok rest \<longrightarrow> pval n (?t @ rest) = Some (v, rest)"
    by (rule readsE [OF reads_indent [OF v]])
  have "pval (2 * length ?t + 2) ?t = pval (max k (2 * length ?t + 2)) ?t"
    by (rule pval_fuel) simp_all
  also have "\<dots> = Some (v, [])"
    using k [rule_format, of "max k (2 * length ?t + 2)" "[]"] by simp
  finally have "pval (2 * length ?t + 2) ?t = Some (v, [])" .
  moreover have "ws ?t = ?t"
    using starts_value_indent [OF v, of fr d "[]"] by simp
  ultimately show ?thesis by (simp add: loads_def ws_def)
qed

interpretation pretty: codec "dumps_indent fr d" loads "\<lambda>v. v" plain for fr d
  by unfold_locales (rule loads_indent)

end
