(* ===== verification/Registry.thy ===== *)
theory Registry
  imports Common Pretty
begin

text \<open>
  The registry of devices between the tool that writes it (\<^verbatim>\<open>src/pair.py\<close>) and the service that
  reads it: saving and opening the configuration file, the records the service works with as a
  view of the JSON text, the changes the tool makes to the list of devices, and the contract of
  a device registry as a locale.
\<close>

section \<open>Saving and opening the configuration\<close>

text \<open>\<open>Config.save\<close>; \<open>tmp\<close> and \<open>flt\<close> are those of \<open>write_private\<close>.\<close>

definition config_save :: "(rat \<Rightarrow> string) \<Rightarrow> string \<Rightarrow> fault \<Rightarrow> string \<Rightarrow> (string \<times> json) list \<Rightarrow> fs \<Rightarrow> unit result \<times> fs" where
  "config_save fr tmp flt path data fs = prod.swap (write_private fs tmp flt path (dumps_indent fr 0 (JObj data)))"

text \<open>\<open>Config(path)\<close> in a tool that runs once: the time stamp plays no role.\<close>

definition open_config :: "fs \<Rightarrow> string \<Rightarrow> (string \<times> json) list result" where
  "open_config fs path =
     bindE (config_reload (map_option (\<lambda>f. (contents f, 0)) (fs path)) \<lparr>cfg_data = [], cfg_mtime = None\<rparr>)
       (\<lambda>c. Inr (cfg_data c))"

lemma config_save_cases:
  assumes "fs tmp = None" "tmp \<noteq> path" "config_save fr tmp flt path data fs = (r, fs')"
  shows "(r = Inl OSError \<and> fs' = fs)
    \<or> (r = Inr () \<and> fs' = fs(path \<mapsto> \<lparr>contents = dumps_indent fr 0 (JObj data), st_mode = 384\<rparr>))"
  using write_private_cases [where fs = fs and tmp = tmp and path = path and flt = flt
      and data = "dumps_indent fr 0 (JObj data)"] assms
  by (auto simp: config_save_def)

text \<open>What was saved is read back, entry by entry.\<close>

lemma open_saved:
  assumes "plain (JObj data)" and "fs path = Some \<lparr>contents = dumps_indent fr 0 (JObj data), st_mode = m\<rparr>"
  shows "open_config fs path = Inr (dict_update DEFAULTS data)"
  using loads_indent [OF assms(1), of fr 0] assms(2)
  by (simp add: open_config_def config_reload_def del: dumps_indent.simps)

section \<open>The typed view\<close>

text \<open>
  A device as the service reads it; entries of another kind than \<^verbatim>\<open>pair.py\<close> writes are outside the
  view.
\<close>

definition text_or :: "(string \<times> json) list \<Rightarrow> string \<Rightarrow> string \<Rightarrow> string" where
  "text_or d k x = (case jget d k of JStr s \<Rightarrow> s | _ \<Rightarrow> x)"

definition device_of :: "json \<Rightarrow> device option" where
  "device_of v =
     (case v of
        JObj d \<Rightarrow>
          (case (jget d ''id'', jget d ''public_key_pem'', jget d ''cert_sha256'') of
             (JStr i, JStr p, JStr c) \<Rightarrow>
               Some \<lparr>dev_id = i, public_key_pem = p, cert_sha256 = c,
                     enabled = py_truthy (jget_default d ''enabled'' (JBool True)),
                     created = text_or d ''created'' [], cert_expires = text_or d ''cert_expires'' ''?'',
                     revoked = (case jget d ''revoked'' of JStr t \<Rightarrow> Some t | _ \<Rightarrow> None)\<rparr>
           | _ \<Rightarrow> None)
      | _ \<Rightarrow> None)"

definition devices_of :: "json \<Rightarrow> device list option" where
  "devices_of v = (case v of JList xs \<Rightarrow> those (map device_of xs) | _ \<Rightarrow> None)"

lemma those_append: "those (xs @ ys) = (case (those xs, those ys) of (Some a, Some b) \<Rightarrow> Some (a @ b) | _ \<Rightarrow> None)"
  by (induction xs) (auto split: option.splits)

lemma those_Some: "those xs = Some ys \<longleftrightarrow> xs = map Some ys"
  by (induction xs arbitrary: ys) (auto split: option.splits simp: Cons_eq_map_conv)

section \<open>Changes of the list\<close>

text \<open>\<open>any(d["id"] == name for d in devices)\<close>.\<close>

fun any_id :: "string \<Rightarrow> json list \<Rightarrow> bool result" where
  "any_id name [] = Inr False"
| "any_id name (d # ds) = bindE (subscript d ''id'') (\<lambda>i. if py_eq_str i name then Inr True else any_id name ds)"

text \<open>The loop of \<open>revoke_device\<close>: \<open>None\<close> when no device has the name.\<close>

definition mark_revoked :: "string \<Rightarrow> (string \<times> json) list \<Rightarrow> (string \<times> json) list" where
  "mark_revoked now d = AList.update ''revoked'' (JStr now) (AList.update ''enabled'' (JBool False) d)"

fun revoke_in :: "string \<Rightarrow> string \<Rightarrow> json list \<Rightarrow> json list option result" where
  "revoke_in name now [] = Inr None"
| "revoke_in name now (d # ds) =
     (case d of
        JObj m \<Rightarrow>
          bindE (jitem m ''id'') (\<lambda>i.
            if py_eq_str i name then Inr (Some (JObj (mark_revoked now m) # ds))
            else bindE (revoke_in name now ds) (\<lambda>r. Inr (map_option ((#) d) r)))
      | _ \<Rightarrow> Inl TypeError)"

text \<open>The same on typed devices.\<close>

definition known :: "device list \<Rightarrow> string \<Rightarrow> bool" where
  "known ds name \<longleftrightarrow> name \<in> dev_id ` set ds"

definition reg_add :: "device \<Rightarrow> device list \<Rightarrow> device list option" where
  "reg_add d ds = (if known ds (dev_id d) then None else Some (ds @ [d]))"

definition disable :: "string \<Rightarrow> device \<Rightarrow> device" where
  "disable now d = d\<lparr>enabled := False, revoked := Some now\<rparr>"

fun reg_revoke :: "string \<Rightarrow> string \<Rightarrow> device list \<Rightarrow> device list option" where
  "reg_revoke now name [] = None"
| "reg_revoke now name (d # ds) =
     (if dev_id d = name then Some (disable now d # ds) else map_option ((#) d) (reg_revoke now name ds))"

lemma device_ofE:
  assumes "device_of v = Some d"
  obtains m where "v = JObj m" "jget m ''id'' = JStr (dev_id d)" "map_of m ''id'' = Some (JStr (dev_id d))"
proof (cases v)
  case (JObj m)
  with assms have "jget m ''id'' = JStr (dev_id d)"
    by (auto simp: device_of_def split: json.splits)
  moreover from this have "map_of m ''id'' = Some (JStr (dev_id d))"
    by (auto simp: jget_def split: option.splits)
  ultimately show ?thesis using JObj that by blast
qed (use assms in \<open>simp_all add: device_of_def\<close>)

lemma any_id_known: "map device_of xs = map Some ds \<Longrightarrow> any_id name xs = Inr (known ds name)"
proof (induction xs arbitrary: ds)
  case (Cons x xs)
  then obtain d ds' where ds: "ds = d # ds'" "device_of x = Some d" "map device_of xs = map Some ds'"
    by (cases ds) auto
  from ds(2) obtain m where "x = JObj m" "map_of m ''id'' = Some (JStr (dev_id d))" by (rule device_ofE)
  with Cons.IH [OF ds(3)] ds(1) show ?case
    by (auto simp: subscript_def jitem_def py_eq_str_def known_def)
qed (simp add: known_def)

lemma jget_revoked:
  "jget (mark_revoked now m) k = (if k = ''revoked'' then JStr now else if k = ''enabled'' then JBool False else jget m k)"
  "jget_default (mark_revoked now m) ''enabled'' v = JBool False"
  by (simp_all add: mark_revoked_def jget_def jget_default_def update_conv')

lemma device_of_revoked:
  assumes "device_of (JObj m) = Some d"
  shows "device_of (JObj (mark_revoked now m)) = Some (disable now d)"
proof -
  obtain i p c where f: "jget m ''id'' = JStr i" "jget m ''public_key_pem'' = JStr p" "jget m ''cert_sha256'' = JStr c"
    using assms by (auto simp: device_of_def split: json.splits)
  have t: "text_or (mark_revoked now m) ''created'' x = text_or m ''created'' x"
      "text_or (mark_revoked now m) ''cert_expires'' x = text_or m ''cert_expires'' x" for x
    by (simp_all add: text_or_def jget_revoked)
  from f assms t show ?thesis
    by (simp add: device_of_def jget_revoked disable_def) auto
qed

text \<open>The tool's loop refines the typed registry.\<close>

lemma revoke_in_typed:
  "map device_of xs = map Some ds \<Longrightarrow>
    case reg_revoke now name ds of
      None \<Rightarrow> revoke_in name now xs = Inr None
    | Some ds' \<Rightarrow> \<exists>xs'. revoke_in name now xs = Inr (Some xs') \<and> map device_of xs' = map Some ds'"
proof (induction xs arbitrary: ds)
  case (Cons x xs)
  then obtain d ds' where ds: "ds = d # ds'" "device_of x = Some d" "map device_of xs = map Some ds'"
    by (cases ds) auto
  from ds(2) obtain m where m: "x = JObj m" "map_of m ''id'' = Some (JStr (dev_id d))" by (rule device_ofE)
  show ?case
  proof (cases "dev_id d = name")
    case True
    with m ds device_of_revoked [of m d now] show ?thesis
      by (auto simp: jitem_def py_eq_str_def)
  next
    case False
    with m ds Cons.IH [OF ds(3)] show ?thesis
      by (auto simp: jitem_def py_eq_str_def split: option.splits)
  qed
qed simp

section \<open>The contract of a registry\<close>

text \<open>
  What the service relies on: a lookup by name sees exactly the devices that were added and not
  revoked.  A name that is known, revoked or not, cannot be added again.
\<close>

datatype ('d, 't) change = Add 'd | Revoke 't string

locale registry =
  fixes by_id :: "'r \<Rightarrow> string \<Rightarrow> 'd option" and has_name :: "'r \<Rightarrow> string \<Rightarrow> bool"
    and add :: "'d \<Rightarrow> 'r \<Rightarrow> 'r option" and revoke :: "'t \<Rightarrow> string \<Rightarrow> 'r \<Rightarrow> 'r option"
    and name_of :: "'d \<Rightarrow> string" and good :: "'d \<Rightarrow> bool" and inv :: "'r \<Rightarrow> bool"
  assumes add_inv: "inv r \<Longrightarrow> good d \<Longrightarrow> add d r = Some r' \<Longrightarrow> inv r'"
    and revoke_inv: "inv r \<Longrightarrow> revoke t n r = Some r' \<Longrightarrow> inv r'"
    and add_refused: "add d r = None \<longleftrightarrow> has_name r (name_of d)"
    and revoke_refused: "revoke t n r = None \<longleftrightarrow> \<not> has_name r n"
    and add_lookup: "inv r \<Longrightarrow> good d \<Longrightarrow> add d r = Some r' \<Longrightarrow>
      by_id r' n = (if n = name_of d then Some d else by_id r n)"
    and revoke_lookup: "inv r \<Longrightarrow> revoke t n r = Some r' \<Longrightarrow> by_id r' m = (if m = n then None else by_id r m)"
    and add_names: "add d r = Some r' \<Longrightarrow> has_name r' n \<longleftrightarrow> n = name_of d \<or> has_name r n"
    and revoke_names: "revoke t n r = Some r' \<Longrightarrow> has_name r' m \<longleftrightarrow> has_name r m"
begin

text \<open>A refused change leaves the registry as it is.\<close>

fun change :: "('d, 't) change \<Rightarrow> 'r \<Rightarrow> 'r" where
  "change (Add d) r = (case add d r of None \<Rightarrow> r | Some r' \<Rightarrow> r')"
| "change (Revoke t n) r = (case revoke t n r of None \<Rightarrow> r | Some r' \<Rightarrow> r')"

definition good_change :: "('d, 't) change \<Rightarrow> bool" where
  "good_change c = (case c of Add d \<Rightarrow> good d | Revoke t n \<Rightarrow> True)"

lemma change_inv: "inv r \<Longrightarrow> good_change c \<Longrightarrow> inv (change c r)"
  by (cases c) (auto simp: good_change_def intro: add_inv revoke_inv split: option.split)

lemma change_keeps_name: "has_name r n \<Longrightarrow> has_name (change c r) n"
  by (cases c) (auto simp: add_names revoke_names split: option.split)

text \<open>No change brings a known name back.\<close>

lemma change_off:
  assumes "inv r" "good_change c" "has_name r n" "by_id r n = None"
  shows "by_id (change c r) n = None"
proof (cases c)
  case (Add d)
  with assms show ?thesis
    using add_lookup [OF assms(1), of d _ n] add_refused [of d r] by (auto simp: good_change_def split: option.split)
next
  case (Revoke t m)
  with assms show ?thesis
    using revoke_lookup [OF assms(1), of t m _ n] by (auto split: option.split)
qed

lemma off_forever:
  assumes "inv r" "list_all good_change cs" "has_name r n" "by_id r n = None"
  shows "by_id (fold change cs r) n = None"
  using assms
proof (induction cs arbitrary: r)
  case (Cons c cs)
  then show ?case using change_inv change_keeps_name change_off by simp
qed simp

lemma revoked_forever:
  assumes "inv r" "revoke t n r = Some r'" "list_all good_change cs"
  shows "by_id (fold change cs r') n = None"
proof (rule off_forever [OF revoke_inv [OF assms(1,2)] assms(3)])
  show "has_name r' n" using assms(2) revoke_refused [of t n r] revoke_names [OF assms(2)] by simp
  show "by_id r' n = None" using revoke_lookup [OF assms(1,2)] by simp
qed

lemma added_stays:
  assumes "inv r" "good d" "add d r = Some r'" "list_all good_change cs" "\<And>t. Revoke t (name_of d) \<notin> set cs"
  shows "by_id (fold change cs r') (name_of d) = Some d"
proof -
  have "inv r'" "has_name r' (name_of d)" "by_id r' (name_of d) = Some d"
    using assms(1-3) add_inv add_names add_lookup by auto
  with assms(4,5) show ?thesis
  proof (induction cs arbitrary: r')
    case (Cons c cs)
    have "by_id (change c r') (name_of d) = Some d"
    proof (cases c)
      case (Add e)
      then show ?thesis
        using Cons.prems add_refused [of e r'] add_lookup [OF Cons.prems(3), of e _ "name_of d"]
        by (auto simp: good_change_def split: option.split)
    next
      case (Revoke t m)
      then show ?thesis
        using Cons.prems revoke_lookup [OF Cons.prems(3), of t m _ "name_of d"] by (auto split: option.split)
    qed
    with Cons show ?case by (simp add: change_inv change_keeps_name)
  qed simp
qed

end

definition registry_ok :: "device list \<Rightarrow> bool" where
  "registry_ok ds \<longleftrightarrow> distinct (map dev_id ds)"

lemma device_by_id_append: "device_by_id (ds @ es) n = (case device_by_id ds n of None \<Rightarrow> device_by_id es n | r \<Rightarrow> r)"
  by (induction ds) auto

lemma device_by_id_unknown: "\<not> known ds n \<Longrightarrow> device_by_id ds n = None"
  by (induction ds) (auto simp: known_def)

lemma reg_revoke_ids: "reg_revoke now n ds = Some ds' \<Longrightarrow> map dev_id ds' = map dev_id ds"
  by (induction ds arbitrary: ds') (auto simp: disable_def split: if_splits)

lemma reg_revoke_None: "reg_revoke now n ds = None \<longleftrightarrow> \<not> known ds n"
  by (induction ds) (auto simp: known_def)

lemma known_ids: "known ds n \<longleftrightarrow> n \<in> set (map dev_id ds)"
  by (simp add: known_def)

lemma reg_revoke_lookup:
  "registry_ok ds \<Longrightarrow> reg_revoke now n ds = Some ds' \<Longrightarrow> device_by_id ds' m = (if m = n then None else device_by_id ds m)"
proof (induction ds arbitrary: ds')
  case (Cons d ds)
  show ?case
  proof (cases "dev_id d = n")
    case True
    then have "\<not> known ds n" using Cons.prems(1) by (auto simp: registry_ok_def known_def)
    with True Cons.prems show ?thesis by (auto simp: disable_def device_by_id_unknown)
  next
    case False
    with Cons show ?thesis by (auto simp: registry_ok_def)
  qed
qed simp

interpretation reg: registry device_by_id known reg_add reg_revoke dev_id enabled registry_ok
proof
  fix r r' :: "device list" and d n m now
  show "registry_ok r \<Longrightarrow> enabled d \<Longrightarrow> reg_add d r = Some r' \<Longrightarrow> registry_ok r'"
    by (auto simp: registry_ok_def reg_add_def known_def split: if_splits)
  show "registry_ok r \<Longrightarrow> reg_revoke now n r = Some r' \<Longrightarrow> registry_ok r'"
    by (simp add: registry_ok_def reg_revoke_ids)
  show "reg_add d r = None \<longleftrightarrow> known r (dev_id d)" by (simp add: reg_add_def)
  show "reg_revoke now n r = None \<longleftrightarrow> \<not> known r n" by (rule reg_revoke_None)
  show "registry_ok r \<Longrightarrow> enabled d \<Longrightarrow> reg_add d r = Some r' \<Longrightarrow>
      device_by_id r' n = (if n = dev_id d then Some d else device_by_id r n)"
    by (auto simp: reg_add_def device_by_id_append device_by_id_unknown split: if_splits option.split)
  show "registry_ok r \<Longrightarrow> reg_revoke now n r = Some r' \<Longrightarrow> device_by_id r' m = (if m = n then None else device_by_id r m)"
    by (rule reg_revoke_lookup)
  show "reg_add d r = Some r' \<Longrightarrow> known r' n \<longleftrightarrow> n = dev_id d \<or> known r n"
    by (auto simp: reg_add_def known_def split: if_splits)
  show "reg_revoke now n r = Some r' \<Longrightarrow> known r' m \<longleftrightarrow> known r m"
    by (simp add: known_ids reg_revoke_ids)
qed

end
