(* ===== verification/IpAddress.thy ===== *)
theory IpAddress
  imports Prelude
begin

text \<open>
  \<open>ipaddress.ip_address\<close> of the standard library on texts, as the pairing tools use it to validate
  the address to bind to: dotted quads without leading zeros, and IPv6 with one \<open>::\<close>, an embedded
  IPv4 tail and a scope after \<^verbatim>\<open>%\<close>.
\<close>

text \<open>\<open>s.split(c)\<close>.\<close>

fun split_on :: "char \<Rightarrow> string \<Rightarrow> string list" where
  "split_on c [] = [[]]"
| "split_on c (x # s) =
     (if x = c then [] # split_on c s
      else (case split_on c s of [] \<Rightarrow> [[x]] | p # ps \<Rightarrow> (x # p) # ps))"

datatype ip_addr = IPv4 int | IPv6 int "string option"

definition parse_octet :: "string \<Rightarrow> int option" where
  "parse_octet s =
     (if s = [] \<or> \<not> list_all is_digit s \<or> length s > 3 \<or> (s \<noteq> ''0'' \<and> hd s = CHR ''0'') \<or> digits_val s > 255
      then None else Some (int (digits_val s)))"

definition ipv4_int :: "string \<Rightarrow> int option" where
  "ipv4_int s =
     (case map parse_octet (split_on (CHR ''.'') s) of
        [Some a, Some b, Some c, Some d] \<Rightarrow> Some (((a * 256 + b) * 256 + c) * 256 + d)
      | _ \<Rightarrow> None)"

definition hex_digit :: "char \<Rightarrow> int option" where
  "hex_digit c =
     (let n = (of_char c :: int)
      in if 48 \<le> n \<and> n \<le> 57 then Some (n - 48)
         else if 65 \<le> n \<and> n \<le> 70 then Some (n - 55)
         else if 97 \<le> n \<and> n \<le> 102 then Some (n - 87)
         else None)"

definition parse_hextet :: "string \<Rightarrow> int option" where
  "parse_hextet s =
     (if s = [] \<or> length s > 4 then None
      else fold (\<lambda>c a. case (a, hex_digit c) of (Some v, Some h) \<Rightarrow> Some (16 * v + h) | _ \<Rightarrow> None) s (Some 0))"

text \<open>The parts of an IPv6 address with a dotted quad at the end replaced by two hexadecimal numbers.\<close>

definition ipv6_parts :: "string \<Rightarrow> int option list option" where
  "ipv6_parts s =
     (let parts = split_on (CHR '':'') s
      in if length parts < 3 then None
         else if CHR ''.'' \<in> set (last parts)
         then (case ipv4_int (last parts) of
                 None \<Rightarrow> None
               | Some v \<Rightarrow> Some (map parse_hextet (butlast parts) @ [Some (v div 65536), Some (v mod 65536)]))
         else Some (map parse_hextet parts))"

text \<open>The same without the replacement tells which parts are empty.\<close>

definition ipv6_empty :: "string \<Rightarrow> bool list" where
  "ipv6_empty s =
     (let parts = split_on (CHR '':'') s
      in if CHR ''.'' \<in> set (last parts) then map (\<lambda>p. p = []) (butlast parts) @ [False, False]
         else map (\<lambda>p. p = []) parts)"

definition join_hextets :: "int option list \<Rightarrow> int option" where
  "join_hextets ps = fold (\<lambda>p a. case (a, p) of (Some v, Some h) \<Rightarrow> Some (65536 * v + h) | _ \<Rightarrow> None) ps (Some 0)"

definition ipv6_int :: "string \<Rightarrow> int option" where
  "ipv6_int s =
     (case ipv6_parts s of
        None \<Rightarrow> None
      | Some parts \<Rightarrow>
          (let n = length parts; empty = ipv6_empty s;
               skips = filter (\<lambda>i. empty ! i) [1..<n - 1]
           in if n > 9 then None
              else case skips of
                     [] \<Rightarrow> if n \<noteq> 8 \<or> empty ! 0 \<or> empty ! (n - 1) then None else join_hextets parts
                   | [k] \<Rightarrow>
                       (let hi = (if empty ! 0 then k - 1 else k);
                            lo = (if empty ! (n - 1) then n - k - 2 else n - k - 1)
                        in if (empty ! 0 \<and> hi \<noteq> 0) \<or> (empty ! (n - 1) \<and> lo \<noteq> 0) then None
                           else if hi + lo > 7 then None
                           else join_hextets (take hi parts @ replicate (8 - (hi + lo)) (Some 0) @ drop (n - lo) parts))
                   | _ \<Rightarrow> None))"

definition split_scope :: "string \<Rightarrow> (string \<times> string option) option" where
  "split_scope s =
     (case split_on (CHR ''%'') s of
        [a] \<Rightarrow> Some (a, None)
      | [a, sc] \<Rightarrow> if sc = [] then None else Some (a, Some sc)
      | _ \<Rightarrow> None)"

definition ip_address :: "string \<Rightarrow> ip_addr result" where
  "ip_address s =
     (if CHR ''/'' \<in> set s then Inl ValueError
      else case ipv4_int s of
             Some v \<Rightarrow> Inr (IPv4 v)
           | None \<Rightarrow>
               (case split_scope s of
                  None \<Rightarrow> Inl ValueError
                | Some (a, sc) \<Rightarrow> (case ipv6_int a of None \<Rightarrow> Inl ValueError | Some v \<Rightarrow> Inr (IPv6 v sc))))"

text \<open>The unspecified addresses, to which a bind is a wildcard bind.\<close>

definition unspecified :: "ip_addr \<Rightarrow> bool" where
  "unspecified a \<longleftrightarrow> (case a of IPv4 v \<Rightarrow> v = 0 | IPv6 v _ \<Rightarrow> v = 0)"

lemma ip_address_examples:
  "ip_address ''100.64.0.5'' = Inr (IPv4 1681915909)"
  "ip_address ''0.0.0.0'' = Inr (IPv4 0)"
  "ip_address ''::'' = Inr (IPv6 0 None)"
  "ip_address ''::0'' = Inr (IPv6 0 None)"
  "ip_address ''0:0:0:0:0:0:0:0'' = Inr (IPv6 0 None)"
  "ip_address ''::1'' = Inr (IPv6 1 None)"
  "ip_address ''1::0.0.1.2'' = Inr (IPv6 5192296858534827628530496329220354 None)"
  "ip_address ''fe80::1%eth0'' = Inr (IPv6 338288524927261089654018896841347694593 (Some ''eth0''))"
  "ip_address ''1::2::3'' = Inl ValueError"
  "ip_address '':1'' = Inl ValueError"
  "ip_address ''01.2.3.4'' = Inl ValueError"
  "ip_address ''1.2.3'' = Inl ValueError"
  "ip_address [] = Inl ValueError"
  by code_simp+

end
