(* ===== verification/Pair.thy ===== *)
theory Pair
  imports Registry IpAddress
begin

text \<open>
  The set-up tool \<^verbatim>\<open>src/pair.py\<close>: certificates, the five commands on the files of the configuration
  directory, and the command line behind \<^verbatim>\<open>argparse\<close>.

  The \<^verbatim>\<open>cryptography\<close> package is the record \<open>pki\<close>; what a run draws and reads besides its arguments
  is the record \<open>run\<close>: the clock, the generated keys in the order they are drawn, random tokens,
  the name \<open>mkstemp\<close> picks and the faults of the disk, per path.  Directories and their modes are
  not part of the file system of the model.
\<close>

section \<open>Certificates\<close>

datatype eku = SERVER_AUTH | CLIENT_AUTH
datatype alt_name = AltIP ip_addr | AltDNS string

record key_usage =
  digital_signature :: bool
  content_commitment :: bool
  key_encipherment :: bool
  data_encipherment :: bool
  key_agreement :: bool
  key_cert_sign :: bool
  crl_sign :: bool
  encipher_only :: bool
  decipher_only :: bool

datatype 'pk extension =
    SubjectKeyIdentifier 'pk | AuthorityKeyIdentifier 'pk
  | BasicConstraints bool "nat option" | KeyUsage key_usage
  | ExtendedKeyUsage "eku list" | SubjectAlternativeName "alt_name list"

text \<open>What \<open>CertificateBuilder\<close> collects; an extension comes with its criticality.\<close>

record 'pk tbs =
  subject_cn :: string
  issuer_cn :: string
  subject_key :: 'pk
  serial :: int
  not_before :: time
  not_after :: time
  extensions :: "('pk extension \<times> bool) list"

text \<open>The arguments of \<^verbatim>\<open>cryptography\<close>'s serialisation.\<close>

datatype encoding = PEM | DER
datatype private_format = PKCS8
datatype public_format = SubjectPublicKeyInfo
datatype encryption = NoEncryption | BestAvailableEncryption bytes

record ('sk, 'pk, 'cert) pki =
  base :: "('sk, 'pk) ext"
  public_of :: "'sk \<Rightarrow> 'pk"
  private_bytes :: "'sk \<Rightarrow> encoding \<Rightarrow> private_format \<Rightarrow> encryption \<Rightarrow> bytes"
  load_key :: "bytes \<Rightarrow> string \<Rightarrow> 'sk result"
  public_bytes :: "'pk \<Rightarrow> encoding \<Rightarrow> public_format \<Rightarrow> bytes"
  sign_cert :: "'pk tbs \<Rightarrow> 'sk \<Rightarrow> 'cert result"
  cert_bytes :: "'cert \<Rightarrow> encoding \<Rightarrow> bytes"
  load_cert :: "bytes \<Rightarrow> 'cert result"
  subject_text :: "'cert \<Rightarrow> string"
  expires_at :: "'cert \<Rightarrow> time"
  make_p12 :: "string \<Rightarrow> 'sk \<Rightarrow> 'cert \<Rightarrow> 'cert list \<Rightarrow> encryption \<Rightarrow> bytes result"

definition enc_pem :: "('sk, 'pk, 'cert) pki \<Rightarrow> 'sk \<Rightarrow> string \<Rightarrow> bytes" where
  "enc_pem P key pw = private_bytes P key PEM PKCS8 (BestAvailableEncryption (utf8 pw))"

definition plain_pem :: "('sk, 'pk, 'cert) pki \<Rightarrow> 'sk \<Rightarrow> bytes" where
  "plain_pem P key = private_bytes P key PEM PKCS8 NoEncryption"

definition public_pem :: "('sk, 'pk, 'cert) pki \<Rightarrow> 'pk \<Rightarrow> string" where
  "public_pem P key = utf8_decode (public_bytes P key PEM SubjectPublicKeyInfo)"

definition cert_pem :: "('sk, 'pk, 'cert) pki \<Rightarrow> 'cert \<Rightarrow> bytes" where
  "cert_pem P c = cert_bytes P c PEM"

definition cert_der :: "('sk, 'pk, 'cert) pki \<Rightarrow> 'cert \<Rightarrow> bytes" where
  "cert_der P c = cert_bytes P c DER"

record 'sk run =
  run_clock :: time
  keys :: "nat \<Rightarrow> 'sk"
  serials :: "nat \<Rightarrow> int"
  token_urlsafe :: string
  isoformat :: "time \<Rightarrow> string"
  tmp_name :: "string \<Rightarrow> string"
  disk :: "string \<Rightarrow> fault"

text \<open>\<open>ipaddress.ip_address\<close> on what the configuration may hold.\<close>

definition ip_of :: "json \<Rightarrow> ip_addr result" where
  "ip_of v =
     (let number = (\<lambda>i. if 0 \<le> i \<and> i < 2 ^ 32 then Inr (IPv4 i)
                        else if 0 \<le> i \<and> i < 2 ^ 128 then Inr (IPv6 i None) else Inl ValueError)
      in case v of
           JStr s \<Rightarrow> ip_address s
         | JInt i \<Rightarrow> number i
         | JBool b \<Rightarrow> number (if b then 1 else 0)
         | _ \<Rightarrow> Inl ValueError)"

definition usage_for :: "bool \<Rightarrow> key_usage" where
  "usage_for ca =
     \<lparr>digital_signature = \<not> ca, content_commitment = False, key_encipherment = False,
      data_encipherment = False, key_agreement = False, key_cert_sign = ca,
      crl_sign = ca, encipher_only = False, decipher_only = False\<rparr>"

text \<open>\<open>n\<close> is the number of serial numbers drawn before.\<close>

definition build_cert ::
  "('sk, 'pk, 'cert) pki \<Rightarrow> 'sk run \<Rightarrow> nat \<Rightarrow> string \<Rightarrow> 'pk \<Rightarrow> string \<Rightarrow> 'sk \<Rightarrow> int \<Rightarrow> bool \<Rightarrow> json \<Rightarrow> string \<Rightarrow> eku option \<Rightarrow> 'cert result" where
  "build_cert P r n cn pub issuer_name issuer_key days ca san_ip san_dns usage =
     (let now = run_clock r;
          exts = [(SubjectKeyIdentifier pub, False),
                  (AuthorityKeyIdentifier (public_of P issuer_key), False),
                  (BasicConstraints ca (if ca then Some 0 else None), True),
                  (KeyUsage (usage_for ca), True)]
                 @ (case usage of Some u \<Rightarrow> [(ExtendedKeyUsage [u], False)] | None \<Rightarrow> [])
      in bindE (if py_truthy san_ip then bindE (ip_of san_ip) (\<lambda>a. Inr [AltIP a]) else Inr [])
           (\<lambda>ips.
              let sans = ips @ (if san_dns \<noteq> [] then [AltDNS san_dns] else []);
                  exts = exts @ (if sans \<noteq> [] then [(SubjectAlternativeName sans, False)] else [])
              in sign_cert P
                   \<lparr>subject_cn = cn, issuer_cn = issuer_name, subject_key = pub, serial = serials r n,
                    not_before = now - 5 * 60, not_after = now + of_int days * 86400, extensions = exts\<rparr>
                   issuer_key))"

section \<open>Files\<close>

definition in_dir :: "string \<Rightarrow> string \<Rightarrow> string" where
  "in_dir d n = d @ ''/'' @ n"

definition lift :: "'a result \<Rightarrow> fs \<Rightarrow> 'a result \<times> fs" where
  "lift r fs = (r, fs)"

definition write_file :: "'sk run \<Rightarrow> string \<Rightarrow> bytes \<Rightarrow> fs \<Rightarrow> unit result \<times> fs" where
  "write_file r path data fs = prod.swap (write_private fs (tmp_name r path) (disk r path) path data)"

text \<open>
  \<open>write_bytes\<close> and \<open>write_text\<close> write in place: a fault while writing leaves a prefix.  \<open>mode\<close> is
  the mode of the file afterwards.
\<close>

datatype write_fault = Whole | NotOpened | Partial nat

definition write_in_place :: "write_fault \<Rightarrow> nat \<Rightarrow> string \<Rightarrow> bytes \<Rightarrow> fs \<Rightarrow> unit result \<times> fs" where
  "write_in_place flt mode path data fs =
     (case flt of
        NotOpened \<Rightarrow> (Inl OSError, fs)
      | Partial n \<Rightarrow> (Inl OSError, fs(path \<mapsto> \<lparr>contents = take n data, st_mode = mode\<rparr>))
      | Whole \<Rightarrow> (Inr (), fs(path \<mapsto> \<lparr>contents = data, st_mode = mode\<rparr>)))"

definition read_file :: "string \<Rightarrow> fs \<Rightarrow> bytes result \<times> fs" where
  "read_file path fs = ((case fs path of None \<Rightarrow> Inl FileNotFoundError | Some f \<Rightarrow> Inr (contents f)), fs)"

definition save :: "('sk, 'pk, 'cert) pki \<Rightarrow> 'sk run \<Rightarrow> string \<Rightarrow> (string \<times> json) list \<Rightarrow> fs \<Rightarrow> unit result \<times> fs" where
  "save P r path data = config_save (float_repr (base P)) (tmp_name r path) (disk r path) path data"

definition load_key_file :: "('sk, 'pk, 'cert) pki \<Rightarrow> string \<Rightarrow> string \<Rightarrow> fs \<Rightarrow> 'sk result \<times> fs" where
  "load_key_file P path pw = bindS (read_file path) (\<lambda>b. lift (load_key P b pw))"

text \<open>\<open>k\<close> and \<open>n\<close> number the key and the serial number that are drawn.\<close>

definition issue_server ::
  "('sk, 'pk, 'cert) pki \<Rightarrow> 'sk run \<Rightarrow> nat \<Rightarrow> nat \<Rightarrow> string \<Rightarrow> 'sk \<Rightarrow> 'cert \<Rightarrow> string \<Rightarrow> json \<Rightarrow> string \<Rightarrow> fs \<Rightarrow> unit result \<times> fs" where
  "issue_server P r k n dir ca_key ca_cert target ip pw =
     (let key = keys r k
      in bindS (lift (build_cert P r n target (public_of P key) (drop 3 (subject_text P ca_cert)) ca_key 365 False
                        ip target (Some SERVER_AUTH)))
           (\<lambda>cert. bindS (write_file r (in_dir dir ''server-key.pem'') (enc_pem P key pw))
              (\<lambda>_. write_file r (in_dir dir ''server-cert.pem'') (cert_pem P cert))))"

section \<open>init\<close>

definition MIN_PASSPHRASE :: nat where
  "MIN_PASSPHRASE = 12"

definition init_guards :: "string \<Rightarrow> string \<Rightarrow> string \<Rightarrow> bool \<Rightarrow> string \<Rightarrow> fs \<Rightarrow> unit result" where
  "init_guards dir ip target force passphrase fs =
     (if length passphrase < MIN_PASSPHRASE then Inl (SystemExit ''Passphrase must be at least 12 characters.'')
      else if \<not> ID_RE target then Inl (SystemExit ''target-id must match [a-z0-9][a-z0-9-]* (max 63 chars)'')
      else bindE (ip_address ip) (\<lambda>_.
        if ip = ''0.0.0.0'' \<or> ip = ''::''
        then Inl (SystemExit ''Give the specific Tailscale/WireGuard/LAN IP, not a wildcard.'')
        else if fs (in_dir dir ''config.json'') \<noteq> None \<and> \<not> force
        then Inl (SystemExit (in_dir dir ''config.json'' @ '' exists. Use --force to overwrite (this revokes everything).''))
        else Inr ()))"

definition init_entries :: "('sk, 'pk, 'cert) pki \<Rightarrow> 'sk run \<Rightarrow> string \<Rightarrow> int \<Rightarrow> string \<Rightarrow> string \<Rightarrow> 'sk \<Rightarrow> (string \<times> json) list" where
  "init_entries P r ip port target user sign_key =
     [(''target_id'', JStr target),
      (''listener_ip'', JStr ip),
      (''listener_port'', JInt port),
      (''unlock_user'', JStr user),
      (''laptop_public_key_pem'', JStr (public_pem P (public_of P sign_key))),
      (''tls'', JObj [(''ca_cert'', JStr ''ca-cert.pem''), (''server_cert'', JStr ''server-cert.pem''),
                     (''server_key'', JStr ''server-key.pem'')]),
      (''signing_key'', JStr ''laptop-signing-key.pem''),
      (''alerts'', JObj [(''ntfy'', JObj [(''server'', JStr ''https://ntfy.sh''),
                                       (''topic'', JStr (''ru-'' @ token_urlsafe r)), (''token'', JNull)])])]"

definition init ::
  "('sk, 'pk, 'cert) pki \<Rightarrow> 'sk run \<Rightarrow> string \<Rightarrow> string \<Rightarrow> int \<Rightarrow> string \<Rightarrow> string \<Rightarrow> string \<Rightarrow> bool \<Rightarrow> fs \<Rightarrow> (string \<times> json) list result \<times> fs" where
  "init P r dir ip port target user passphrase force =
     bindS (\<lambda>fs. (init_guards dir ip target force passphrase fs, fs)) (\<lambda>_.
       let ca_key = keys r 0; sign_key = keys r 2; cfg_file = in_dir dir ''config.json''
       in bindS (lift (build_cert P r 0 ''remote-unlock-ca'' (public_of P ca_key) ''remote-unlock-ca'' ca_key 3650 True JNull [] None))
            (\<lambda>ca_cert.
          bindS (write_file r (in_dir dir ''ca-key.pem'') (enc_pem P ca_key passphrase)) (\<lambda>_.
          bindS (write_file r (in_dir dir ''ca-cert.pem'') (cert_pem P ca_cert)) (\<lambda>_.
          bindS (issue_server P r 1 1 dir ca_key ca_cert target (JStr ip) passphrase) (\<lambda>_.
          bindS (write_file r (in_dir dir ''laptop-signing-key.pem'') (enc_pem P sign_key passphrase)) (\<lambda>_.
          bindS (save P r cfg_file (dict_update DEFAULTS (init_entries P r ip port target user sign_key))) (\<lambda>_.
            (\<lambda>fs. (open_config fs cfg_file, fs)))))))))"

section \<open>add-device\<close>

record device_bundle =
  p12 :: bytes
  p12_password :: string
  bundle_cert :: bytes
  bundle_key :: bytes

definition device_entry :: "('sk, 'pk, 'cert) pki \<Rightarrow> 'sk run \<Rightarrow> string \<Rightarrow> 'pk \<Rightarrow> 'cert \<Rightarrow> (string \<times> json) list" where
  "device_entry P r name pk cert =
     [(''id'', JStr name),
      (''public_key_pem'', JStr (public_pem P pk)),
      (''cert_sha256'', JStr (sha256 (base P) (cert_der P cert))),
      (''enabled'', JBool True),
      (''created'', JStr (isoformat r (run_clock r))),
      (''cert_expires'', JStr (isoformat r (expires_at P cert)))]"

text \<open>\<open>cfg.data["devices"].append(...)\<close>.\<close>

definition append_device :: "(string \<times> json) list \<Rightarrow> json \<Rightarrow> (string \<times> json) list result" where
  "append_device data d =
     bindE (jitem data ''devices'') (\<lambda>ds.
       case ds of JList xs \<Rightarrow> Inr (AList.update ''devices'' (JList (xs @ [d])) data) | _ \<Rightarrow> Inl AttributeError)"

definition add_device ::
  "('sk, 'pk, 'cert) pki \<Rightarrow> 'sk run \<Rightarrow> string \<Rightarrow> string \<Rightarrow> string \<Rightarrow> string \<Rightarrow> int \<Rightarrow> fs \<Rightarrow> device_bundle result \<times> fs" where
  "add_device P r dir name phone_pubkey passphrase days =
     (let cfg_file = in_dir dir ''config.json''; key = keys r 0; password = token_urlsafe r
      in bindS (lift (if ID_RE name then Inr () else Inl (SystemExit ''device name must match [a-z0-9][a-z0-9-]*''))) (\<lambda>_.
         bindS (\<lambda>fs. (open_config fs cfg_file, fs)) (\<lambda>data.
         bindS (lift (bindE (jitem data ''devices'') (\<lambda>ds. bindE (py_iter ds) (any_id name)))) (\<lambda>found.
           if found then lift (Inl (SystemExit (''device '' @ [CHR 0x27] @ name @ [CHR 0x27] @ '' already exists (revoke it first to re-issue)'')))
           else
         bindS (lift (load_public_key (base P) phone_pubkey)) (\<lambda>pk.
         bindS (load_key_file P (in_dir dir ''ca-key.pem'') passphrase) (\<lambda>ca_key.
         bindS (bindS (read_file (in_dir dir ''ca-cert.pem'')) (\<lambda>b. lift (load_cert P b))) (\<lambda>ca_cert.
         bindS (lift (build_cert P r 0 name (public_of P key) ''remote-unlock-ca'' ca_key days False JNull [] (Some CLIENT_AUTH))) (\<lambda>cert.
         bindS (lift (make_p12 P name key cert [ca_cert] (BestAvailableEncryption (utf8 password)))) (\<lambda>blob.
         bindS (lift (append_device data (JObj (device_entry P r name pk cert)))) (\<lambda>data'.
         bindS (save P r cfg_file data') (\<lambda>_.
           lift (Inr \<lparr>p12 = blob, p12_password = password, bundle_cert = cert_pem P cert,
                      bundle_key = plain_pem P key\<rparr>))))))))))))"

section \<open>revoke-device and renew-server\<close>

definition revoke_device :: "('sk, 'pk, 'cert) pki \<Rightarrow> 'sk run \<Rightarrow> string \<Rightarrow> string \<Rightarrow> fs \<Rightarrow> unit result \<times> fs" where
  "revoke_device P r dir name =
     (let cfg_file = in_dir dir ''config.json''
      in bindS (\<lambda>fs. (open_config fs cfg_file, fs)) (\<lambda>data.
         bindS (lift (bindE (jitem data ''devices'') (\<lambda>ds. bindE (py_iter ds) (revoke_in name (isoformat r (run_clock r)))))) (\<lambda>res.
           case res of
             None \<Rightarrow> lift (Inl (SystemExit (''no such device: '' @ name)))
           | Some xs \<Rightarrow> save P r cfg_file (AList.update ''devices'' (JList xs) data))))"

text \<open>The entry \<open>target_id\<close> must be a text: \<open>x509.NameAttribute\<close> raises otherwise.\<close>

definition renew_server ::
  "('sk, 'pk, 'cert) pki \<Rightarrow> 'sk run \<Rightarrow> string \<Rightarrow> string option \<Rightarrow> string \<Rightarrow> fs \<Rightarrow> unit result \<times> fs" where
  "renew_server P r dir ip passphrase =
     (let cfg_file = in_dir dir ''config.json''
      in bindS (\<lambda>fs. (open_config fs cfg_file, fs)) (\<lambda>data.
         bindS (load_key_file P (in_dir dir ''ca-key.pem'') passphrase) (\<lambda>ca_key.
         bindS (bindS (read_file (in_dir dir ''ca-cert.pem'')) (\<lambda>b. lift (load_cert P b))) (\<lambda>ca_cert.
         bindS (lift (case ip of Some i \<Rightarrow> if i \<noteq> [] then Inr (JStr i) else jitem data ''listener_ip''
                               | None \<Rightarrow> jitem data ''listener_ip'')) (\<lambda>addr.
         bindS (lift (bindE (jitem data ''target_id'') (\<lambda>t. case t of JStr s \<Rightarrow> Inr s | _ \<Rightarrow> Inl TypeError))) (\<lambda>target.
         bindS (issue_server P r 0 0 dir ca_key ca_cert target addr passphrase) (\<lambda>_.
           save P r cfg_file (AList.update ''listener_ip'' addr data))))))))"

section \<open>The command line\<close>

text \<open>\<open>str.isalnum\<close> on one character of the model, and the default of \<open>--target-id\<close>.\<close>

definition is_alnum :: "char \<Rightarrow> bool" where
  "is_alnum c \<longleftrightarrow>
     (let n = (of_char c :: nat)
      in is_digit c \<or> (65 \<le> n \<and> n \<le> 90) \<or> (97 \<le> n \<and> n \<le> 122)
         \<or> n \<in> {170, 178, 179, 181, 185, 186, 188, 189, 190}
         \<or> (192 \<le> n \<and> n \<noteq> 215 \<and> n \<noteq> 247))"

definition dash_strip :: "string \<Rightarrow> string" where
  "dash_strip s = rstrip_by (\<lambda>c. c = CHR ''-'') (lstrip_by (\<lambda>c. c = CHR ''-'') s)"

definition safe_hostname :: "string \<Rightarrow> string" where
  "safe_hostname hostname =
     (let h = dash_strip (map (\<lambda>c. if is_alnum c then c else CHR ''-'') (py_lower hostname))
      in take 40 (if h \<noteq> [] then h else ''laptop''))"

text \<open>\<open>f"{v:<20}"\<close>: texts and numbers are padded, other values raise.\<close>

definition pad_right :: "nat \<Rightarrow> string \<Rightarrow> string" where
  "pad_right n s = s @ replicate (n - length s) (CHR '' '')"

definition format_cell :: "(rat \<Rightarrow> string) \<Rightarrow> json \<Rightarrow> string result" where
  "format_cell fr v =
     (case v of
        JStr s \<Rightarrow> Inr (pad_right 20 s)
      | JInt i \<Rightarrow> Inr (pad_right 20 (show_int i))
      | JBool b \<Rightarrow> Inr (pad_right 20 (if b then ''1'' else ''0''))
      | JFloat x \<Rightarrow> Inr (pad_right 20 (py_str fr (JFloat x)))
      | _ \<Rightarrow> Inl TypeError)"

definition device_line :: "(rat \<Rightarrow> string) \<Rightarrow> json \<Rightarrow> string result" where
  "device_line fr v =
     (case v of
        JObj d \<Rightarrow>
          (let state = (if py_truthy (jget_default d ''enabled'' (JBool True)) then ''active''
                        else ''REVOKED '' @ py_str fr (jget_default d ''revoked'' (JStr [])))
           in bindE (jitem d ''id'') (\<lambda>i. bindE (format_cell fr i) (\<lambda>cell.
                Inr (cell @ '' '' @ pad_right 10 state @ '' cert-expires ''
                     @ py_str fr (jget_default d ''cert_expires'' (JStr ''?''))))))
      | _ \<Rightarrow> Inl AttributeError)"

fun print_lines :: "(json \<Rightarrow> string result) \<Rightarrow> json list \<Rightarrow> string list \<times> unit result" where
  "print_lines f [] = ([], Inr ())"
| "print_lines f (d # ds) =
     (case f d of
        Inl e \<Rightarrow> ([], Inl e)
      | Inr l \<Rightarrow> (let (ls, r) = print_lines f ds in (l # ls, r)))"

datatype command =
    Init string int string string bool \<comment> \<open>ip, port, target id, unlock user, force\<close>
  | AddDevice string "string option" string string \<comment> \<open>name, key file, inline key, output directory\<close>
  | ListDevices
  | RevokeDevice string
  | RenewServer "string option"

text \<open>\<open>cfg["alerts"]["ntfy"]["topic"]\<close> of the configuration \<open>init\<close> returns.\<close>

definition topic_of :: "(string \<times> json) list \<Rightarrow> json" where
  "topic_of cf =
     (case jget cf ''alerts'' of
        JObj al \<Rightarrow> (case jget al ''ntfy'' of JObj n \<Rightarrow> jget n ''topic'' | _ \<Rightarrow> JNull)
      | _ \<Rightarrow> JNull)"

text \<open>
  \<open>main\<close> after \<^verbatim>\<open>argparse\<close>: what it prints, up to the fixed explanations of \<open>init\<close>, and the outcome.
\<close>

definition pair_main ::
  "('sk, 'pk, 'cert) pki \<Rightarrow> 'sk run \<Rightarrow> pass_env \<Rightarrow> string \<Rightarrow> command \<Rightarrow> fs \<Rightarrow> string list \<times> unit result \<times> fs" where
  "pair_main P r penv d cmd fs =
     (case cmd of
        Init ip port target user force \<Rightarrow>
          (case bindS (\<lambda>fs. (get_passphrase fs penv True, fs))
                  (\<lambda>pw. init P r d ip port target user pw force) fs of
             (Inl e, fs') \<Rightarrow> ([], Inl e, fs')
           | (Inr cf, fs') \<Rightarrow>
               ([''Created '' @ d, py_str (float_repr (base P)) (jget cf ''laptop_public_key_pem''),
                 ''target_id : '' @ py_str (float_repr (base P)) (jget cf ''target_id''),
                 ''CA cert   : '' @ in_dir d ''ca-cert.pem'' @ ''  (install/pin on the phone)'',
                 ''ntfy topic: '' @ py_str (float_repr (base P)) (topic_of cf) @ ''  (subscribe in the ntfy app)''], Inr (), fs'))
      | AddDevice name key_file key out \<Rightarrow>
          (case bindS (case key_file of
                         Some f \<Rightarrow> if f \<noteq> [] then read_file f else lift (Inr key)
                       | None \<Rightarrow> lift (Inr key))
                  (\<lambda>pub. bindS (\<lambda>fs. (get_passphrase fs penv False, fs))
                  (\<lambda>pw. bindS (add_device P r d name pub pw 365)
                  (\<lambda>b. bindS (write_file r (in_dir out (name @ ''.p12'')) (p12 b)) (\<lambda>_. lift (Inr b))))) fs of
             (Inl e, fs') \<Rightarrow> ([], Inl e, fs')
           | (Inr b, fs') \<Rightarrow>
               ([''Registered '' @ [CHR 0x27] @ name @ [CHR 0x27, CHR ''.''],
                 ''  Client certificate bundle: '' @ in_dir out (name @ ''.p12''),
                 ''  Bundle password (shown ONCE): '' @ p12_password b], Inr (), fs'))
      | ListDevices \<Rightarrow>
          (case bindE (open_config fs (in_dir d ''config.json'')) (\<lambda>data. bindE (jitem data ''devices'') py_iter) of
             Inl e \<Rightarrow> ([], Inl e, fs)
           | Inr xs \<Rightarrow> (let (ls, res) = print_lines (device_line (float_repr (base P))) xs in (ls, res, fs)))
      | RevokeDevice name \<Rightarrow>
          (case revoke_device P r d name fs of
             (Inl e, fs') \<Rightarrow> ([], Inl e, fs')
           | (Inr _, fs') \<Rightarrow> ([''Revoked '' @ name @ ''. Active immediately.''], Inr (), fs'))
      | RenewServer ip \<Rightarrow>
          (case bindS (\<lambda>fs. (get_passphrase fs penv False, fs)) (renew_server P r d ip) fs of
             (Inl e, fs') \<Rightarrow> ([], Inl e, fs')
           | (Inr _, fs') \<Rightarrow> ([''Server certificate re-issued. Restart the service.''], Inr (), fs')))"

section \<open>Files of the tool\<close>

text \<open>What \<open>mkstemp\<close> promises: a name that is not in use, with the prefix \<open>.tmp-\<close>.\<close>

definition tmp_form :: "string \<Rightarrow> bool" where
  "tmp_form t \<longleftrightarrow> (\<exists>d x. t = in_dir d (''.tmp-'' @ x) \<and> CHR ''/'' \<notin> set x)"

definition tmp_ok :: "'sk run \<Rightarrow> fs \<Rightarrow> bool" where
  "tmp_ok r fs \<longleftrightarrow> (\<forall>p. fs (tmp_name r p) = None \<and> tmp_form (tmp_name r p))"

definition file_name :: "string \<Rightarrow> bool" where
  "file_name n \<longleftrightarrow> CHR ''/'' \<notin> set n \<and> \<not> starts_with n ''.tmp-''"

lemma in_dir_inject [simp]: "in_dir d a = in_dir d b \<longleftrightarrow> a = b"
  by (simp add: in_dir_def)

lemma last_component: "CHR ''/'' \<notin> set a \<Longrightarrow> CHR ''/'' \<notin> set b \<Longrightarrow> in_dir d a = in_dir e b \<Longrightarrow> a = b"
proof -
  assume "CHR ''/'' \<notin> set a" "CHR ''/'' \<notin> set b" "in_dir d a = in_dir e b"
  then have "rev a @ CHR ''/'' # rev d = rev b @ CHR ''/'' # rev e"
    by (metis in_dir_def append.assoc append_Cons append_Nil rev.simps(2) rev_append)
  with append_sep_inject [of "CHR ''/''" "rev a" "rev b" "rev d" "rev e"]
    \<open>CHR ''/'' \<notin> set a\<close> \<open>CHR ''/'' \<notin> set b\<close> show "a = b" by simp
qed

lemma tmp_form_neq: "tmp_form t \<Longrightarrow> file_name n \<Longrightarrow> t \<noteq> in_dir d n"
proof
  assume t: "tmp_form t" and n: "file_name n" and eq: "t = in_dir d n"
  from t obtain e x where "t = in_dir e (''.tmp-'' @ x)" "CHR ''/'' \<notin> set (''.tmp-'' @ x)"
    by (auto simp: tmp_form_def)
  with n eq have "n = ''.tmp-'' @ x"
    using last_component [of n "''.tmp-'' @ x" d e] unfolding file_name_def by metis
  with n show False by (simp add: file_name_def starts_with_iff)
qed

lemma write_file_cases:
  assumes "tmp_ok r fs" "file_name n" "write_file r (in_dir d n) data fs = (res, fs')"
  shows "(res = Inl OSError \<and> fs' = fs) \<or> (res = Inr () \<and> fs' = fs(in_dir d n \<mapsto> \<lparr>contents = data, st_mode = 384\<rparr>))"
proof -
  have t: "fs (tmp_name r (in_dir d n)) = None" "tmp_name r (in_dir d n) \<noteq> in_dir d n"
    using assms(1,2) by (auto simp: tmp_ok_def tmp_form_neq)
  show ?thesis
    using write_private_cases [where fs = fs and flt = "disk r (in_dir d n)" and data = data, OF t] assms(3)
    by (auto simp: write_file_def)
qed

lemma tmp_ok_upd: "tmp_ok r fs \<Longrightarrow> file_name n \<Longrightarrow> tmp_ok r (fs(in_dir d n \<mapsto> f))"
  by (auto simp: tmp_ok_def tmp_form_neq)

lemma save_eq: "save P r path data = write_file r path (dumps_indent (float_repr (base P)) 0 (JObj data))"
  by (rule ext) (simp add: save_def config_save_def write_file_def)

lemma file_names [simp]:
  "file_name ''config.json''" "file_name ''ca-key.pem''" "file_name ''ca-cert.pem''" "file_name ''server-key.pem''"
  "file_name ''server-cert.pem''" "file_name ''laptop-signing-key.pem''"
  by (simp_all add: file_name_def)

text \<open>The parts of a command that only read.\<close>



lemma bindS_lift [simp]: "bindS (lift (Inl e)) f fs = (Inl e, fs)" "bindS (lift (Inr x)) f fs = f x fs"
  by (simp_all add: bindS_def lift_def)

lemma bindS_const [simp]: "bindS (\<lambda>s. (Inl e, s)) f fs = (Inl e, fs)" "bindS (\<lambda>s. (Inr x, s)) f fs = f x fs"
  by (simp_all add: bindS_def)

lemma bindS_pure: "(\<And>fs. snd (m fs) = fs) \<Longrightarrow>
    bindS m f fs = (case fst (m fs) of Inl e \<Rightarrow> (Inl e, fs) | Inr x \<Rightarrow> f x fs)"
proof -
  assume m: "\<And>fs. snd (m fs) = fs"
  obtain x where "m fs = (x, fs)" using m [of fs] by (cases "m fs") auto
  then show ?thesis by (cases x) (simp_all add: bindS_def)
qed

lemma pure_steps:
  "snd (lift x fs) = fs" "snd (read_file p fs) = fs" "snd (load_key_file P p pw fs) = fs"
  "snd (bindS (read_file p) (\<lambda>b. lift (g b)) fs) = fs"
  by (simp_all add: lift_def read_file_def load_key_file_def bindS_def split: option.split)

text \<open>A command that reads and then writes once leaves everything as it was when it fails.\<close>

lemma bindS_Inl_keep:
  assumes "bindS m f fs = (Inl e, fs')" "snd (m fs) = fs" "\<And>x. m fs = (Inr x, fs) \<Longrightarrow> f x fs = (Inl e, fs') \<Longrightarrow> fs' = fs"
  shows "fs' = fs"
  using assms by (auto simp: bindS_def split: prod.splits sum.splits)

lemma bindS_Inr_pure:
  assumes "bindS m f fs = (Inr y, fs')" "snd (m fs) = fs"
  obtains x where "m fs = (Inr x, fs)" "f x fs = (Inr y, fs')"
  using assms by (auto simp: bindS_def split: prod.splits sum.splits)

lemma save_then:
  assumes "tmp_ok r fs" "bindS (save P r (in_dir dir ''config.json'') data) (\<lambda>_. lift (Inr b)) fs = (res, fs')"
  shows "(res = Inl OSError \<and> fs' = fs)
    \<or> (res = Inr b \<and> fs' = fs(in_dir dir ''config.json'' \<mapsto>
          \<lparr>contents = dumps_indent (float_repr (base P)) 0 (JObj data), st_mode = 384\<rparr>))"
proof -
  obtain r1 fs1 where w: "write_file r (in_dir dir ''config.json'') (dumps_indent (float_repr (base P)) 0 (JObj data)) fs = (r1, fs1)"
    by (cases "write_file r (in_dir dir ''config.json'') (dumps_indent (float_repr (base P)) 0 (JObj data)) fs")
  with write_file_cases [OF assms(1) file_names(1) w] assms(2) show ?thesis
    by (auto simp: save_eq bindS_def lift_def)
qed

definition saved :: "('sk, 'pk, 'cert) pki \<Rightarrow> string \<Rightarrow> (string \<times> json) list \<Rightarrow> fs \<Rightarrow> fs" where
  "saved P dir data fs = fs(in_dir dir ''config.json'' \<mapsto>
     \<lparr>contents = dumps_indent (float_repr (base P)) 0 (JObj data), st_mode = 384\<rparr>)"

lemma bindS_reads:
  "bindS (lift x) f fs = (case x of Inl e \<Rightarrow> (Inl e, fs) | Inr y \<Rightarrow> f y fs)"
  "bindS (\<lambda>s. (g s, s)) f fs = (case g fs of Inl e \<Rightarrow> (Inl e, fs) | Inr y \<Rightarrow> f y fs)"
  "bindS (load_key_file P p pw) h fs = (case fst (load_key_file P p pw fs) of Inl e \<Rightarrow> (Inl e, fs) | Inr y \<Rightarrow> h y fs)"
  "bindS (bindS (read_file p) (\<lambda>b. lift (q b))) h' fs =
     (case fst (bindS (read_file p) (\<lambda>b. lift (q b)) fs) of Inl e \<Rightarrow> (Inl e, fs) | Inr y \<Rightarrow> h' y fs)"
     apply (simp add: bindS_pure pure_steps lift_def)
    apply (simp add: bindS_pure)
   apply (rule bindS_pure, rule pure_steps)
  apply (rule bindS_pure, rule pure_steps)
  done

lemma add_device_cases:
  assumes tmp: "tmp_ok r fs" and add: "add_device P r dir name pub pw days fs = (res, fs')"
  obtains (refused) e where "res = Inl e" "fs' = fs"
  | (added) data xs pk cert ca_key b where "res = Inr b" "ID_RE name" "open_config fs (in_dir dir ''config.json'') = Inr data"
      "map_of data ''devices'' = Some (JList xs)" "any_id name xs = Inr False" "load_public_key (base P) pub = Inr pk"
      "build_cert P r 0 name (public_of P (keys r 0)) ''remote-unlock-ca'' ca_key days False JNull [] (Some CLIENT_AUTH) = Inr cert"
      "fs' = saved P dir (AList.update ''devices'' (JList (xs @ [JObj (device_entry P r name pk cert)])) data) fs"
      "bundle_cert b = cert_pem P cert"
proof -
  let ?cert = "\<lambda>ca_key. build_cert P r 0 name (public_of P (keys r 0)) ''remote-unlock-ca'' ca_key days False JNull [] (Some CLIENT_AUTH)"
  let ?b = "\<lambda>blob cert. \<lparr>p12 = blob, p12_password = token_urlsafe r, bundle_cert = cert_pem P cert, bundle_key = plain_pem P (keys r 0)\<rparr>"
  have "(\<exists>e. res = Inl e \<and> fs' = fs) \<or>
    (\<exists>data pk cert ca_key blob data'. ID_RE name \<and> open_config fs (in_dir dir ''config.json'') = Inr data
      \<and> bindE (jitem data ''devices'') (\<lambda>ds. bindE (py_iter ds) (any_id name)) = Inr False
      \<and> load_public_key (base P) pub = Inr pk \<and> ?cert ca_key = Inr cert
      \<and> append_device data (JObj (device_entry P r name pk cert)) = Inr data'
      \<and> bindS (save P r (in_dir dir ''config.json'') data') (\<lambda>_. lift (Inr (?b blob cert))) fs = (res, fs'))"
    using add unfolding add_device_def Let_def bindS_reads
    by (auto simp: lift_def split: sum.splits if_splits)
  then consider e where "res = Inl e" "fs' = fs"
    | data pk cert ca_key blob data' where "ID_RE name" "open_config fs (in_dir dir ''config.json'') = Inr data"
      "bindE (jitem data ''devices'') (\<lambda>ds. bindE (py_iter ds) (any_id name)) = Inr False"
      "load_public_key (base P) pub = Inr pk" "?cert ca_key = Inr cert"
      "append_device data (JObj (device_entry P r name pk cert)) = Inr data'"
      "bindS (save P r (in_dir dir ''config.json'') data') (\<lambda>_. lift (Inr (?b blob cert))) fs = (res, fs')" by blast
  then show ?thesis
  proof cases
    case 1
    then show ?thesis by (rule refused)
  next
    case 2
    from 2(6) obtain xs where xs: "map_of data ''devices'' = Some (JList xs)"
        "data' = AList.update ''devices'' (JList (xs @ [JObj (device_entry P r name pk cert)])) data"
      by (auto simp: append_device_def jitem_def split: json.splits option.splits)
    with 2(3) have "any_id name xs = Inr False" by (simp add: jitem_def py_iter_def)
    with 2 xs save_then [OF tmp 2(7)] show ?thesis
      by (auto simp: saved_def intro: refused added)
  qed
qed

section \<open>The default target id\<close>

lemma rstrip_prefix: "\<exists>t. s = rstrip_by p s @ t"
proof -
  have "rev s = takeWhile p (rev s) @ dropWhile p (rev s)" by simp
  then have "s = rev (dropWhile p (rev s)) @ rev (takeWhile p (rev s))" by (metis rev_append rev_rev_ident)
  then show ?thesis unfolding rstrip_by_def by blast
qed

lemma dash_strip_hd: "dash_strip s = c # r \<Longrightarrow> c \<noteq> CHR ''-''"
proof -
  assume a: "dash_strip s = c # r"
  obtain t where "dropWhile (\<lambda>c. c = CHR ''-'') s = dash_strip s @ t"
    using rstrip_prefix [of "lstrip_by (\<lambda>c. c = CHR ''-'') s"] unfolding dash_strip_def lstrip_by_def by blast
  with a have d: "dropWhile (\<lambda>c. c = CHR ''-'') s = c # r @ t" by simp
  from hd_dropWhile [of "\<lambda>c. c = CHR ''-''" s] d show ?thesis by simp
qed

lemma dash_strip_set: "set (dash_strip s) \<subseteq> set s"
  by (force simp: dash_strip_def lstrip_by_def rstrip_by_def dest!: set_dropWhileD)

lemma host_char: "is_ascii c \<Longrightarrow> id_char (if is_alnum (lower_char c) then lower_char c else CHR ''-'')"
proof -
  assume "is_ascii c"
  then have n: "(of_char c :: nat) < 128" by (simp add: is_ascii_def)
  show ?thesis
  proof (cases "65 \<le> (of_char c :: nat) \<and> (of_char c :: nat) \<le> 90")
    case True
    then have "(of_char (lower_char c) :: nat) = of_char c + 32"
      by (simp add: lower_char_def Let_def of_char_of)
    with True show ?thesis by (auto simp: id_char_def is_lower_def)
  next
    case False
    then have "lower_char c = c" using n by (auto simp: lower_char_def Let_def)
    with False n show ?thesis by (auto simp: is_alnum_def Let_def id_char_def is_lower_def is_digit_def)
  qed
qed

lemma safe_hostname_id: "list_all is_ascii h \<Longrightarrow> ID_RE (safe_hostname h)"
proof -
  assume h: "list_all is_ascii h"
  define t where "t = map (\<lambda>c. if is_alnum c then c else CHR ''-'') (py_lower h)"
  have "list_all (\<lambda>c. id_char (if is_alnum (lower_char c) then lower_char c else CHR ''-'')) h"
    using h by (rule list.pred_mono_strong) (rule host_char)
  then have "list_all id_char t" by (simp add: list.pred_map py_lower_def o_def t_def)
  then have chars: "list_all id_char (dash_strip t)" using dash_strip_set [of t] unfolding list_all_iff by blast
  define x where "x = (if dash_strip t \<noteq> [] then dash_strip t else ''laptop'')"
  have x: "safe_hostname h = take 40 x" by (simp add: safe_hostname_def x_def t_def Let_def)
  have l: "list_all id_char ''laptop''" "id_first (CHR ''l'')" by code_simp+
  obtain c r where cr: "x = c # r" "id_first c" "list_all id_char r"
  proof (cases "dash_strip t")
    case Nil
    with that [of "CHR ''l''" "''aptop''"] l show ?thesis by (simp add: x_def)
  next
    case (Cons c r)
    from dash_strip_hd [OF Cons] chars Cons have "id_first c" "list_all id_char r" by (simp_all add: id_char_def id_first_def)
    with Cons that show ?thesis by (simp add: x_def)
  qed
  then have "list_all id_char (take 39 r)" by (auto simp: list_all_iff dest: in_set_takeD)
  with cr x have "id_body (safe_hostname h)" by (simp add: id_body_def)
  then show ?thesis by (simp add: ID_RE_def dollar_match_def)
qed

text \<open>
  The default target id is good: whatever the ASCII host name, the identifier made from it is
  one that \<open>init\<close> accepts.
\<close>

theorem safe_hostname_accepted:
  assumes "list_all is_ascii h"
  shows "ID_RE (safe_hostname h) \<and> length (safe_hostname h) \<le> 40"
  using safe_hostname_id [OF assms] by (simp add: safe_hostname_def Let_def)

lemma safe_hostname_accepted_witness: "ID_RE (safe_hostname ''--My_Laptop.LAN-'') \<and> safe_hostname ''--My_Laptop.LAN-'' = ''my-laptop-lan''"
proof -
  have "list_all is_ascii ''--My_Laptop.LAN-''" by code_simp
  moreover have "safe_hostname ''--My_Laptop.LAN-'' = ''my-laptop-lan''" by code_simp
  ultimately show ?thesis using safe_hostname_accepted [of "''--My_Laptop.LAN-''"] by simp
qed

text \<open>A letter outside ASCII stays in the identifier, which \<open>init\<close> then refuses.\<close>

lemma safe_hostname_non_ascii: "safe_hostname [CHR 0xE9] = [CHR 0xE9] \<and> \<not> ID_RE (safe_hostname [CHR 0xE9])"
  by code_simp

end
