(* ===== verification/Startup.thy ===== *)
theory Startup
  imports Service
begin

text \<open>
  How the service comes up: \<open>build_ssl_context\<close>, \<open>start\<close>, \<open>main\<close> and \<open>Runtime.close\<close> of
  \<^verbatim>\<open>src/listener.py\<close>.  Loading keys and certificates and opening the two servers are external
  calls, given by their outcome; the guards, their order, and what is left behind when one of
  them fails are the code's.
\<close>

section \<open>The TLS context\<close>

datatype tls_version = TLSv1_2 | TLSv1_3
text \<open>Versions are ordered by age, as a context compares them with its minimum.\<close>

instantiation tls_version :: linorder
begin

definition less_eq_tls_version :: "tls_version \<Rightarrow> tls_version \<Rightarrow> bool" where
  "less_eq_tls_version v w \<longleftrightarrow> v = TLSv1_2 \<or> w = TLSv1_3"

definition less_tls_version :: "tls_version \<Rightarrow> tls_version \<Rightarrow> bool" where
  "less_tls_version v w \<longleftrightarrow> v = TLSv1_2 \<and> w = TLSv1_3"

instance
proof
  fix u v w :: tls_version
  show "(v < w) = (v \<le> w \<and> \<not> w \<le> v)" "v \<le> w \<or> w \<le> v" "v \<le> v"
    by (cases v; cases w; simp add: less_eq_tls_version_def less_tls_version_def)+
  show "u \<le> v \<Longrightarrow> v \<le> w \<Longrightarrow> u \<le> w" "v \<le> w \<Longrightarrow> w \<le> v \<Longrightarrow> v = w"
    by (cases u; cases v; cases w; simp add: less_eq_tls_version_def)+
qed

end

lemma TLS_minimum [simp]: "TLSv1_3 \<le> v \<longleftrightarrow> v = TLSv1_3" "TLSv1_2 \<le> v" "v \<le> TLSv1_3" "v < TLSv1_3 \<longleftrightarrow> v = TLSv1_2"
  by (cases v; simp add: less_eq_tls_version_def less_tls_version_def)+

datatype verify_mode = CERT_NONE | CERT_OPTIONAL | CERT_REQUIRED

text \<open>The entries of the configuration that name files.\<close>

record tls_files =
  signing_key_file :: string
  server_cert :: string
  server_key :: string
  ca_cert :: string
  audit_log_file :: "string option"

record ssl_context =
  minimum_version :: tls_version
  cert_mode :: verify_mode
  chain :: "string \<times> string"
  trusted :: string

text \<open>
  A fresh server context has the library's defaults; \<open>load_chain\<close> and \<open>load_ca\<close> are the
  outcomes of the two loading calls.
\<close>

definition build_ssl_context ::
  "config \<Rightarrow> tls_files \<Rightarrow> string \<Rightarrow> (string \<Rightarrow> string \<Rightarrow> unit result) \<Rightarrow> (string \<Rightarrow> unit result) \<Rightarrow> ssl_context result" where
  "build_ssl_context cf t dir load_chain load_ca =
     (let ctx = \<lparr>minimum_version = TLSv1_2, cert_mode = CERT_NONE, chain = ([], []), trusted = []\<rparr>;
          ctx = ctx\<lparr>minimum_version := TLSv1_3\<rparr>;
          cert = resolve dir (server_cert t); key = resolve dir (server_key t); ca = resolve dir (ca_cert t)
      in bindE (load_chain cert key) (\<lambda>_.
         bindE (load_ca ca) (\<lambda>_.
           Inr (ctx\<lparr>chain := (cert, key), trusted := ca,
                    cert_mode := (if require_mtls cf then CERT_REQUIRED else CERT_OPTIONAL)\<rparr>))))"

section \<open>start\<close>

definition wildcard :: "string \<Rightarrow> bool" where
  "wildcard ip \<longleftrightarrow> ip = ''0.0.0.0'' \<or> ip = ''::'' \<or> ip = []"

text \<open>The outcomes of the external calls \<open>start\<close> makes, and its inputs.\<close>

record 'sk host =
  host_uid :: int
  host_files :: fs
  cfg_path :: string
  cfg_dir :: string
  read_config :: "(config \<times> tls_files) result"
  load_signing_key :: "string \<Rightarrow> string \<Rightarrow> 'sk result"
  load_cert_chain :: "string \<Rightarrow> string \<Rightarrow> unit result"
  load_verify_locations :: "string \<Rightarrow> unit result"
  state_directory :: string
  audit_text :: "string \<Rightarrow> string option"
  pam_server :: "unit result"
  ws_server :: "unit result"

text \<open>The checks before anything is loaded.\<close>

definition start_guards :: "'sk host \<Rightarrow> bool \<Rightarrow> (config \<times> tls_files) result" where
  "start_guards h allow_root =
     (if host_uid h = 0 \<and> \<not> allow_root
      then Inl (SystemExit ''Refusing to run as root. Use a dedicated 'remote-unlock' user (see README / systemd unit).'')
      else
        bindE (read_config h) (\<lambda>(cf, t).
        bindE (check_private (host_files h) (resolve (cfg_dir h) (signing_key_file t))) (\<lambda>_.
        bindE (check_private (host_files h) (resolve (cfg_dir h) (server_key t))) (\<lambda>_.
        bindE (check_private (host_files h) (cfg_path h)) (\<lambda>_.
          if wildcard (listener_ip cf) \<and> \<not> allow_any_interface cf
          then Inl (SystemExit ''Refusing wildcard bind. Set listener_ip to your Tailscale/WireGuard IP.'')
          else Inr (cf, t))))))"

record 'sk runtime =
  rt_service :: "'sk service"
  rt_ssl :: ssl_context
  rt_bind :: "string \<times> int"
  rt_pam_path :: string
  rt_pam_mode :: nat
  rt_max_size :: nat

text \<open>\<open>384\<close> is the octal number 0600.\<close>

definition announce :: "('sk, 'pk) ext \<Rightarrow> env \<Rightarrow> config \<Rightarrow> 'sk service \<Rightarrow> unit result \<times> 'sk service" where
  "announce E env cf =
     bindS (\<lambda>s. case tamper_error (audit s) of
              Some err \<Rightarrow>
                if err \<noteq> []
                then record_event E env ''audit_tamper_detected'' (Some ''AUDIT LOG TAMPERING DETECTED'') ''urgent'' [''skull'']
                       [(''error'', JStr err)] s
                else (Inr (0, []), s)
            | None \<Rightarrow> (Inr (0, []), s))
       (\<lambda>_. bindS (record_event E env ''service_start'' (Some ''remote-unlock started'') ''low'' [''white_check_mark'']
                    [(''ip'', JStr (listener_ip cf)), (''port'', JInt (listener_port cf)), (''mtls'', JBool (require_mtls cf))])
              (\<lambda>_ s. (Inr (), s)))"

definition start ::
  "('sk, 'pk) ext \<Rightarrow> env \<Rightarrow> 'sk host \<Rightarrow> string \<Rightarrow> bool \<Rightarrow> 'sk runtime result" where
  "start E env h passphrase allow_root =
     bindE (start_guards h allow_root) (\<lambda>(cf, t).
     bindE (load_signing_key h (resolve (cfg_dir h) (signing_key_file t)) passphrase) (\<lambda>key.
     bindE (build_ssl_context cf t (cfg_dir h) (load_cert_chain h) (load_verify_locations h)) (\<lambda>ctx.
       let audit_path = (case audit_log_file t of
                           Some p \<Rightarrow> if p \<noteq> [] then p else state_directory h @ ''/audit.log''
                         | None \<Rightarrow> state_directory h @ ''/audit.log'')
       in bindE (open_log E (audit_text h audit_path)) (\<lambda>log.
            let service = new_service cf key log
            in bindE (pam_server h) (\<lambda>_.
               bindE (ws_server h) (\<lambda>_.
                 (case announce E env cf service of
                    (Inl e, s) \<Rightarrow> Inl e
                  | (Inr _, s) \<Rightarrow>
                      Inr \<lparr>rt_service = s, rt_ssl = ctx, rt_bind = (listener_ip cf, listener_port cf),
                           rt_pam_path = pam_socket cf, rt_pam_mode = 384, rt_max_size = 2048\<rparr>)))))))"

text \<open>\<open>main\<close> up to the wait for a signal, and \<open>Runtime.close\<close>: the socket is gone afterwards.\<close>

definition listener_main :: "('sk, 'pk) ext \<Rightarrow> env \<Rightarrow> 'sk host \<Rightarrow> pass_env \<Rightarrow> 'sk runtime result" where
  "listener_main E env h penv =
     (if host_files h (cfg_path h) = None
      then Inl (SystemExit ''No config found. Run: python3 pair.py init ...'')
      else bindE (get_passphrase (host_files h) penv False) (\<lambda>pw. start E env h pw False))"

text \<open>
  The script around \<open>main\<close>: every \<open>ValueError\<close> and \<open>TypeError\<close> that leaves it is reported as a
  failure to load the keys; \<open>str_of\<close> is the text of an exception.
\<close>

definition listener_script :: "(exc \<Rightarrow> string) \<Rightarrow> ('sk, 'pk) ext \<Rightarrow> env \<Rightarrow> 'sk host \<Rightarrow> pass_env \<Rightarrow> 'sk runtime result" where
  "listener_script str_of E env h penv =
     (case listener_main E env h penv of
        Inl e \<Rightarrow>
          if is_value_error e \<or> e = TypeError
          then Inl (SystemExit (''Could not load keys (wrong passphrase?): '' @ str_of e)) else Inl e
      | Inr rt \<Rightarrow> Inr rt)"

definition listener_stop :: "('sk, 'pk) ext \<Rightarrow> env \<Rightarrow> 'sk runtime \<Rightarrow> (nat \<times> string) result \<times> 'sk service" where
  "listener_stop E env rt = record_event E env ''service_stop'' None ''default'' [] [] (rt_service rt)"

definition runtime_close :: "fs \<Rightarrow> 'sk runtime \<Rightarrow> fs" where
  "runtime_close fs rt = fs(rt_pam_path rt := None)"

text \<open>
  A wrong passphrase ends the script with a message --- and so does a configuration that is no JSON,
  with the same message, before any key is read.
\<close>

lemma script_reports_keys:
  assumes "host_files h (cfg_path h) \<noteq> None" "get_passphrase (host_files h) penv False = Inr pw"
    and "start_guards h False = Inr (cf, t)" "load_signing_key h (resolve (cfg_dir h) (signing_key_file t)) pw = Inl ValueError"
  shows "listener_script str_of E env h penv = Inl (SystemExit (''Could not load keys (wrong passphrase?): '' @ str_of ValueError))"
  using assms by (simp add: listener_script_def listener_main_def start_def is_value_error_def)

lemma script_blames_keys:
  assumes "host_files h (cfg_path h) \<noteq> None" "get_passphrase (host_files h) penv False = Inr pw"
    and "host_uid h \<noteq> 0" "read_config h = Inl JSONDecodeError"
  shows "listener_script str_of E env h penv = Inl (SystemExit (''Could not load keys (wrong passphrase?): '' @ str_of JSONDecodeError))"
  using assms by (simp add: listener_script_def listener_main_def start_def start_guards_def is_value_error_def)

section \<open>What a running service guarantees\<close>

lemma start_guards_Inr:
  assumes "start_guards h allow_root = Inr (cf, t)"
  shows "(host_uid h = 0 \<longrightarrow> allow_root) \<and> read_config h = Inr (cf, t)
    \<and> (\<forall>p \<in> {resolve (cfg_dir h) (signing_key_file t), resolve (cfg_dir h) (server_key t), cfg_path h}.
         check_private (host_files h) p = Inr ())
    \<and> (wildcard (listener_ip cf) \<longrightarrow> allow_any_interface cf)"
  using assms by (auto simp: start_guards_def bindE_eq_Inr split: if_splits)

text \<open>Announcing touches the log and the list of effects, nothing else.\<close>

lemma record_only_logs: "\<exists>l x. snd (record_event E env ev ti p tg d s) = s\<lparr>audit := l, out := x\<rparr>"
proof (cases "disk_ok env")
  case True
  show ?thesis
    by (rule record_event_ok [OF True, of E ev ti p tg d s]) auto
next
  case False
  obtain l where "record_event E env ev ti p tg d s = (Inl OSError, s\<lparr>audit := l\<rparr>)"
    by (rule record_event_failed [OF False])
  then show ?thesis by (intro exI [of _ l] exI [of _ "out s"]) simp
qed

lemma announce_only_logs: "\<exists>l x. snd (announce E env cf s) = s\<lparr>audit := l, out := x\<rparr>"
proof -
  let ?P = "\<lambda>y. \<exists>l x. y = s\<lparr>audit := l, out := x\<rparr>"
  have r: "?P y \<Longrightarrow> ?P (snd (record_event E env ev ti p tg d y))" for ev ti p tg d y
    using record_only_logs [of E env ev ti p tg d y] by force
  have "s = s\<lparr>audit := audit s, out := out s\<rparr>" by simp
  then have z: "?P s" by metis
  show ?thesis
    unfolding announce_def
    by (rule bindS_pres [where P = ?P, OF z]; (rule bindS_pres [where P = ?P])?) (auto simp: r split: option.split)
qed

lemma announce_sel:
  "fst (announce E env cf s) = Inr u \<Longrightarrow> pending (snd (announce E env cf s)) = pending s
    \<and> active (snd (announce E env cf s)) = active s \<and> sv_broker (snd (announce E env cf s)) = sv_broker s
    \<and> cfg (snd (announce E env cf s)) = cfg s"
  using announce_only_logs [of E env cf s] by auto

text \<open>
  C25.  A service that is up passed every guard: it does not run as root (unless told to), its
  configuration and both private keys are readable by their owner only, it does not listen on a
  wildcard address unless the configuration says so, it speaks TLS 1.3 and nothing older, demands a
  client certificate whenever \<open>require_mtls\<close> is set, its PAM socket has mode 0600, and it starts
  with no pending challenge, no connection and no grant.
\<close>

theorem started_service_is_guarded:
  assumes "start E env h pw allow_root = Inr rt"
  shows "\<exists>cf t. read_config h = Inr (cf, t) \<and> (host_uid h = 0 \<longrightarrow> allow_root)
    \<and> check_private (host_files h) (resolve (cfg_dir h) (signing_key_file t)) = Inr ()
    \<and> check_private (host_files h) (resolve (cfg_dir h) (server_key t)) = Inr ()
    \<and> check_private (host_files h) (cfg_path h) = Inr ()
    \<and> (listener_ip cf \<in> {''0.0.0.0'', ''::'', []} \<longrightarrow> allow_any_interface cf) \<and> rt_bind rt = (listener_ip cf, listener_port cf)
    \<and> minimum_version (rt_ssl rt) = TLSv1_3 \<and> (require_mtls cf \<longrightarrow> cert_mode (rt_ssl rt) = CERT_REQUIRED)
    \<and> rt_pam_mode rt mod 64 = 0 \<and> cfg (rt_service rt) = cf
    \<and> pending (rt_service rt) = [] \<and> active (rt_service rt) = 0 \<and> expires (sv_broker (rt_service rt)) = 0"
proof -
  obtain cf t key ctx log where g: "start_guards h allow_root = Inr (cf, t)"
    and c: "build_ssl_context cf t (cfg_dir h) (load_cert_chain h) (load_verify_locations h) = Inr ctx"
    and up: "(case announce E env cf (new_service cf key log) of
                (Inl e, s) \<Rightarrow> Inl e
              | (Inr _, s) \<Rightarrow>
                  Inr \<lparr>rt_service = s, rt_ssl = ctx, rt_bind = (listener_ip cf, listener_port cf),
                       rt_pam_path = pam_socket cf, rt_pam_mode = 384, rt_max_size = 2048\<rparr>) = Inr rt"
    using assms by (auto simp: start_def bindE_eq_Inr Let_def)
  obtain s where a: "announce E env cf (new_service cf key log) = (Inr (), s)"
    and rt: "rt = \<lparr>rt_service = s, rt_ssl = ctx, rt_bind = (listener_ip cf, listener_port cf),
                           rt_pam_path = pam_socket cf, rt_pam_mode = 384, rt_max_size = 2048\<rparr>"
    using up by (cases "announce E env cf (new_service cf key log)") (auto split: sum.splits)
  have "minimum_version ctx = TLSv1_3 \<and> (require_mtls cf \<longrightarrow> cert_mode ctx = CERT_REQUIRED)"
    using c by (auto simp: build_ssl_context_def bindE_eq_Inr Let_def)
  moreover have "pending s = [] \<and> active s = 0 \<and> expires (sv_broker s) = 0 \<and> cfg s = cf"
    using announce_sel [of E env cf "new_service cf key log"] a by (simp add: new_service_def Let_def new_broker_def)
  ultimately show ?thesis
    using start_guards_Inr [OF g] rt by (intro exI [of _ cf] exI [of _ t]) (auto simp: wildcard_def)
qed

lemma record_Inr:
  assumes "disk_ok env"
  obtains r s' where "record_event E env ev ti p tg data s = (Inr r, s')"
  using record_event_ok [OF assms] that by metis

lemma announce_ok:
  assumes "disk_ok env"
  shows "\<exists>s'. announce E env cf s = (Inr (), s')"
proof -
  let ?m = "\<lambda>s. case tamper_error (audit s) of
              Some err \<Rightarrow>
                if err \<noteq> []
                then record_event E env ''audit_tamper_detected'' (Some ''AUDIT LOG TAMPERING DETECTED'') ''urgent'' [''skull'']
                       [(''error'', JStr err)] s
                else (Inr (0, []), s)
            | None \<Rightarrow> (Inr (0, []), s)"
  obtain r s1 where 1: "?m s = (Inr r, s1)"
  proof (cases "tamper_error (audit s)")
    case (Some err)
    obtain r s1 where "record_event E env ''audit_tamper_detected'' (Some ''AUDIT LOG TAMPERING DETECTED'') ''urgent'' [''skull'']
        [(''error'', JStr err)] s = (Inr r, s1)"
      by (rule record_Inr [OF assms])
    with Some that show ?thesis by (cases "err = []") simp_all
  qed (use that in simp)
  obtain r' s2 where "record_event E env ''service_start'' (Some ''remote-unlock started'') ''low'' [''white_check_mark'']
      [(''ip'', JStr (listener_ip cf)), (''port'', JInt (listener_port cf)), (''mtls'', JBool (require_mtls cf))] s1 = (Inr r', s2)"
    by (rule record_Inr [OF assms])
  with 1 show ?thesis unfolding announce_def by (simp add: bindS_def)
qed

definition toy_host :: "nat host" where
  "toy_host = \<lparr>host_uid = 990, host_files = (\<lambda>_. Some \<lparr>contents = [], st_mode = 384\<rparr>), cfg_path = ''c/config.json'', cfg_dir = ''c'',
     read_config = Inr (toy_config, \<lparr>signing_key_file = ''s.key'', server_cert = ''s.crt'', server_key = ''t.key'', ca_cert = ''ca.crt'',
                                       audit_log_file = None\<rparr>),
     load_signing_key = (\<lambda>_ _. Inr 7), load_cert_chain = (\<lambda>_ _. Inr ()), load_verify_locations = (\<lambda>_. Inr ()),
     state_directory = ''st'', audit_text = (\<lambda>_. None), pam_server = Inr (), ws_server = Inr ()\<rparr>"

lemma toy_start: "\<exists>rt. start toy_ext (toy_env 1) toy_host ''pw'' False = Inr rt"
proof -
  have d: "disk_ok (toy_env 1)" by (simp add: toy_env_def)
  have p: "check_private (host_files toy_host) p = Inr ()" for p
    by (simp add: check_private_Inr toy_host_def mask_63)
  have g: "start_guards toy_host False = Inr (toy_config, \<lparr>signing_key_file = ''s.key'', server_cert = ''s.crt'', server_key = ''t.key'',
      ca_cert = ''ca.crt'', audit_log_file = None\<rparr>)"
    unfolding start_guards_def p by (simp add: toy_host_def toy_config_def wildcard_def)
  obtain s where "announce toy_ext (toy_env 1) toy_config (new_service toy_config (7 :: nat) empty_log) = (Inr (), s)"
    using announce_ok [OF d] by blast
  then show ?thesis
    using g by (simp add: start_def Let_def toy_host_def build_ssl_context_def open_log_None)
qed

lemma started_service_is_guarded_witness:
  "\<exists>rt. start toy_ext (toy_env 1) toy_host ''pw'' False = Inr rt \<and> pending (rt_service rt) = []
    \<and> minimum_version (rt_ssl rt) = TLSv1_3"
  using toy_start started_service_is_guarded [of toy_ext "toy_env 1" toy_host "''pw''" False] by blast

end
