(* ===== verification/ClientTool.thy ===== *)
theory ClientTool
  imports Client Pair Startup
begin

text \<open>
  The command line of the reference client, \<^verbatim>\<open>src/client_example.py\<close>: the TLS context, the whole
  conversation of \<open>unlock\<close>, \<open>keygen\<close>, and \<open>main\<close> with its exit status.
\<close>

section \<open>The conversation\<close>

text \<open>
  \<open>ssl.create_default_context(cafile=ca)\<close> demands a server certificate that the authority signed;
  \<open>load_ca\<close> and \<open>load_chain\<close> are the outcomes of the loading calls.
\<close>

definition make_ssl_context ::
  "string \<Rightarrow> string \<Rightarrow> string \<Rightarrow> (string \<Rightarrow> unit result) \<Rightarrow> (string \<Rightarrow> string \<Rightarrow> unit result) \<Rightarrow> ssl_context result" where
  "make_ssl_context ca cert key load_ca load_chain =
     bindE (load_ca ca) (\<lambda>_.
       let ctx = \<lparr>minimum_version = TLSv1_2, cert_mode = CERT_REQUIRED, chain = ([], []), trusted = ca\<rparr>;
           ctx = ctx\<lparr>minimum_version := TLSv1_3\<rparr>
       in if cert \<noteq> [] \<and> key \<noteq> []
          then bindE (load_chain cert key) (\<lambda>_. Inr (ctx\<lparr>chain := (cert, key)\<rparr>))
          else Inr ctx)"

text \<open>
  \<open>answer ms\<close> is what the next receive comes to after the messages \<open>ms\<close> were sent; connecting and
  sending raise through it as well.
\<close>

definition unlock_run ::
  "('sk, 'pk) ext \<Rightarrow> (json list \<Rightarrow> string result) \<Rightarrow> 'sk \<Rightarrow> string \<Rightarrow> 'pk \<Rightarrow> string \<Rightarrow> bool result" where
  "unlock_run E answer device_key device_id laptop_pub target =
     (let hello = client_hello device_id
      in bindE (client_respond E device_key device_id laptop_pub target (answer [hello])) (\<lambda>response.
           client_result (answer [hello, response])))"

section \<open>The commands\<close>

text \<open>
  \<open>keygen\<close>: the key is written in place, with the mode the process gives to new files, and made
  private afterwards; \<open>chmod\<close> tells whether that succeeds.  The result is what is printed.
\<close>

definition client_keygen ::
  "('sk, 'pk, 'cert) pki \<Rightarrow> 'sk \<Rightarrow> nat \<Rightarrow> write_fault \<Rightarrow> bool \<Rightarrow> string \<Rightarrow> fs \<Rightarrow> string result \<times> fs" where
  "client_keygen P key new_mode flt chmod dest fs =
     bindS (write_in_place flt (case fs dest of Some f \<Rightarrow> st_mode f | None \<Rightarrow> new_mode) dest (plain_pem P key)) (\<lambda>_.
     bindS (\<lambda>fs. if chmod then (Inr (), fs(dest := map_option (\<lambda>f. f\<lparr>st_mode := 384\<rparr>) (fs dest))) else (Inl OSError, fs)) (\<lambda>_.
       lift (Inr (public_pem P (public_of P key))))) fs"

record client_args =
  arg_ca :: string
  arg_cert :: string
  arg_key :: string
  arg_device_key :: string
  arg_device_id :: string
  arg_laptop_pub :: string
  arg_target_id :: string

text \<open>\<open>unlock\<close>: the line printed and the exit status; \<open>load_device\<close> is \<open>load_pem_private_key\<close>.\<close>

definition client_unlock ::
  "('sk, 'pk) ext \<Rightarrow> fs \<Rightarrow> (bytes \<Rightarrow> 'sk result) \<Rightarrow> (string \<Rightarrow> unit result) \<Rightarrow> (string \<Rightarrow> string \<Rightarrow> unit result)
    \<Rightarrow> (ssl_context \<Rightarrow> json list \<Rightarrow> string result) \<Rightarrow> client_args \<Rightarrow> (string \<times> int) result" where
  "client_unlock E fs load_device load_ca load_chain answer a =
     bindE (fst (read_file (arg_device_key a) fs)) (\<lambda>b.
     bindE (load_device b) (\<lambda>dk.
     bindE (fst (read_file (arg_laptop_pub a) fs)) (\<lambda>t.
     bindE (load_public_key E (utf8_decode t)) (\<lambda>lp.
     bindE (make_ssl_context (arg_ca a) (arg_cert a) (arg_key a) load_ca load_chain) (\<lambda>ctx.
     bindE (unlock_run E (answer ctx) dk (arg_device_id a) lp (arg_target_id a)) (\<lambda>ok.
       Inr (if ok then (''UNLOCKED'', 0) else (''REJECTED'', 1))))))))"

section \<open>What the commands come to\<close>

lemma make_ssl_context_strict:
  "make_ssl_context ca cert key la lc = Inr ctx \<Longrightarrow>
    TLSv1_3 \<le> minimum_version ctx \<and> cert_mode ctx = CERT_REQUIRED \<and> trusted ctx = ca \<and> la ca = Inr ()"
  by (auto simp: make_ssl_context_def bindE_eq_Inr Let_def split: if_splits)

text \<open>
  Exit status 0 means that a laptop that proved its key said yes: the connection demanded a
  certificate of the given authority over TLS 1.3, the challenge carried a signature that verifies
  under the laptop's key, and the last message says that the unlock was taken.
\<close>

lemma client_exit_zero:
  assumes "client_unlock E fs ld la lc answer a = Inr (l, 0)"
  shows "\<exists>ctx dk lp ch n ms smsg r res. make_ssl_context (arg_ca a) (arg_cert a) (arg_key a) la lc = Inr ctx
    \<and> TLSv1_3 \<le> minimum_version ctx \<and> cert_mode ctx = CERT_REQUIRED
    \<and> recv_obj (answer ctx [client_hello (arg_device_id a)]) = Inr ch
    \<and> signed_message ''challenge'' n ms (arg_device_id a) (arg_target_id a) = Inr smsg
    \<and> verify_sig E lp smsg (jget ch ''server_sig'') = Inr True
    \<and> client_respond E dk (arg_device_id a) lp (arg_target_id a) (answer ctx [client_hello (arg_device_id a)]) = Inr r
    \<and> recv_obj (answer ctx [client_hello (arg_device_id a), r]) = Inr res \<and> jget res ''ok'' = JBool True"
proof -
  from assms obtain ctx dk lp where c: "make_ssl_context (arg_ca a) (arg_cert a) (arg_key a) la lc = Inr ctx"
      "unlock_run E (answer ctx) dk (arg_device_id a) lp (arg_target_id a) = Inr True"
    by (auto simp: client_unlock_def bindE_eq_Inr split: if_splits)
  then obtain r res where r: "client_respond E dk (arg_device_id a) lp (arg_target_id a) (answer ctx [client_hello (arg_device_id a)]) = Inr r"
      "recv_obj (answer ctx [client_hello (arg_device_id a), r]) = Inr res" "jget res ''ok'' = JBool True"
    by (auto simp: unlock_run_def client_result_def bindE_eq_Inr Let_def)
  from client_respond_Inr [OF r(1)] make_ssl_context_strict [OF c(1)] c(1) r show ?thesis by blast
qed

lemma keygen_private:
  assumes "client_keygen P key new_mode flt chmod dest fs = (Inr l, fs')"
  shows "fs' = fs(dest \<mapsto> \<lparr>contents = plain_pem P key, st_mode = 384\<rparr>) \<and> check_private fs' dest = Inr ()"
  using assms
  by (auto simp: client_keygen_def bindS_def lift_def write_in_place_def check_private_Inr mask_63 split: write_fault.splits if_splits)

text \<open>
  Until \<open>chmod\<close>, a new key file has the mode of any new file: with the usual mode 0644 (420) it is
  readable by everyone, and stays so when the program is stopped there.
\<close>

lemma keygen_exposes:
  "fs dest = None \<Longrightarrow> client_keygen P key 420 Whole False dest fs = (Inl OSError, fs(dest \<mapsto> \<lparr>contents = plain_pem P key, st_mode = 420\<rparr>))
    \<and> check_private (fs(dest \<mapsto> \<lparr>contents = plain_pem P key, st_mode = 420\<rparr>)) dest \<noteq> Inr ()"
proof -
  have "((420 :: nat) AND 511) AND 63 = 36" by (simp add: mask_63)
  then show "fs dest = None \<Longrightarrow> ?thesis"
    by (simp add: client_keygen_def bindS_def write_in_place_def check_private_Inr)
qed

end
