(* ===== verification/Enrolment.thy ===== *)
theory Enrolment
  imports Pair
begin

text \<open>
  What the commands of \<^verbatim>\<open>src/pair.py\<close> do to the registry the service reads: each run of the tool is
  at most one change of the typed registry, so the laws of the locale \<open>registry\<close> hold of the
  configuration file through any sequence of runs, whatever fails on the way.
\<close>

section \<open>The registry in the configuration file\<close>

definition devices_at :: "fs \<Rightarrow> string \<Rightarrow> device list option" where
  "devices_at fs dir =
     (case open_config fs (in_dir dir ''config.json'') of
        Inl e \<Rightarrow> None
      | Inr data \<Rightarrow> devices_of (jget data ''devices''))"

text \<open>Configurations without floats, whose text the model can print.\<close>

definition plain_config :: "fs \<Rightarrow> string \<Rightarrow> bool" where
  "plain_config fs dir =
     (case open_config fs (in_dir dir ''config.json'') of Inl e \<Rightarrow> False | Inr data \<Rightarrow> plain (JObj data))"

lemma plain_update: "plain (JObj d) \<Longrightarrow> plain v \<Longrightarrow> plain (JObj (AList.update k v d))"
  using set_update_subset [of k v d] by (fastforce simp: list_all_iff)

lemma plain_dict_update: "plain (JObj d) \<Longrightarrow> list_all (\<lambda>(k, v). plain v) e \<Longrightarrow> plain (JObj (dict_update d e))"
proof (induction e arbitrary: d)
  case (Cons a e)
  obtain k v where a: "a = (k, v)" by (cases a)
  have "plain (JObj (AList.update k v d))"
    by (rule plain_update [OF Cons.prems(1)]) (use Cons.prems(2) a in simp)
  from Cons.IH [OF this] Cons.prems(2) a show ?case by (simp add: dict_update_def)
qed (simp add: dict_update_def)

lemma plain_DEFAULTS: "plain (JObj DEFAULTS)"
  by (simp add: DEFAULTS_def dict_ok_def)

lemma open_config_saved:
  "plain (JObj data) \<Longrightarrow> open_config (saved P dir data fs) (in_dir dir ''config.json'') = Inr (dict_update DEFAULTS data)"
  by (rule open_saved [where fr = "float_repr (base P)" and m = 384]) (simp_all add: saved_def)

lemma saved_config:
  assumes "plain (JObj data)" and "map_of data ''devices'' = Some v"
  shows "devices_at (saved P dir data fs) dir = devices_of v" "plain_config (saved P dir data fs) dir"
proof -
  have o: "open_config (saved P dir data fs) (in_dir dir ''config.json'') = Inr (dict_update DEFAULTS data)"
    by (rule open_config_saved [OF assms(1)])
  have "''devices'' \<in> fst ` set data" using assms(2) by (metis map_of_eq_None_iff option.distinct(1))
  with assms have "jget (dict_update DEFAULTS data) ''devices'' = v"
    by (simp add: jget_def map_of_dict_update_in)
  with o show "devices_at (saved P dir data fs) dir = devices_of v" by (simp add: devices_at_def)
  have "plain (JObj (dict_update DEFAULTS data))"
    by (rule plain_dict_update [OF plain_DEFAULTS]) (use assms(1) in simp)
  with o show "plain_config (saved P dir data fs) dir" by (simp add: plain_config_def)
qed

text \<open>A file other than the configuration does not matter.\<close>

lemma other_file:
  assumes "p \<noteq> in_dir dir ''config.json''"
  shows "devices_at (fs(p := f)) dir = devices_at fs dir" "plain_config (fs(p := f)) dir = plain_config fs dir"
  using assms by (simp_all add: devices_at_def plain_config_def open_config_def)

lemma devices_at_data:
  assumes "devices_at fs dir = Some ds" "open_config fs (in_dir dir ''config.json'') = Inr data"
  obtains xs where "map_of data ''devices'' = Some (JList xs)" "map device_of xs = map Some ds"
  using assms by (auto simp: devices_at_def devices_of_def jget_def those_Some split: json.splits option.splits)

lemma plain_data:
  "plain_config fs dir \<Longrightarrow> open_config fs (in_dir dir ''config.json'') = Inr data \<Longrightarrow> plain (JObj data)"
  by (simp add: plain_config_def)

lemma plain_entry: "plain (JObj d) \<Longrightarrow> map_of d k = Some v \<Longrightarrow> plain v"
  by (auto simp: list_all_iff dest: map_of_SomeD)

section \<open>Adding\<close>

definition new_device :: "('sk, 'pk, 'cert) pki \<Rightarrow> 'sk run \<Rightarrow> string \<Rightarrow> 'pk \<Rightarrow> 'cert \<Rightarrow> device" where
  "new_device P r name pk cert =
     \<lparr>dev_id = name, public_key_pem = public_pem P pk, cert_sha256 = sha256 (base P) (cert_der P cert),
      enabled = True, created = isoformat r (run_clock r), cert_expires = isoformat r (expires_at P cert), revoked = None\<rparr>"

lemma device_of_entry: "device_of (JObj (device_entry P r name pk cert)) = Some (new_device P r name pk cert)"
  by (simp add: device_of_def device_entry_def new_device_def jget_def jget_default_def text_or_def)

lemma plain_device_entry: "plain (JObj (device_entry P r name pk cert))"
  by (simp add: device_entry_def dict_ok_def)

text \<open>The certificate \<open>add_device\<close> hands out: signed by the CA key for the device's name, for client
  authentication only.\<close>

definition client_cert :: "('sk, 'pk, 'cert) pki \<Rightarrow> 'sk run \<Rightarrow> string \<Rightarrow> 'sk \<Rightarrow> int \<Rightarrow> 'cert \<Rightarrow> bool" where
  "client_cert P r name ca_key days cert \<longleftrightarrow>
     sign_cert P
       \<lparr>subject_cn = name, issuer_cn = ''remote-unlock-ca'', subject_key = public_of P (keys r 0), serial = serials r 0,
        not_before = run_clock r - 300, not_after = run_clock r + of_int days * 86400,
        extensions = [(SubjectKeyIdentifier (public_of P (keys r 0)), False),
                      (AuthorityKeyIdentifier (public_of P ca_key), False),
                      (BasicConstraints False None, True), (KeyUsage (usage_for False), True),
                      (ExtendedKeyUsage [CLIENT_AUTH], False)]\<rparr> ca_key = Inr cert"

lemma add_device_view:
  assumes "tmp_ok r fs" "devices_at fs dir = Some ds" "plain_config fs dir"
    and "add_device P r dir name pub pw days fs = (res, fs')"
  obtains (refused) e where "res = Inl e" "fs' = fs"
  | (added) b pk ca_key cert where "res = Inr b" "ID_RE name" "load_public_key (base P) pub = Inr pk"
      "client_cert P r name ca_key days cert" "\<not> known ds name"
      "devices_at fs' dir = Some (ds @ [new_device P r name pk cert])" "plain_config fs' dir"
      "\<exists>f. fs' = fs(in_dir dir ''config.json'' \<mapsto> f)"
  using assms(1,4)
proof (cases rule: add_device_cases)
  case (refused e)
  then show ?thesis by (rule that(1))
next
  case (added data xs pk cert ca_key b)
  from assms(2) added(3) obtain xs' where "map_of data ''devices'' = Some (JList xs')" "map device_of xs' = map Some ds"
    by (rule devices_at_data)
  with added(4) have xs: "map device_of xs = map Some ds" by simp
  note pl = plain_data [OF assms(3) added(3)]
  let ?e = "JObj (device_entry P r name pk cert)"
  let ?data = "AList.update ''devices'' (JList (xs @ [?e])) data"
  have "plain (JList (xs @ [?e]))"
    using plain_entry [OF pl added(4)] plain_device_entry [of P r name pk cert] by simp
  with pl have pl': "plain (JObj ?data)" by (rule plain_update)
  have v: "map_of ?data ''devices'' = Some (JList (xs @ [?e]))" by (simp add: update_conv')
  note s = saved_config [OF pl' v, of P dir fs]
  have dv: "devices_at fs' dir = Some (ds @ [new_device P r name pk cert])"
    unfolding added(8) s(1) using xs by (simp add: devices_of_def those_Some device_of_entry)
  have pc: "plain_config fs' dir" unfolding added(8) by (rule s(2))
  have "\<not> known ds name" using any_id_known [OF xs, of name] added(5) by simp
  moreover have "client_cert P r name ca_key days cert"
    using added(7) by (simp add: client_cert_def build_cert_def Let_def)
  moreover have "\<exists>f. fs' = fs(in_dir dir ''config.json'' \<mapsto> f)"
    unfolding added(8) saved_def by blast
  ultimately show ?thesis using that(2) added(1,2,6) dv pc by blast
qed

section \<open>Revoking\<close>

lemma plain_revoked: "plain (JObj m) \<Longrightarrow> plain (JObj (mark_revoked now m))"
  unfolding mark_revoked_def by (intro plain_update) simp_all

lemma plain_revoke_in: "revoke_in name now xs = Inr (Some ys) \<Longrightarrow> list_all plain xs \<Longrightarrow> list_all plain ys"
proof (induction xs arbitrary: ys)
  case (Cons x xs)
  then show ?case
    by (cases x) (auto simp: py_simps split: if_splits intro: plain_revoked simp del: plain.simps)
qed simp

lemma revoke_device_view:
  assumes "tmp_ok r fs" "devices_at fs dir = Some ds" "plain_config fs dir"
    and "revoke_device P r dir name fs = (res, fs')"
  obtains (refused) e where "res = Inl e" "fs' = fs"
  | (marked) ds' where "res = Inr ()" "reg_revoke (isoformat r (run_clock r)) name ds = Some ds'"
      "devices_at fs' dir = Some ds'" "plain_config fs' dir"
proof -
  obtain data where data: "open_config fs (in_dir dir ''config.json'') = Inr data" "plain (JObj data)"
    using assms(3) by (auto simp: plain_config_def split: sum.splits)
  from assms(2) data(1) obtain xs where xs: "map_of data ''devices'' = Some (JList xs)" "map device_of xs = map Some ds"
    by (rule devices_at_data)
  let ?now = "isoformat r (run_clock r)"
  note R = assms(4) [unfolded revoke_device_def Let_def bindS_reads]
  note T = revoke_in_typed [OF xs(2), where now = ?now and name = name]
  show ?thesis
  proof (cases "reg_revoke ?now name ds")
    case None
    with T have "revoke_in name ?now xs = Inr None" by simp
    with R data xs show ?thesis by (intro refused) (auto simp: jitem_def py_iter_def lift_def)
  next
    case (Some ds')
    with T obtain ys where ys: "revoke_in name ?now xs = Inr (Some ys)" "map device_of ys = map Some ds'" by auto
    let ?data = "AList.update ''devices'' (JList ys) data"
    from R data xs ys have w: "save P r (in_dir dir ''config.json'') ?data fs = (res, fs')"
      by (simp add: jitem_def py_iter_def)
    have "list_all plain xs" using plain_entry [OF data(2) xs(1)] by simp
    with ys(1) have "plain (JList ys)" using plain_revoke_in by simp
    with data(2) have pl: "plain (JObj ?data)" by (rule plain_update)
    have v: "map_of ?data ''devices'' = Some (JList ys)" by (simp add: update_conv')
    note s = saved_config [OF pl v, of P dir fs]
    from write_file_cases [OF assms(1) file_names(1)] w [unfolded save_eq]
    have "(res = Inl OSError \<and> fs' = fs) \<or> (res = Inr () \<and> fs' = saved P dir ?data fs)"
      unfolding saved_def by blast
    with Some ys(2) s show ?thesis
      by (auto simp: devices_of_def those_Some intro: refused marked)
  qed
qed

section \<open>Renewing the server certificate\<close>

lemma same_config:
  assumes "fs' (in_dir dir ''config.json'') = fs (in_dir dir ''config.json'')"
  shows "open_config fs' (in_dir dir ''config.json'') = open_config fs (in_dir dir ''config.json'')"
    "devices_at fs' dir = devices_at fs dir" "plain_config fs' dir = plain_config fs dir"
  using assms by (simp_all add: devices_at_def plain_config_def open_config_def)

lemma issue_server_files:
  assumes tmp: "tmp_ok r fs" and issue: "issue_server P r k n dir ca_key ca_cert target ip pw fs = (res, fs')"
  shows "tmp_ok r fs' \<and> (\<forall>p. p \<noteq> in_dir dir ''server-key.pem'' \<and> p \<noteq> in_dir dir ''server-cert.pem'' \<longrightarrow> fs' p = fs p)"
proof -
  let ?k = "in_dir dir ''server-key.pem''" and ?c = "in_dir dir ''server-cert.pem''"
  have "fs' = fs \<or> (\<exists>cert r1 fs1. write_file r ?k (enc_pem P (keys r k) pw) fs = (r1, fs1)
      \<and> (fs' = fs1 \<or> write_file r ?c (cert_pem P cert) fs1 = (res, fs')))"
    using issue unfolding issue_server_def Let_def bindS_reads
    by (auto simp: py_simps split: sum.splits)
  then show ?thesis
  proof
    assume "fs' = fs" with tmp show ?thesis by simp
  next
    assume "\<exists>cert r1 fs1. write_file r ?k (enc_pem P (keys r k) pw) fs = (r1, fs1)
      \<and> (fs' = fs1 \<or> write_file r ?c (cert_pem P cert) fs1 = (res, fs'))"
    then obtain cert r1 fs1 where w1: "write_file r ?k (enc_pem P (keys r k) pw) fs = (r1, fs1)"
      and w2: "fs' = fs1 \<or> write_file r ?c (cert_pem P cert) fs1 = (res, fs')" by blast
    from write_file_cases [OF tmp _ w1] have 1: "fs1 = fs \<or> (\<exists>f. fs1 = fs(?k \<mapsto> f))" by auto
    with tmp have t1: "tmp_ok r fs1" by (auto intro: tmp_ok_upd)
    from w2 write_file_cases [OF t1, of "''server-cert.pem''" dir "cert_pem P cert" res fs']
    have 2: "fs' = fs1 \<or> (\<exists>f. fs' = fs1(?c \<mapsto> f))" by auto
    with t1 have "tmp_ok r fs'" by (auto intro: tmp_ok_upd)
    moreover from 1 2 have "\<forall>p. p \<noteq> ?k \<and> p \<noteq> ?c \<longrightarrow> fs' p = fs p" by auto
    ultimately show ?thesis by blast
  qed
qed

definition renew_plan :: "('sk, 'pk, 'cert) pki \<Rightarrow> string \<Rightarrow> string option \<Rightarrow> string \<Rightarrow> fs \<Rightarrow>
    ((string \<times> json) list \<times> 'sk \<times> 'cert \<times> json \<times> string) result" where
  "renew_plan P dir ip pw fs =
     bindE (open_config fs (in_dir dir ''config.json'')) (\<lambda>data.
     bindE (fst (load_key_file P (in_dir dir ''ca-key.pem'') pw fs)) (\<lambda>ca_key.
     bindE (fst (bindS (read_file (in_dir dir ''ca-cert.pem'')) (\<lambda>b. lift (load_cert P b)) fs)) (\<lambda>ca_cert.
     bindE (case ip of Some i \<Rightarrow> if i \<noteq> [] then Inr (JStr i) else jitem data ''listener_ip''
            | None \<Rightarrow> jitem data ''listener_ip'') (\<lambda>addr.
     bindE (bindE (jitem data ''target_id'') (\<lambda>t. case t of JStr s \<Rightarrow> Inr s | _ \<Rightarrow> Inl TypeError)) (\<lambda>target.
       Inr (data, ca_key, ca_cert, addr, target))))))"

text \<open>\<open>renew_server\<close> reads everything it needs, and then writes.\<close>

lemma renew_server_plan:
  "renew_server P r dir ip pw fs =
     (case renew_plan P dir ip pw fs of
        Inl e \<Rightarrow> (Inl e, fs)
      | Inr (data, ca_key, ca_cert, addr, target) \<Rightarrow>
          bindS (issue_server P r 0 0 dir ca_key ca_cert target addr pw)
            (\<lambda>_. save P r (in_dir dir ''config.json'') (AList.update ''listener_ip'' addr data)) fs)"
  unfolding renew_server_def renew_plan_def Let_def bindS_reads bindE_def
  by (simp split: sum.split)

lemma renew_server_view:
  assumes tmp: "tmp_ok r fs" and dv: "devices_at fs dir = Some ds" and pc: "plain_config fs dir"
    and renew: "renew_server P r dir ip pw fs = (res, fs')"
  shows "devices_at fs' dir = Some ds \<and> plain_config fs' dir"
proof -
  let ?cfg = "in_dir dir ''config.json''"
  obtain data where data: "open_config fs ?cfg = Inr data" "plain (JObj data)"
    using pc by (auto simp: plain_config_def split: sum.splits)
  show ?thesis
  proof (cases "renew_plan P dir ip pw fs")
    case (Inl e)
    with renew dv pc show ?thesis by (simp add: renew_server_plan)
  next
    case (Inr x)
    then obtain ca_key ca_cert addr target where x: "x = (data, ca_key, ca_cert, addr, target)"
      and "addr = JStr (the ip) \<or> map_of data ''listener_ip'' = Some addr"
      using data(1) by (auto simp: renew_plan_def jitem_def bindE_eq_Inr split: option.splits if_splits)
    then have addr: "plain addr" using plain_entry [OF data(2)] by auto
    obtain r1 fs1 where i: "issue_server P r 0 0 dir ca_key ca_cert target addr pw fs = (r1, fs1)"
      by (cases "issue_server P r 0 0 dir ca_key ca_cert target addr pw fs")
    with renew Inr x have w: "fs' = fs1 \<or> save P r ?cfg (AList.update ''listener_ip'' addr data) fs1 = (res, fs')"
      by (cases r1) (simp_all add: renew_server_plan)
    let ?data = "AList.update ''listener_ip'' addr data"
    from issue_server_files [OF tmp i] have t1: "tmp_ok r fs1" and c: "fs1 ?cfg = fs ?cfg" by simp_all
    note same = same_config [where fs' = fs1 and fs = fs and dir = dir, OF c]
    from dv data(1) obtain xs where xs: "map_of data ''devices'' = Some (JList xs)" "map device_of xs = map Some ds"
      by (rule devices_at_data)
    have pl: "plain (JObj ?data)" by (rule plain_update [OF data(2) addr])
    have v: "map_of ?data ''devices'' = Some (JList xs)" using xs(1) by (simp add: update_conv')
    from w write_file_cases [OF t1 file_names(1), of dir _ res fs'] have "fs' = fs1 \<or> fs' = saved P dir ?data fs1"
      unfolding save_eq saved_def by blast
    with same dv pc saved_config [OF pl v, of P dir fs1] xs(2) show ?thesis
      by (auto simp: devices_of_def those_Some)
  qed
qed

section \<open>What \<open>init\<close> saves\<close>

lemma write_file_eq:
  assumes "tmp_ok r fs" "file_name n"
  shows "write_file r (in_dir d n) data fs =
    (if disk r (in_dir d n) = NoFault then (Inr (), fs(in_dir d n \<mapsto> \<lparr>contents = data, st_mode = 384\<rparr>)) else (Inl OSError, fs))"
proof -
  have t: "fs (tmp_name r (in_dir d n)) = None" "tmp_name r (in_dir d n) \<noteq> in_dir d n"
    using assms by (auto simp: tmp_ok_def tmp_form_neq)
  have [simp]: "fs(tmp_name r (in_dir d n) := None) = fs" using t(1) by (simp add: fun_upd_idem)
  show ?thesis using t
    by (cases "disk r (in_dir d n)") (simp_all add: write_file_def write_private_def unlink_quiet_def Let_def fun_upd_twist)
qed

definition secret :: "bytes \<Rightarrow> fs_file" where
  "secret data = \<lparr>contents = data, st_mode = 384\<rparr>"

definition init_data :: "('sk, 'pk, 'cert) pki \<Rightarrow> 'sk run \<Rightarrow> string \<Rightarrow> int \<Rightarrow> string \<Rightarrow> string \<Rightarrow> (string \<times> json) list" where
  "init_data P r ip port target user = dict_update DEFAULTS (init_entries P r ip port target user (keys r 2))"

lemma init_data_entries:
  "plain (JObj (init_data P r ip port target user))"
  "map_of (init_data P r ip port target user) ''devices'' = Some (JList [])"
  "map_of (init_data P r ip port target user) ''target_id'' = Some (JStr target)"
  "map_of (init_data P r ip port target user) ''listener_ip'' = Some (JStr ip)"
  "map_of (init_data P r ip port target user) ''unlock_user'' = Some (JStr user)"
  "map_of (init_data P r ip port target user) ''require_mtls'' = Some (JBool True)"
proof -
  show "plain (JObj (init_data P r ip port target user))" unfolding init_data_def
    by (rule plain_dict_update [OF plain_DEFAULTS]) (simp add: init_entries_def dict_ok_def)
qed (simp_all add: init_data_def map_of_dict_update_in map_of_dict_update_notin init_entries_def dict_ok_def DEFAULTS_def)

section \<open>Runs of the tool\<close>

definition forced :: "command \<Rightarrow> bool" where
  "forced cmd = (case cmd of Init ip port target user force \<Rightarrow> force | _ \<Rightarrow> False)"

text \<open>The change a run may make: \<open>None\<close> stands for a run that leaves the registry as it is.\<close>

definition one_change :: "('sk, 'pk, 'cert) pki \<Rightarrow> 'sk run \<Rightarrow> command \<Rightarrow> (device, string) change option \<Rightarrow> bool" where
  "one_change P r cmd c =
     (case c of
        None \<Rightarrow> True
      | Some (Add d) \<Rightarrow>
          (\<exists>name kf key out pk ca_key cert. cmd = AddDevice name kf key out \<and> ID_RE name
             \<and> client_cert P r name ca_key 365 cert \<and> d = new_device P r name pk cert)
      | Some (Revoke t n) \<Rightarrow> cmd = RevokeDevice n \<and> t = isoformat r (run_clock r))"

lemma bundle_file_name:
  assumes "ID_RE name" shows "file_name (name @ ''.p12'')"
proof -
  have "list_all (\<lambda>c. c \<noteq> CHR ''/'') name"
    by (rule dollar_match_chars [OF assms [unfolded ID_RE_def]])
      (auto simp: id_body_def id_char_def id_first_def is_lower_def is_digit_def list_all_iff split: list.splits)
  then have "CHR ''/'' \<notin> set (name @ ''.p12'')" by (auto simp: list_all_iff)
  moreover have "\<not> starts_with (name @ ''.p12'') ''.tmp-''"
    using assms by (cases name)
      (auto simp: ID_RE_def dollar_match_def id_body_def id_first_def is_lower_def is_digit_def split: list.splits if_splits)
  ultimately show ?thesis by (simp add: file_name_def)
qed

lemma add_then_bundle:
  assumes tmp: "tmp_ok r fs" and dv: "devices_at fs d = Some ds" and pc: "plain_config fs d"
    and run: "bindS (add_device P r d name pub pw 365)
      (\<lambda>b. bindS (write_file r (in_dir out (name @ ''.p12'')) (p12 b)) (\<lambda>_. lift (Inr b))) fs = (res, fs')"
  shows "(devices_at fs' d = Some ds \<or>
      (\<exists>pk ca_key cert. ID_RE name \<and> client_cert P r name ca_key 365 cert \<and> \<not> known ds name
         \<and> devices_at fs' d = Some (ds @ [new_device P r name pk cert]))) \<and> plain_config fs' d"
proof -
  obtain r1 fs1 where a: "add_device P r d name pub pw 365 fs = (r1, fs1)" by (cases "add_device P r d name pub pw 365 fs")
  from tmp dv pc a show ?thesis
  proof (cases rule: add_device_view)
    case (refused e)
    with run a dv pc show ?thesis by (simp add: bindS_def)
  next
    case (added b pk ca_key cert)
    have n: "file_name (name @ ''.p12'')" by (rule bundle_file_name [OF added(2)])
    from added(8) tmp have t1: "tmp_ok r fs1" by (auto intro: tmp_ok_upd)
    obtain r2 fs2 where w: "write_file r (in_dir out (name @ ''.p12'')) (p12 b) fs1 = (r2, fs2)"
      by (cases "write_file r (in_dir out (name @ ''.p12'')) (p12 b) fs1")
    from run a added(1) w have "fs' = fs2" by (auto simp: bindS_def lift_def split: sum.splits)
    moreover from write_file_cases [OF t1 n w] have "fs2 = fs1 \<or> (\<exists>f. fs2 = fs1(in_dir out (name @ ''.p12'') \<mapsto> f))" by blast
    moreover have "in_dir out (name @ ''.p12'') \<noteq> in_dir d ''config.json''"
    proof
      assume eq: "in_dir out (name @ ''.p12'') = in_dir d ''config.json''"
      have "CHR ''/'' \<notin> set (name @ ''.p12'')" "CHR ''/'' \<notin> set ''config.json''"
        using n unfolding file_name_def by (blast, simp)
      from last_component [OF this eq] have "name @ ''.p12'' = ''config.json''" .
      then have "last (name @ ''.p12'') = last ''config.json''" by simp
      then show False by simp
    qed
    ultimately have "devices_at fs' d = devices_at fs1 d \<and> plain_config fs' d = plain_config fs1 d"
      using other_file [where p = "in_dir out (name @ ''.p12'')" and dir = d] by metis
    then show ?thesis
      by (intro conjI disjI2 exI [of _ pk] exI [of _ ca_key] exI [of _ cert]) (simp_all add: added)
  qed
qed

lemma init_refused:
  assumes "devices_at fs d = Some ds" "init P r d ip port target user pw False fs = (res, fs')"
  shows "fs' = fs"
proof -
  have "fs (in_dir d ''config.json'') \<noteq> None"
    using assms(1) by (cases "fs (in_dir d ''config.json'')") (simp_all add: devices_at_def open_config_def config_reload_def)
  then have "\<exists>e. init_guards d ip target False pw fs = Inl e"
    by (auto simp: init_guards_def py_simps bindE_def split: sum.splits)
  with assms(2) show ?thesis by (auto simp: init_def bindS_def)
qed

lemma pair_main_view:
  assumes tmp: "tmp_ok r fs" and dv: "devices_at fs d = Some ds" and pc: "plain_config fs d"
    and nf: "\<not> forced cmd" and run: "pair_main P r penv d cmd fs = (ls, res, fs')"
  shows "\<exists>c. one_change P r cmd c
    \<and> devices_at fs' d = (case c of None \<Rightarrow> Some ds | Some (Add d) \<Rightarrow> reg_add d ds | Some (Revoke t n) \<Rightarrow> reg_revoke t n ds)
    \<and> devices_at fs' d \<noteq> None \<and> plain_config fs' d"
proof (cases cmd)
  case (Init ip port target user force)
  with nf have force: "\<not> force" by (simp add: forced_def)
  have "fs' = fs"
    using run init_refused [OF dv] force unfolding Init pair_main_def
    by (auto simp: bindS_reads split: sum.splits prod.splits)
  with dv pc show ?thesis by (intro exI [of _ None]) (simp add: one_change_def)
next
  case (AddDevice name kf key out)
  have "fs' = fs \<or> (\<exists>pub pw res1. bindS (add_device P r d name pub pw 365)
      (\<lambda>b. bindS (write_file r (in_dir out (name @ ''.p12'')) (p12 b)) (\<lambda>_. lift (Inr b))) fs = (res1, fs'))"
    using run unfolding AddDevice pair_main_def
    by (auto simp: bindS_reads bindS_pure [OF pure_steps(2)] split: sum.splits prod.splits option.splits if_splits)
  then show ?thesis
  proof
    assume "fs' = fs" with dv pc show ?thesis by (intro exI [of _ None]) (simp add: one_change_def)
  next
    assume "\<exists>pub pw res1. bindS (add_device P r d name pub pw 365)
      (\<lambda>b. bindS (write_file r (in_dir out (name @ ''.p12'')) (p12 b)) (\<lambda>_. lift (Inr b))) fs = (res1, fs')"
    then obtain pub pw res1 where "bindS (add_device P r d name pub pw 365)
      (\<lambda>b. bindS (write_file r (in_dir out (name @ ''.p12'')) (p12 b)) (\<lambda>_. lift (Inr b))) fs = (res1, fs')" by blast
    from add_then_bundle [OF tmp dv pc this] show ?thesis
    proof (elim conjE disjE exE)
      assume "devices_at fs' d = Some ds" "plain_config fs' d"
      then show ?thesis by (intro exI [of _ None]) (simp add: one_change_def)
    next
      fix pk ca_key cert
      assume "plain_config fs' d" "ID_RE name" "client_cert P r name ca_key 365 cert" "\<not> known ds name"
        "devices_at fs' d = Some (ds @ [new_device P r name pk cert])"
      then show ?thesis
        by (intro exI [of _ "Some (Add (new_device P r name pk cert))"])
          (auto simp: one_change_def reg_add_def AddDevice new_device_def)
    qed
  qed
next
  case ListDevices
  have "fs' = fs" using run unfolding ListDevices pair_main_def by (auto split: sum.splits prod.splits)
  with dv pc show ?thesis by (intro exI [of _ None]) (simp add: one_change_def)
next
  case (RevokeDevice name)
  obtain r1 fs1 where v: "revoke_device P r d name fs = (r1, fs1)" by (cases "revoke_device P r d name fs")
  with run have "fs' = fs1" unfolding RevokeDevice pair_main_def by (auto split: sum.splits)
  from tmp dv pc v show ?thesis
  proof (cases rule: revoke_device_view)
    case (refused e)
    with \<open>fs' = fs1\<close> dv pc show ?thesis by (intro exI [of _ None]) (simp add: one_change_def)
  next
    case (marked ds')
    with \<open>fs' = fs1\<close> show ?thesis
      by (intro exI [of _ "Some (Revoke (isoformat r (run_clock r)) name)"]) (simp add: one_change_def RevokeDevice)
  qed
next
  case (RenewServer ip)
  have "fs' = fs \<or> (\<exists>pw res1. renew_server P r d ip pw fs = (res1, fs'))"
    using run unfolding RenewServer pair_main_def
    by (auto simp: bindS_reads split: sum.splits prod.splits)
  then have "devices_at fs' d = Some ds \<and> plain_config fs' d"
    using renew_server_view [OF tmp dv pc, where fs' = fs'] dv pc by blast
  then show ?thesis by (intro exI [of _ None]) (simp add: one_change_def)
qed

text \<open>
  \<open>init --force\<close> replaces the configuration, with its list of devices, or fails before it does.
\<close>

lemma init_config_file:
  assumes "tmp_ok r fs" "init P r dir ip port target user pw force fs = (res, fs')"
  shows "fs' (in_dir dir ''config.json'') = fs (in_dir dir ''config.json'')
    \<or> fs' (in_dir dir ''config.json'') = saved P dir (dict_update DEFAULTS (init_entries P r ip port target user (keys r 2))) fs (in_dir dir ''config.json'')"
  using assms(2) unfolding init_def Let_def issue_server_def bindS_reads save_eq saved_def
  by (auto simp: bindS_def lift_def write_file_eq assms(1) tmp_ok_upd simp del: dumps_indent.simps split: sum.splits if_splits)

lemma init_view:
  assumes tmp: "tmp_ok r fs" and dv: "devices_at fs d = Some ds" and pc: "plain_config fs d"
    and init: "init P r d ip port target user pw force fs = (res, fs')"
  shows "(devices_at fs' d = Some ds \<or> devices_at fs' d = Some []) \<and> plain_config fs' d"
proof -
  let ?data = "dict_update DEFAULTS (init_entries P r ip port target user (keys r 2))"
  have data: "plain (JObj ?data)" "map_of ?data ''devices'' = Some (JList [])"
    using init_data_entries(1,2) by (simp_all only: init_data_def [symmetric])
  note s = saved_config [OF data, of P d fs]
  from init_config_file [OF tmp init] show ?thesis
  proof
    assume "fs' (in_dir d ''config.json'') = fs (in_dir d ''config.json'')"
    from same_config [where fs' = fs' and fs = fs, OF this] dv pc show ?thesis by simp
  next
    assume "fs' (in_dir d ''config.json'') = saved P d ?data fs (in_dir d ''config.json'')"
    from same_config [where fs' = fs' and fs = "saved P d ?data fs", OF this] s show ?thesis by (simp add: devices_of_def)
  qed
qed

lemma forced_view:
  assumes tmp: "tmp_ok r fs" and dv: "devices_at fs d = Some ds" and pc: "plain_config fs d"
    and f: "forced cmd" and run: "pair_main P r penv d cmd fs = (ls, res, fs')"
  shows "(devices_at fs' d = Some ds \<or> devices_at fs' d = Some []) \<and> plain_config fs' d"
proof -
  from f obtain ip port target user force where cmd: "cmd = Init ip port target user force"
    by (auto simp: forced_def split: command.splits)
  have "fs' = fs \<or> (\<exists>pw res1. init P r d ip port target user pw force fs = (res1, fs'))"
    using run unfolding cmd pair_main_def by (auto simp: bindS_reads split: sum.splits prod.splits)
  with init_view [OF tmp dv pc] dv pc show ?thesis by blast
qed

text \<open>
  C7.  The tool implements the registry: a run of any command on any arguments, with any fault of
  the disk, is at most one change of the registry the service reads.  It leaves the registry as it
  was; or it adds one new, enabled device --- by \<open>add-device\<close>, under a well-formed name not known
  before, with a client certificate the CA signed ---; or it disables the device named to
  \<open>revoke-device\<close>; or it is \<open>init --force\<close> and leaves a registry without devices.
\<close>

theorem pair_tool_refines_registry:
  assumes "tmp_ok r fs" and "devices_at fs d = Some ds" and "plain_config fs d"
    and "pair_main P r penv d cmd fs = (ls, res, fs')"
  shows "((\<exists>c. one_change P r cmd c
      \<and> devices_at fs' d = (case c of None \<Rightarrow> Some ds | Some (Add new) \<Rightarrow> reg_add new ds | Some (Revoke t n) \<Rightarrow> reg_revoke t n ds)
      \<and> devices_at fs' d \<noteq> None)
    \<or> forced cmd \<and> devices_at fs' d = Some []) \<and> plain_config fs' d"
proof (cases "forced cmd")
  case True
  have "\<exists>c. one_change P r cmd c \<and> c = None" by (simp add: one_change_def)
  with forced_view [OF assms(1-3) True assms(4)] True show ?thesis by force
next
  case False
  from pair_main_view [OF assms(1-3) False assms(4)] show ?thesis by blast
qed

text \<open>Any number of runs, one after the other.\<close>

fun tool_runs :: "('sk, 'pk, 'cert) pki \<Rightarrow> string \<Rightarrow> ('sk run \<times> pass_env \<times> command) list \<Rightarrow> fs \<Rightarrow> fs" where
  "tool_runs P d [] fs = fs"
| "tool_runs P d ((r, penv, cmd) # cs) fs = tool_runs P d cs (snd (snd (pair_main P r penv d cmd fs)))"

fun runs_ok :: "('sk, 'pk, 'cert) pki \<Rightarrow> string \<Rightarrow> ('sk run \<times> pass_env \<times> command) list \<Rightarrow> fs \<Rightarrow> bool" where
  "runs_ok P d [] fs = True"
| "runs_ok P d ((r, penv, cmd) # cs) fs =
     (tmp_ok r fs \<and> \<not> forced cmd \<and> runs_ok P d cs (snd (snd (pair_main P r penv d cmd fs))))"

lemma one_change_good: "one_change P r cmd (Some c) \<Longrightarrow> reg.good_change c"
  by (cases c) (auto simp: one_change_def reg.good_change_def new_device_def)

lemma tool_runs_changes:
  assumes "runs_ok P d cs fs" and "devices_at fs d = Some ds" and "plain_config fs d"
  shows "\<exists>ch. devices_at (tool_runs P d cs fs) d = Some (fold reg.change ch ds) \<and> list_all reg.good_change ch"
  using assms
proof (induction cs arbitrary: fs ds)
  case Nil
  then show ?case by (intro exI [of _ "[]"]) simp
next
  case (Cons c cs)
  obtain r penv cmd where c: "c = (r, penv, cmd)" by (cases c)
  obtain ls res fs1 where run: "pair_main P r penv d cmd fs = (ls, res, fs1)" by (cases "pair_main P r penv d cmd fs")
  from Cons.prems(1) c run have ok: "tmp_ok r fs" "\<not> forced cmd" "runs_ok P d cs fs1" by simp_all
  from pair_main_view [OF ok(1) Cons.prems(2,3) ok(2) run] obtain x where x: "one_change P r cmd x"
    "devices_at fs1 d = (case x of None \<Rightarrow> Some ds | Some (Add new) \<Rightarrow> reg_add new ds | Some (Revoke t n) \<Rightarrow> reg_revoke t n ds)"
    "devices_at fs1 d \<noteq> None" "plain_config fs1 d" by blast
  define ch1 where "ch1 = (case x of None \<Rightarrow> [] | Some y \<Rightarrow> [y])"
  have 1: "devices_at fs1 d = Some (fold reg.change ch1 ds)" "list_all reg.good_change ch1"
    using x(1-3) one_change_good [of P r cmd] by (auto simp: ch1_def split: option.splits change.splits)
  from Cons.IH [OF ok(3) 1(1) x(4)] obtain ch where
    "devices_at (tool_runs P d cs fs1) d = Some (fold reg.change ch (fold reg.change ch1 ds))" "list_all reg.good_change ch" by blast
  with 1(2) c run show ?case by (intro exI [of _ "ch1 @ ch"]) simp
qed

lemma device_by_fp_id: "registry_ok ds \<Longrightarrow> device_by_fp ds fp = Some dv \<Longrightarrow> device_by_id ds (dev_id dv) = Some dv"
proof (induction ds)
  case (Cons d ds)
  then show ?case
    by (auto simp: registry_ok_def split: if_splits) (metis Cons.IH device_by_id_unknown known_def option.distinct(1) registry_ok_def)
qed simp

lemma revoked_stays_out:
  assumes "registry_ok ds" and "devices_at fs d = Some ds" and "plain_config fs d" and "tmp_ok r fs"
    and "pair_main P r penv d (RevokeDevice n) fs = (ls, Inr (), fs1)" and "runs_ok P d cs fs1"
  shows "\<exists>ds'. devices_at (tool_runs P d cs fs1) d = Some ds' \<and> device_by_id ds' n = None
    \<and> (\<forall>fp. case device_by_fp ds' fp of None \<Rightarrow> True | Some dv \<Rightarrow> dev_id dv \<noteq> n)"
proof -
  obtain r1 fs2 where v: "revoke_device P r d n fs = (r1, fs2)" by (cases "revoke_device P r d n fs")
  with assms(5) have ok: "r1 = Inr ()" "fs2 = fs1" by (auto simp: pair_main_def split: sum.splits)
  from assms(4,2,3) v obtain ds1 where 1: "reg_revoke (isoformat r (run_clock r)) n ds = Some ds1"
      "devices_at fs1 d = Some ds1" "plain_config fs1 d"
    by (cases rule: revoke_device_view) (use ok in auto)
  from tool_runs_changes [OF assms(6) 1(2,3)] obtain ch where ch:
    "devices_at (tool_runs P d cs fs1) d = Some (fold reg.change ch ds1)" "list_all reg.good_change ch" by blast
  let ?ds = "fold reg.change ch ds1"
  have out: "device_by_id ?ds n = None" by (rule reg.revoked_forever [OF assms(1) 1(1) ch(2)])
  have "registry_ok ds1" by (rule reg.revoke_inv [OF assms(1) 1(1)])
  then have ok: "registry_ok ?ds" using ch(2) by (induction ch arbitrary: ds1) (simp_all add: reg.change_inv)
  have "case device_by_fp ?ds fp of None \<Rightarrow> True | Some dv \<Rightarrow> dev_id dv \<noteq> n" for fp
    using device_by_fp_id [OF ok, of fp] out by (auto split: option.split)
  with ch(1) out show ?thesis by blast
qed

text \<open>
  A revoked device stays out.  Once \<open>revoke-device\<close> has reported success, no later sequence of
  runs of the tool, in any order, with any arguments and any faults of the disk, makes the service
  find the device again, by its name or by the fingerprint of a certificate; only \<open>init --force\<close>
  starts over.
\<close>

theorem revoked_device_stays_out:
  assumes "registry_ok ds" and "devices_at fs d = Some ds" and "plain_config fs d" and "tmp_ok r fs"
    and "pair_main P r penv d (RevokeDevice n) fs = (ls, Inr (), fs1)" and "runs_ok P d cs fs1"
  shows "\<exists>ds'. devices_at (tool_runs P d cs fs1) d = Some ds' \<and> device_by_id ds' n = None
    \<and> (\<forall>fp. case device_by_fp ds' fp of None \<Rightarrow> True | Some dv \<Rightarrow> dev_id dv \<noteq> n)"
  using assms by (rule revoked_stays_out)

lemma added_is_found:
  assumes "registry_ok ds" and "devices_at fs d = Some ds" and "plain_config fs d" and "tmp_ok r fs"
    and "add_device P r d name pub pw days fs = (Inr b, fs')"
  shows "\<exists>dv pk ca_key cert ds'. devices_at fs' d = Some ds' \<and> registry_ok ds' \<and> device_by_id ds' name = Some dv
    \<and> load_public_key (base P) pub = Inr pk \<and> public_key_pem dv = public_pem P pk
    \<and> client_cert P r name ca_key days cert \<and> cert_sha256 dv = sha256 (base P) (cert_der P cert)
    \<and> (\<forall>n. n = name \<or> device_by_id ds' n = device_by_id ds n)"
  using assms(4,2,3,5)
proof (cases rule: add_device_view)
  case (added b pk ca_key cert)
  let ?dv = "new_device P r name pk cert"
  have a: "reg_add ?dv ds = Some (ds @ [?dv])" using added(5) by (simp add: reg_add_def new_device_def)
  have e: "enabled ?dv" "dev_id ?dv = name" by (simp_all add: new_device_def)
  have "registry_ok (ds @ [?dv])" by (rule reg.add_inv [OF assms(1) e(1) a])
  moreover have "device_by_id (ds @ [?dv]) n = (if n = name then Some ?dv else device_by_id ds n)" for n
    using reg.add_lookup [OF assms(1) e(1) a, of n] e(2) by simp
  ultimately show ?thesis using added by (intro exI [of _ ?dv]) (auto simp: new_device_def)
qed simp

text \<open>
  A device that was added is recognised: when \<open>add_device\<close> returns, the registry in the file
  finds the device by its name, with the public key that was given and the fingerprint of the
  certificate that was handed out --- signed by the CA for that name, for client authentication
  and not as a CA --- and every other name is looked up as before.
\<close>

theorem added_device_found:
  assumes "registry_ok ds" and "devices_at fs d = Some ds" and "plain_config fs d" and "tmp_ok r fs"
    and "add_device P r d name pub pw days fs = (Inr b, fs')"
  shows "\<exists>dv pk ca_key cert ds'. devices_at fs' d = Some ds' \<and> registry_ok ds' \<and> device_by_id ds' name = Some dv
    \<and> load_public_key (base P) pub = Inr pk \<and> public_key_pem dv = public_pem P pk
    \<and> client_cert P r name ca_key days cert \<and> cert_sha256 dv = sha256 (base P) (cert_der P cert)
    \<and> (\<forall>n. n = name \<or> device_by_id ds' n = device_by_id ds n)"
  using assms by (rule added_is_found)

text \<open>
  The message of \<open>add_device\<close> asks to revoke a device first in order to issue it again, but a
  revoked name is refused all the same.
\<close>

lemma revoked_name_not_reissued:
  assumes "registry_ok ds" and "reg_revoke t n ds = Some ds'" and "dev_id dv = n"
  shows "reg_add dv ds' = None"
  using assms by (simp add: reg.add_refused reg.revoke_names) (metis option.distinct(1) reg_revoke_None)

section \<open>Setting up\<close>

lemma init_cases:
  assumes tmp: "tmp_ok r fs" and init: "init P r dir ip port target user pw force fs = (Inr cf, fs')"
  obtains ca cert where "init_guards dir ip target force pw fs = Inr ()"
    "fs' = fs(in_dir dir ''ca-key.pem'' \<mapsto> secret (enc_pem P (keys r 0) pw), in_dir dir ''ca-cert.pem'' \<mapsto> secret (cert_pem P ca),
       in_dir dir ''server-key.pem'' \<mapsto> secret (enc_pem P (keys r 1) pw), in_dir dir ''server-cert.pem'' \<mapsto> secret (cert_pem P cert),
       in_dir dir ''laptop-signing-key.pem'' \<mapsto> secret (enc_pem P (keys r 2) pw),
       in_dir dir ''config.json'' \<mapsto> secret (dumps_indent (float_repr (base P)) 0 (JObj (init_data P r ip port target user))))"
    "open_config fs' (in_dir dir ''config.json'') = Inr cf"
  using init unfolding init_def Let_def issue_server_def bindS_reads save_eq init_data_def [symmetric]
  by (auto simp: bindS_def lift_def write_file_eq tmp tmp_ok_upd secret_def split: sum.splits if_splits)

lemma init_creates:
  assumes tmp: "tmp_ok r fs" and init: "init P r dir ip port target user pw force fs = (Inr cf, fs')"
  shows "12 \<le> length pw \<and> ID_RE target \<and> (\<exists>a. ip_address ip = Inr a) \<and> ip \<noteq> ''0.0.0.0'' \<and> ip \<noteq> ''::'' \<and> (force \<or> fs (in_dir dir ''config.json'') = None)
    \<and> list_all (\<lambda>n. check_private fs' (in_dir dir n) = Inr ())
        [''ca-key.pem'', ''ca-cert.pem'', ''server-key.pem'', ''server-cert.pem'', ''laptop-signing-key.pem'', ''config.json'']
    \<and> devices_at fs' dir = Some [] \<and> plain_config fs' dir
    \<and> map_of cf ''target_id'' = Some (JStr target) \<and> map_of cf ''listener_ip'' = Some (JStr ip)
    \<and> map_of cf ''unlock_user'' = Some (JStr user) \<and> map_of cf ''require_mtls'' = Some (JBool True)"
proof (rule init_cases [OF assms])
  fix ca cert
  let ?data = "init_data P r ip port target user"
  assume g: "init_guards dir ip target force pw fs = Inr ()"
    and fs': "fs' = fs(in_dir dir ''ca-key.pem'' \<mapsto> secret (enc_pem P (keys r 0) pw), in_dir dir ''ca-cert.pem'' \<mapsto> secret (cert_pem P ca),
       in_dir dir ''server-key.pem'' \<mapsto> secret (enc_pem P (keys r 1) pw), in_dir dir ''server-cert.pem'' \<mapsto> secret (cert_pem P cert),
       in_dir dir ''laptop-signing-key.pem'' \<mapsto> secret (enc_pem P (keys r 2) pw),
       in_dir dir ''config.json'' \<mapsto> secret (dumps_indent (float_repr (base P)) 0 (JObj ?data)))"
    and o: "open_config fs' (in_dir dir ''config.json'') = Inr cf"
  obtain fs0 where s: "fs' = saved P dir ?data fs0" unfolding fs' saved_def secret_def by blast
  have v: "devices_at fs' dir = devices_of (JList [])" "plain_config fs' dir"
    unfolding s by (rule saved_config [OF init_data_entries(1,2)])+
  have "open_config fs' (in_dir dir ''config.json'') = Inr (dict_update DEFAULTS ?data)"
    by (rule open_saved [OF init_data_entries(1), where fr = "float_repr (base P)" and m = 384]) (simp add: fs' secret_def)
  with o have cf: "cf = dict_update DEFAULTS ?data" by simp
  have d: "dict_ok ?data" using init_data_entries(1) [of P r ip port target user] by simp
  have look: "map_of cf k = Some w" if "map_of ?data k = Some w" for k w
  proof -
    have "k \<in> fst ` set ?data" using that by (metis map_of_eq_None_iff option.distinct(1))
    with that cf d show ?thesis by (simp add: map_of_dict_update_in)
  qed
  have "12 \<le> length pw \<and> ID_RE target \<and> (\<exists>a. ip_address ip = Inr a) \<and> ip \<noteq> ''0.0.0.0'' \<and> ip \<noteq> ''::'' \<and> (force \<or> fs (in_dir dir ''config.json'') = None)"
    using g by (auto simp: init_guards_def MIN_PASSPHRASE_def bindE_eq_Inr split: if_splits)
  moreover have "list_all (\<lambda>n. check_private fs' (in_dir dir n) = Inr ())
      [''ca-key.pem'', ''ca-cert.pem'', ''server-key.pem'', ''server-cert.pem'', ''laptop-signing-key.pem'', ''config.json'']"
    by (simp add: fs' secret_def check_private_Inr mask_63)
  moreover have "devices_at fs' dir = Some []" using v(1) by (simp add: devices_of_def)
  moreover note v(2) look [OF init_data_entries(3)] look [OF init_data_entries(4)]
    look [OF init_data_entries(5)] look [OF init_data_entries(6)]
  ultimately show ?thesis by (simp only: simp_thms)
qed

text \<open>
  C20.  A set-up that succeeds is private and complete: \<open>init\<close> returns only for a passphrase of at
  least 12 characters, a well-formed target id, a valid address that is not one of the two wildcards
  and, unless forced, a directory without a configuration; then the three keys, the two certificates and the configuration are
  readable by their owner only, and the configuration that is read back has the given target,
  address and user, demands client certificates and has no device.
\<close>

theorem init_sets_up:
  assumes "tmp_ok r fs" and "init P r dir ip port target user pw force fs = (Inr cf, fs')"
  shows "12 \<le> length pw \<and> ID_RE target \<and> (\<exists>a. ip_address ip = Inr a) \<and> ip \<noteq> ''0.0.0.0'' \<and> ip \<noteq> ''::'' \<and> (force \<or> fs (in_dir dir ''config.json'') = None)
    \<and> list_all (\<lambda>n. check_private fs' (in_dir dir n) = Inr ())
        [''ca-key.pem'', ''ca-cert.pem'', ''server-key.pem'', ''server-cert.pem'', ''laptop-signing-key.pem'', ''config.json'']
    \<and> devices_at fs' dir = Some [] \<and> plain_config fs' dir
    \<and> map_of cf ''target_id'' = Some (JStr target) \<and> map_of cf ''listener_ip'' = Some (JStr ip)
    \<and> map_of cf ''unlock_user'' = Some (JStr user) \<and> map_of cf ''require_mtls'' = Some (JBool True)"
  using assms by (rule init_creates)

text \<open>The refusal of wildcard addresses compares texts: another spelling of \<^verbatim>\<open>::\<close> is accepted.\<close>

lemma wildcard_check_textual:
  "init_guards ''d'' ''::0'' ''laptop'' False (replicate 12 (CHR ''x'')) (\<lambda>_. None) = Inr ()"
  "ip_address ''::0'' = ip_address ''::''" "ip_address ''::0'' = Inr (IPv6 0 None)"
proof -
  show i: "ip_address ''::0'' = Inr (IPv6 0 None)" by code_simp
  have "ip_address ''::'' = Inr (IPv6 0 None)" by code_simp
  with i show "ip_address ''::0'' = ip_address ''::''" by simp
  have "ID_RE ''laptop''" by code_simp
  with i show "init_guards ''d'' ''::0'' ''laptop'' False (replicate 12 (CHR ''x'')) (\<lambda>_. None) = Inr ()"
    by (simp add: init_guards_def MIN_PASSPHRASE_def)
qed

section \<open>Examples\<close>

definition toy_pki :: "(nat, nat, string) pki" where
  "toy_pki = \<lparr>base = toy_ext, public_of = (\<lambda>k. k), private_bytes = (\<lambda>k e f c. show_nat k), load_key = (\<lambda>b pw. Inr 7),
     public_bytes = (\<lambda>k e f. ''BEGIN''), sign_cert = (\<lambda>t k. Inr (subject_cn t)), cert_bytes = (\<lambda>c e. c), load_cert = Inr,
     subject_text = (\<lambda>c. ''CN='' @ c), expires_at = (\<lambda>c. 0), make_p12 = (\<lambda>n k c cas pw. Inr ''p12'')\<rparr>"

lemma toy_pki_sel [simp]:
  "base toy_pki = toy_ext" "public_of toy_pki k = k" "load_key toy_pki b pw = Inr 7" "sign_cert toy_pki t k = Inr (subject_cn t)"
  "load_cert toy_pki b = Inr b" "subject_text toy_pki c = ''CN='' @ c" "expires_at toy_pki c = 0"
  "make_p12 toy_pki n k c cas e = Inr ''p12''"
  by (simp_all add: toy_pki_def)

lemma toy_pem [simp]:
  "enc_pem toy_pki k pw = show_nat k" "plain_pem toy_pki k = show_nat k" "public_pem toy_pki pk = ''BEGIN''"
  "cert_pem toy_pki c = c" "cert_der toy_pki c = c"
proof -
  have "utf8_decode ''BEGIN'' = ''BEGIN''" by code_simp
  then show "public_pem toy_pki pk = ''BEGIN''" by (simp add: public_pem_def toy_pki_def)
qed (simp_all add: enc_pem_def plain_pem_def cert_pem_def cert_der_def toy_pki_def)

definition toy_tool :: "nat run" where
  "toy_tool = \<lparr>run_clock = 0, keys = (\<lambda>i. 7), serials = (\<lambda>i. 1), token_urlsafe = ''tok'', isoformat = (\<lambda>t. ''t''),
     tmp_name = (\<lambda>p. in_dir ''d'' (''.tmp-'' @ ''x'')), disk = (\<lambda>p. NoFault)\<rparr>"

definition toy_penv :: pass_env where
  "toy_penv = \<lparr>credentials_directory = [], passphrase_file = [], answers = [''passphrase'']\<rparr>"

lemma toy_tmp: "fs (in_dir ''d'' ''.tmp-x'') = None \<Longrightarrow> tmp_ok toy_tool fs"
proof -
  have "tmp_form (in_dir ''d'' (''.tmp-'' @ ''x''))"
    unfolding tmp_form_def by (intro exI [of _ "''d''"] exI [of _ "''x''"]) simp
  moreover assume "fs (in_dir ''d'' ''.tmp-x'') = None"
  ultimately show ?thesis by (simp add: tmp_ok_def toy_tool_def)
qed

text \<open>The directory after \<open>init\<close>, and after a phone was added to it.\<close>

definition toy_data :: "json list \<Rightarrow> (string \<times> json) list" where
  "toy_data ds = AList.update ''devices'' (JList ds) (init_data toy_pki toy_tool ''100.64.0.5'' 8765 ''laptop'' ''me'')"

definition toy_home :: "json list \<Rightarrow> fs" where
  "toy_home ds = saved toy_pki ''d'' (toy_data ds)
     [in_dir ''d'' ''ca-key.pem'' \<mapsto> secret ''k'', in_dir ''d'' ''ca-cert.pem'' \<mapsto> secret ''c'']"

lemma toy_home:
  assumes "list_all plain ds"
  shows "devices_at (toy_home ds) ''d'' = devices_of (JList ds)" "plain_config (toy_home ds) ''d''"
    "tmp_ok toy_tool (toy_home ds)" "open_config (toy_home ds) (in_dir ''d'' ''config.json'') = Inr (dict_update DEFAULTS (toy_data ds))"
    "map_of (dict_update DEFAULTS (toy_data ds)) ''devices'' = Some (JList ds)"
proof -
  have pl: "plain (JObj (toy_data ds))"
    unfolding toy_data_def by (rule plain_update [OF init_data_entries(1)]) (simp add: assms)
  have v: "map_of (toy_data ds) ''devices'' = Some (JList ds)" by (simp add: toy_data_def update_conv')
  show "devices_at (toy_home ds) ''d'' = devices_of (JList ds)" "plain_config (toy_home ds) ''d''"
    unfolding toy_home_def by (rule saved_config [OF pl v])+
  show "tmp_ok toy_tool (toy_home ds)"
    by (rule toy_tmp) (simp add: toy_home_def saved_def)
  show "open_config (toy_home ds) (in_dir ''d'' ''config.json'') = Inr (dict_update DEFAULTS (toy_data ds))"
    unfolding toy_home_def by (rule open_config_saved [OF pl])
  have "''devices'' \<in> fst ` set (toy_data ds)" using v by (metis map_of_eq_None_iff option.distinct(1))
  with pl v show "map_of (dict_update DEFAULTS (toy_data ds)) ''devices'' = Some (JList ds)"
    by (simp add: map_of_dict_update_in)
qed

lemma toy_run_tool: "disk toy_tool p = NoFault" "isoformat toy_tool t = ''t''"
  by (simp_all add: toy_tool_def)

lemma toy_revoke:
  "\<exists>fs1. pair_main toy_pki toy_tool penv ''d'' (RevokeDevice ''phone1'') (toy_home [JObj (device_entry toy_pki toy_tool ''phone1'' 7 ''c'')])
    = ([''Revoked phone1. Active immediately.''], Inr (), fs1)
    \<and> fs1 = saved toy_pki ''d'' (AList.update ''devices'' (JList [JObj (mark_revoked ''t'' (device_entry toy_pki toy_tool ''phone1'' 7 ''c''))])
               (dict_update DEFAULTS (toy_data [JObj (device_entry toy_pki toy_tool ''phone1'' 7 ''c'')])))
             (toy_home [JObj (device_entry toy_pki toy_tool ''phone1'' 7 ''c'')])"
proof -
  let ?ds = "[JObj (device_entry toy_pki toy_tool ''phone1'' 7 ''c'')]"
  have "list_all plain ?ds" by (simp add: plain_device_entry del: plain.simps)
  note h = toy_home [OF this]
  have e: "jitem (device_entry toy_pki toy_tool ''phone1'' 7 ''c'') ''id'' = Inr (JStr ''phone1'')"
    by (simp add: jitem_def device_entry_def)
  show ?thesis
    by (simp add: pair_main_def revoke_device_def Let_def bindS_reads h(4,5) jitem_def [of _ "''devices''"] py_iter_def e py_eq_str_def
      save_eq write_file_eq [OF h(3)] toy_run_tool saved_def)
qed

lemma revoked_device_stays_out_witness:
  "\<exists>fs1 ls ds'. pair_main toy_pki toy_tool toy_penv ''d'' (RevokeDevice ''phone1'') (toy_home [JObj (device_entry toy_pki toy_tool ''phone1'' 7 ''c'')])
      = (ls, Inr (), fs1)
    \<and> devices_at (tool_runs toy_pki ''d'' [] fs1) ''d'' = Some ds' \<and> device_by_id ds' ''phone1'' = None"
proof -
  let ?d = "new_device toy_pki toy_tool ''phone1'' 7 ''c''" and ?ds = "[JObj (device_entry toy_pki toy_tool ''phone1'' 7 ''c'')]"
  have "list_all plain ?ds" by (simp add: plain_device_entry del: plain.simps)
  note h = toy_home [OF this]
  have dv: "devices_at (toy_home ?ds) ''d'' = Some [?d]" using h(1) by (simp add: devices_of_def device_of_entry)
  have r: "registry_ok [?d]" by (simp add: registry_ok_def)
  obtain fs1 where run: "pair_main toy_pki toy_tool toy_penv ''d'' (RevokeDevice ''phone1'') (toy_home ?ds)
    = ([''Revoked phone1. Active immediately.''], Inr (), fs1)" using toy_revoke by blast
  from revoked_device_stays_out [OF r dv h(2,3) run, of "[]"] run show ?thesis by auto
qed

lemma toy_add_on:
  assumes "tmp_ok toy_tool fs" "open_config fs (in_dir ''d'' ''config.json'') = Inr data" "map_of data ''devices'' = Some (JList [])"
    "fs (in_dir ''d'' ''ca-key.pem'') = Some (secret key)" "fs (in_dir ''d'' ''ca-cert.pem'') = Some (secret ca)"
  shows "\<exists>b fs1. add_device toy_pki toy_tool ''d'' ''phone1'' ''BEGIN'' pw 365 fs = (Inr b, fs1) \<and> bundle_cert b = ''phone1''"
proof -
  have k: "load_public_key toy_ext ''BEGIN'' = Inr 5" by code_simp
  have i: "ID_RE ''phone1''" by code_simp
  have f: "load_key_file toy_pki (in_dir ''d'' ''ca-key.pem'') pw fs = (Inr 7, fs)" for pw
    using assms(4) by (simp add: load_key_file_def bindS_def read_file_def lift_def secret_def)
  have g: "bindS (read_file (in_dir ''d'' ''ca-cert.pem'')) (\<lambda>b. lift (Inr b)) fs = (Inr ca, fs)"
    using assms(5) by (simp add: bindS_def read_file_def lift_def secret_def)
  have c: "build_cert toy_pki toy_tool 0 ''phone1'' (keys toy_tool 0) ''remote-unlock-ca'' 7 365 False JNull [] (Some CLIENT_AUTH)
      = Inr ''phone1''"
    by (simp add: build_cert_def Let_def)
  show ?thesis
    unfolding add_device_def Let_def bindS_reads
    by (simp add: f g i k c assms(2,3) jitem_def py_iter_def append_device_def save_eq write_file_eq [OF assms(1)] toy_run_tool) (simp add: lift_def)
qed

lemma toy_add:
  "\<exists>b fs1. add_device toy_pki toy_tool ''d'' ''phone1'' ''BEGIN'' ''secret'' 365 (toy_home []) = (Inr b, fs1)"
proof -
  have h: "list_all plain []" by simp
  note h = toy_home [OF this]
  have "toy_home [] (in_dir ''d'' ''ca-key.pem'') = Some (secret ''k'')" "toy_home [] (in_dir ''d'' ''ca-cert.pem'') = Some (secret ''c'')"
    by (simp_all add: toy_home_def saved_def)
  from toy_add_on [OF h(3,4,5) this] show ?thesis by blast
qed

lemma added_device_found_witness:
  "\<exists>b fs1 ds' dv. add_device toy_pki toy_tool ''d'' ''phone1'' ''BEGIN'' ''secret'' 365 (toy_home []) = (Inr b, fs1)
    \<and> devices_at fs1 ''d'' = Some ds' \<and> device_by_id ds' ''phone1'' = Some dv"
proof -
  have h: "list_all plain []" by simp
  note h = toy_home [OF this]
  have dv: "devices_at (toy_home []) ''d'' = Some []" using h(1) by (simp add: devices_of_def)
  have r: "registry_ok []" by (simp add: registry_ok_def)
  obtain b fs1 where a: "add_device toy_pki toy_tool ''d'' ''phone1'' ''BEGIN'' ''secret'' 365 (toy_home []) = (Inr b, fs1)"
    using toy_add by blast
  from added_device_found [OF r dv h(2,3) a] a show ?thesis by blast
qed

lemma pair_tool_refines_registry_witness:
  "\<exists>ls res fs1. pair_main toy_pki toy_tool toy_penv ''d'' (RevokeDevice ''nobody'') (toy_home []) = (ls, res, fs1)
    \<and> devices_at fs1 ''d'' \<noteq> None"
proof -
  have h: "list_all plain []" by simp
  note h = toy_home [OF this]
  have dv: "devices_at (toy_home []) ''d'' = Some []" using h(1) by (simp add: devices_of_def)
  obtain ls res fs1 where run: "pair_main toy_pki toy_tool toy_penv ''d'' (RevokeDevice ''nobody'') (toy_home []) = (ls, res, fs1)"
    by (cases "pair_main toy_pki toy_tool toy_penv ''d'' (RevokeDevice ''nobody'') (toy_home [])")
  from pair_tool_refines_registry [OF h(3) dv h(2) run] run show ?thesis by force
qed

lemma toy_init_ok:
  "\<exists>cf fs1. init toy_pki toy_tool ''d'' ''100.64.0.5'' 8765 ''laptop'' ''me'' (replicate 12 (CHR ''x'')) False (\<lambda>_. None) = (Inr cf, fs1)"
proof -
  have t: "tmp_ok toy_tool (\<lambda>_. None)" by (rule toy_tmp) simp
  have i: "ip_address ''100.64.0.5'' = Inr (IPv4 1681915909)" by code_simp
  have l: "ID_RE ''laptop''" by code_simp
  have g: "init_guards ''d'' ''100.64.0.5'' ''laptop'' False (replicate 12 (CHR ''x'')) (\<lambda>_. None) = Inr ()"
    by (simp add: init_guards_def MIN_PASSPHRASE_def i l)
  have s: "sign_cert toy_pki x k = Inr (subject_cn x)" for x k by (simp)
  show ?thesis
    unfolding init_def Let_def issue_server_def bindS_reads build_cert_def save_eq init_data_def [symmetric]
    by (simp add: g i s ip_of_def write_file_eq t tmp_ok_upd toy_run_tool del: dumps_indent.simps)
       (rule exI, rule open_saved [OF init_data_entries(1)], simp del: dumps_indent.simps)
qed

lemma init_sets_up_witness:
  "\<exists>cf fs1. init toy_pki toy_tool ''d'' ''100.64.0.5'' 8765 ''laptop'' ''me'' (replicate 12 (CHR ''x'')) False (\<lambda>_. None) = (Inr cf, fs1)
    \<and> devices_at fs1 ''d'' = Some []"
proof -
  have t: "tmp_ok toy_tool (\<lambda>_. None)" by (rule toy_tmp) simp
  obtain cf fs1 where
    r: "init toy_pki toy_tool ''d'' ''100.64.0.5'' 8765 ''laptop'' ''me'' (replicate 12 (CHR ''x'')) False (\<lambda>_. None) = (Inr cf, fs1)"
    using toy_init_ok by blast
  from init_sets_up [OF t r] r show ?thesis by blast
qed

end
