(* ===== verification/Install.thy ===== *)
theory Install
  imports Enrolment Startup
begin

text \<open>
  From the files the tool writes to the service that reads them: the typed view of a whole
  configuration, a fresh installation that passes the guards of \<open>start\<close>, and a revocation that
  takes effect at the next connection.
\<close>

section \<open>The typed view of a configuration\<close>

definition rat_of :: "json \<Rightarrow> rat option" where
  "rat_of v = (case v of JInt i \<Rightarrow> Some (of_int i) | JFloat (Fin q) \<Rightarrow> Some q | _ \<Rightarrow> None)"

definition int_of :: "json \<Rightarrow> int option" where
  "int_of v = (case v of JInt i \<Rightarrow> Some i | _ \<Rightarrow> None)"

definition text_of :: "json \<Rightarrow> string option" where
  "text_of v = (case v of JStr s \<Rightarrow> Some s | _ \<Rightarrow> None)"

definition lockout_of :: "json \<Rightarrow> lockout_cfg option" where
  "lockout_of v =
     (case v of
        JObj d \<Rightarrow>
          (case (int_of (jget d ''threshold''), rat_of (jget d ''base_seconds''), rat_of (jget d ''max_seconds'')) of
             (Some t, Some b, Some m) \<Rightarrow> Some \<lparr>threshold = t, base_seconds = b, max_seconds = m\<rparr>
           | _ \<Rightarrow> None)
      | _ \<Rightarrow> None)"

definition uids_of :: "json \<Rightarrow> int list option" where
  "uids_of v = (case v of JList xs \<Rightarrow> those (map int_of xs) | _ \<Rightarrow> None)"

definition config_of :: "(string \<times> json) list \<Rightarrow> config option" where
  "config_of d =
     (case (text_of (jget d ''target_id''), text_of (jget d ''listener_ip''), int_of (jget d ''listener_port''),
            text_of (jget d ''unlock_user''), text_of (jget d ''pam_socket'')) of
        (Some tid, Some ip, Some port, Some user, Some sock) \<Rightarrow>
          (case (rat_of (jget d ''challenge_ttl''), rat_of (jget d ''grant_ttl''), rat_of (jget d ''pam_wait''),
                 int_of (jget d ''max_connections'')) of
             (Some ct, Some gt, Some pw, Some mx) \<Rightarrow>
               (case (uids_of (jget d ''pam_allowed_uids''), lockout_of (jget d ''lockout''), devices_of (jget d ''devices'')) of
                  (Some us, Some lo, Some ds) \<Rightarrow>
                    Some \<lparr>target_id = tid, listener_ip = ip, listener_port = port, unlock_user = user,
                          challenge_ttl = ct, grant_ttl = gt, pam_wait = pw, pam_socket = sock, pam_allowed_uids = us,
                          require_mtls = py_truthy (jget d ''require_mtls''),
                          allow_any_interface = py_truthy (jget d ''allow_any_interface''),
                          max_connections = mx, lockout = lo, devices = ds\<rparr>
                | _ \<Rightarrow> None)
           | _ \<Rightarrow> None)
      | _ \<Rightarrow> None)"

definition tls_of :: "(string \<times> json) list \<Rightarrow> tls_files option" where
  "tls_of d =
     (case jget d ''tls'' of
        JObj t \<Rightarrow>
          (case (text_of (jget d ''signing_key''), text_of (jget t ''server_cert''), text_of (jget t ''server_key''), text_of (jget t ''ca_cert'')) of
             (Some sk, Some sc, Some sy, Some ca) \<Rightarrow>
               Some \<lparr>signing_key_file = sk, server_cert = sc, server_key = sy, ca_cert = ca,
                     audit_log_file = text_of (jget d ''audit_log'')\<rparr>
           | _ \<Rightarrow> None)
      | _ \<Rightarrow> None)"

text \<open>\<open>Config(cfg_path)\<close> of the service, as far as its entries have the types of the view.\<close>

definition typed_config :: "fs \<Rightarrow> string \<Rightarrow> (config \<times> tls_files) result" where
  "typed_config fs path =
     bindE (open_config fs path) (\<lambda>d.
       case (config_of d, tls_of d) of (Some c, Some t) \<Rightarrow> Inr (c, t) | _ \<Rightarrow> Inl KeyError)"

lemma typed_devices:
  assumes "typed_config fs (in_dir dir ''config.json'') = Inr (cf, t)"
  shows "devices_at fs dir = Some (devices cf)"
  using assms
  by (auto simp: typed_config_def devices_at_def config_of_def bindE_eq_Inr split: option.splits)

section \<open>A fresh installation\<close>

lemma fresh_lookup:
  assumes "tmp_ok r fs" and "init P r dir ip port target user pw force fs = (Inr cf, fs')"
  shows "open_config fs' (in_dir dir ''config.json'') = Inr cf \<and> cf = dict_update DEFAULTS (init_data P r ip port target user)"
proof (rule init_cases [OF assms])
  fix ca cert
  assume fs': "fs' = fs(in_dir dir ''ca-key.pem'' \<mapsto> secret (enc_pem P (keys r 0) pw), in_dir dir ''ca-cert.pem'' \<mapsto> secret (cert_pem P ca),
       in_dir dir ''server-key.pem'' \<mapsto> secret (enc_pem P (keys r 1) pw), in_dir dir ''server-cert.pem'' \<mapsto> secret (cert_pem P cert),
       in_dir dir ''laptop-signing-key.pem'' \<mapsto> secret (enc_pem P (keys r 2) pw),
       in_dir dir ''config.json'' \<mapsto> secret (dumps_indent (float_repr (base P)) 0 (JObj (init_data P r ip port target user))))"
    and o: "open_config fs' (in_dir dir ''config.json'') = Inr cf"
  have "open_config fs' (in_dir dir ''config.json'') = Inr (dict_update DEFAULTS (init_data P r ip port target user))"
    by (rule open_saved [OF init_data_entries(1), where fr = "float_repr (base P)" and m = 384]) (simp add: fs' secret_def)
  with o show ?thesis by simp
qed

lemma fresh_get:
  "jget (dict_update DEFAULTS (init_data P r ip port target user)) k =
     jget (dict_update DEFAULTS (init_entries P r ip port target user (keys r 2))) k"
proof (cases "k \<in> fst ` set (init_data P r ip port target user)")
  case True
  then show ?thesis
    using init_data_entries(1) [of P r ip port target user]
    by (simp add: jget_def map_of_dict_update_in) (simp add: init_data_def)
next
  case False
  then have "map_of (init_data P r ip port target user) k = None" by (simp add: map_of_eq_None_iff)
  then have "map_of (dict_update DEFAULTS (init_entries P r ip port target user (keys r 2))) k = None" by (simp add: init_data_def)
  moreover from this have "map_of DEFAULTS k = None"
    by (cases "k \<in> fst ` set (init_entries P r ip port target user (keys r 2))")
      (auto simp: map_of_dict_update_in map_of_dict_update_notin init_entries_def dict_ok_def)
  ultimately show ?thesis using False by (simp add: jget_def map_of_dict_update_notin)
qed

lemma fresh_entries:
  "jget (dict_update DEFAULTS (init_entries P r ip port target user sk)) k =
     (if k \<in> fst ` set (init_entries P r ip port target user sk) then jget (init_entries P r ip port target user sk) k else jget DEFAULTS k)"
  by (simp add: jget_def map_of_dict_update_in map_of_dict_update_notin init_entries_def dict_ok_def)

lemma fresh_typed:
  assumes "tmp_ok r fs" and "init P r dir ip port target user pw force fs = (Inr cf, fs')"
  obtains c t where "typed_config fs' (in_dir dir ''config.json'') = Inr (c, t)"
    "target_id c = target" "listener_ip c = ip" "listener_port c = port" "unlock_user c = user" "require_mtls c"
    "\<not> allow_any_interface c" "devices c = []" "pam_allowed_uids c = [0]"
    "signing_key_file t = ''laptop-signing-key.pem''" "server_key t = ''server-key.pem''"
    "challenge_ttl c = 10" "grant_ttl c = 20" "max_connections c = 16" "audit_log_file t = None"
    "server_cert t = ''server-cert.pem''" "ca_cert t = ''ca-cert.pem''"
proof -
  let ?d = "dict_update DEFAULTS (init_data P r ip port target user)"
  have o: "open_config fs' (in_dir dir ''config.json'') = Inr ?d" using fresh_lookup [OF assms] by simp
  have g: "jget ?d k = (if k \<in> fst ` set (init_entries P r ip port target user (keys r 2))
      then jget (init_entries P r ip port target user (keys r 2)) k else jget DEFAULTS k)" for k
    by (simp only: fresh_get fresh_entries)
  have e: "fst ` set (init_entries P r ip port target user (keys r 2)) =
      {''target_id'', ''listener_ip'', ''listener_port'', ''unlock_user'', ''laptop_public_key_pem'', ''tls'', ''signing_key'', ''alerts''}"
    by (auto simp: init_entries_def)
  have fields: "jget ?d ''target_id'' = JStr target" "jget ?d ''listener_ip'' = JStr ip" "jget ?d ''listener_port'' = JInt port"
    "jget ?d ''unlock_user'' = JStr user" "jget ?d ''pam_socket'' = JStr ''/run/remote-unlock/pam.sock''"
    "jget ?d ''challenge_ttl'' = JInt 10" "jget ?d ''grant_ttl'' = JInt 20" "jget ?d ''pam_wait'' = JInt 15"
    "jget ?d ''max_connections'' = JInt 16" "jget ?d ''pam_allowed_uids'' = JList [JInt 0]" "jget ?d ''devices'' = JList []"
    "jget ?d ''require_mtls'' = JBool True" "jget ?d ''allow_any_interface'' = JBool False" "jget ?d ''audit_log'' = JNull"
    "jget ?d ''lockout'' = JObj [(''threshold'', JInt 3), (''base_seconds'', JInt 30), (''max_seconds'', JInt 3600)]"
    "jget ?d ''signing_key'' = JStr ''laptop-signing-key.pem''"
    "jget ?d ''tls'' = JObj [(''ca_cert'', JStr ''ca-cert.pem''), (''server_cert'', JStr ''server-cert.pem''), (''server_key'', JStr ''server-key.pem'')]"
    by (simp_all only: g e) (simp_all add: jget_def init_entries_def DEFAULTS_def)
  define c where "c = \<lparr>target_id = target, listener_ip = ip, listener_port = port, unlock_user = user, challenge_ttl = 10,
    grant_ttl = 20, pam_wait = 15, pam_socket = ''/run/remote-unlock/pam.sock'', pam_allowed_uids = [0], require_mtls = True,
    allow_any_interface = False, max_connections = 16, lockout = \<lparr>threshold = 3, base_seconds = 30, max_seconds = 3600\<rparr>, devices = []\<rparr>"
  define t where "t = \<lparr>signing_key_file = ''laptop-signing-key.pem'', server_cert = ''server-cert.pem'', server_key = ''server-key.pem'',
    ca_cert = ''ca-cert.pem'', audit_log_file = None\<rparr>"
  have lo: "lockout_of (JObj [(''threshold'', JInt 3), (''base_seconds'', JInt 30), (''max_seconds'', JInt 3600)])
      = Some \<lparr>threshold = 3, base_seconds = 30, max_seconds = 3600\<rparr>"
    by (simp add: lockout_of_def jget_def int_of_def rat_of_def)
  let ?t = "[(''ca_cert'', JStr ''ca-cert.pem''), (''server_cert'', JStr ''server-cert.pem''), (''server_key'', JStr ''server-key.pem'')]"
  have names: "jget ?t ''ca_cert'' = JStr ''ca-cert.pem''" "jget ?t ''server_cert'' = JStr ''server-cert.pem''"
      "jget ?t ''server_key'' = JStr ''server-key.pem''"
    by (simp_all add: jget_def)
  have "config_of ?d = Some c"
    by (simp add: config_of_def fields lo text_of_def int_of_def rat_of_def uids_of_def devices_of_def c_def)
  moreover have "tls_of ?d = Some t"
    by (simp add: tls_of_def fields names text_of_def t_def)
  ultimately have "typed_config fs' (in_dir dir ''config.json'') = Inr (c, t)" by (simp add: typed_config_def o)
  then show ?thesis by (rule that) (simp_all add: c_def t_def)
qed

lemma ip_empty: "ip_address [] = Inl ValueError"
  by code_simp

text \<open>
  A fresh installation starts: after \<open>init\<close>, a service that reads the files it wrote and does
  not run as root passes every guard of \<open>start\<close> --- ownership, private keys, no wildcard address ---
  with the configuration that was asked for, client certificates demanded and nobody registered.
\<close>

theorem fresh_installation_starts:
  assumes "tmp_ok r fs" and "init P r dir ip port target user pw force fs = (Inr cf, fs')"
    and "host_uid h \<noteq> 0" "host_files h = fs'" "cfg_dir h = dir" "cfg_path h = in_dir dir ''config.json''"
    and "read_config h = typed_config fs' (cfg_path h)"
  shows "\<exists>c t. start_guards h allow_root = Inr (c, t) \<and> target_id c = target \<and> listener_ip c = ip
    \<and> listener_port c = port \<and> unlock_user c = user \<and> require_mtls c \<and> devices c = [] \<and> pam_allowed_uids c = [0]"
proof -
  obtain c t where ct: "typed_config fs' (in_dir dir ''config.json'') = Inr (c, t)"
    "target_id c = target" "listener_ip c = ip" "listener_port c = port" "unlock_user c = user" "require_mtls c"
    "\<not> allow_any_interface c" "devices c = []" "pam_allowed_uids c = [0]"
    "signing_key_file t = ''laptop-signing-key.pem''" "server_key t = ''server-key.pem''"
    by (rule fresh_typed [OF assms(1,2)])
  have res: "resolve dir ''laptop-signing-key.pem'' = in_dir dir ''laptop-signing-key.pem''"
    "resolve dir ''server-key.pem'' = in_dir dir ''server-key.pem''"
    by (simp_all add: resolve_def in_dir_def)
  have priv: "check_private fs' (in_dir dir ''laptop-signing-key.pem'') = Inr ()" "check_private fs' (in_dir dir ''server-key.pem'') = Inr ()"
    "check_private fs' (in_dir dir ''config.json'') = Inr ()"
    using init_creates [OF assms(1,2)] by simp_all
  obtain ca cert where "init_guards dir ip target force pw fs = Inr ()" by (rule init_cases [OF assms(1,2)])
  then have "\<not> wildcard ip"
    by (auto simp: init_guards_def wildcard_def bindE_eq_Inr ip_empty split: if_splits)
  with ct assms(3-) res priv show ?thesis
    by (auto simp: start_guards_def)
qed

section \<open>Revocation\<close>

lemma unregistered_refused:
  assumes "require_mtls (cfg s)" and "device_by_fp (devices (cfg s)) (sha256 E der) = None"
    and "session_start E env c ip (Some der) s = (Inr ph, s')"
  shows "\<not> waiting ph"
proof -
  have kept: "cfg s1 = cfg s" if "locked E env ip ''ip'' s = (x, s1)" for x s1
    using conf.P_locked [OF refl, of E env ip "''ip''" s] that by simp
  show ?thesis
    using assms
    by (auto simp: session_start_def Let_def bindS_eq split: if_splits dest: reject_Inr dest!: kept)
qed

lemma handle_new_config:
  assumes "require_mtls new" and "device_by_fp (devices new) (sha256 E der) = None"
    and "handle E env (Some (Inr new)) c ra (Some der) s = (ph, s')"
  shows "case ph of None \<Rightarrow> True | Some p \<Rightarrow> \<not> waiting p"
proof (cases ph)
  case (Some p)
  define ip where "ip = (case ra of Some a \<Rightarrow> a | None \<Rightarrow> ''unknown'')"
  from assms(3) Some have "guarded E env c ip (session_start E env c ip (Some der) (s\<lparr>active := active s + 1, cfg := new\<rparr>)) = (p, s')"
    by (auto simp: handle_def Let_def ip_def split: if_splits prod.splits)
  then have "waiting p \<Longrightarrow> session_start E env c ip (Some der) (s\<lparr>active := active s + 1, cfg := new\<rparr>) = (Inr p, s')"
    by (rule guarded_waiting)
  then have "\<not> waiting p" using unregistered_refused [of "s\<lparr>active := active s + 1, cfg := new\<rparr>" E der env c ip p s'] assms(1,2) by auto
  with Some show ?thesis by simp
qed simp

lemma device_by_fp_NoneI: "(\<And>d. d \<in> set ds \<Longrightarrow> enabled d \<Longrightarrow> cert_sha256 d \<noteq> fp) \<Longrightarrow> device_by_fp ds fp = None"
  by (induction ds) auto

lemma reg_revoke_fps:
  assumes "registry_ok ds" "distinct (map cert_sha256 ds)" "reg_revoke t n ds = Some ds'" "dv \<in> set ds" "dev_id dv = n"
  shows "device_by_fp ds' (cert_sha256 dv) = None"
  using assms
proof (induction ds arbitrary: ds')
  case (Cons x xs)
  show ?case
  proof (cases "dev_id x = n")
    case True
    with Cons.prems have "dv = x" by (auto simp: registry_ok_def)
    with True Cons.prems have "ds' = disable t dv # xs" "cert_sha256 dv \<notin> cert_sha256 ` set xs" by auto
    moreover from this(2) have "device_by_fp xs (cert_sha256 dv) = None"
      by (intro device_by_fp_NoneI) (metis imageI)
    ultimately show ?thesis by (simp add: disable_def)
  next
    case False
    with Cons.prems obtain xs' where xs': "ds' = x # xs'" "reg_revoke t n xs = Some xs'" "dv \<in> set xs" by auto
    moreover have "device_by_fp xs' (cert_sha256 dv) = None"
      by (rule Cons.IH) (use Cons.prems xs' in \<open>auto simp: registry_ok_def\<close>)
    ultimately show ?thesis using Cons.prems(2) by auto
  qed
qed simp

lemma revocation_refuses:
  assumes "registry_ok ds" "distinct (map cert_sha256 ds)" "devices_at fs d = Some ds" "plain_config fs d" "tmp_ok r fs"
    and run: "pair_main P r penv d (RevokeDevice n) fs = (ls, Inr (), fs1)"
    and dv: "dv \<in> set ds" "dev_id dv = n" "sha256 E der = cert_sha256 dv"
    and load: "typed_config fs1 (in_dir d ''config.json'') = Inr (new, t)" "require_mtls new"
    and "handle E env (Some (Inr new)) c ra (Some der) s = (ph, s')"
  shows "case ph of None \<Rightarrow> True | Some p \<Rightarrow> \<not> waiting p"
proof -
  obtain r1 fs2 where v: "revoke_device P r d n fs = (r1, fs2)" by (cases "revoke_device P r d n fs")
  with run have ok: "r1 = Inr ()" "fs2 = fs1" by (auto simp: pair_main_def split: sum.splits)
  from assms(5,3,4) v obtain ds1 where 1: "reg_revoke (isoformat r (run_clock r)) n ds = Some ds1" "devices_at fs1 d = Some ds1"
    by (cases rule: revoke_device_view) (use ok in auto)
  with typed_devices [OF load(1)] have "devices new = ds1" by simp
  with reg_revoke_fps [OF assms(1,2) 1(1) dv(1,2)] dv(3) have "device_by_fp (devices new) (sha256 E der) = None" by simp
  from handle_new_config [OF load(2) this assms(12)] show ?thesis .
qed

text \<open>
  C8.  A revocation takes effect at the next connection: when \<open>revoke-device\<close> has returned and the
  service has read the new configuration, a peer that presents the certificate of the revoked
  device is turned away before its first frame is awaited --- provided every device has a
  certificate of its own and client certificates are demanded.
\<close>

theorem revocation_takes_effect:
  assumes "registry_ok ds" "distinct (map cert_sha256 ds)" "devices_at fs d = Some ds" "plain_config fs d" "tmp_ok r fs"
    and "pair_main P r penv d (RevokeDevice n) fs = (ls, Inr (), fs1)"
    and "dv \<in> set ds" "dev_id dv = n" "sha256 E der = cert_sha256 dv"
    and "typed_config fs1 (in_dir d ''config.json'') = Inr (new, t)" "require_mtls new"
    and "handle E env (Some (Inr new)) c ra (Some der) s = (ph, s')"
  shows "case ph of None \<Rightarrow> True | Some p \<Rightarrow> \<not> waiting p"
  using assms by (rule revocation_refuses)

section \<open>Examples\<close>

lemma map_of_reopen:
  assumes "dict_ok data"
  shows "map_of (dict_update DEFAULTS data) k = (case map_of data k of Some v \<Rightarrow> Some v | None \<Rightarrow> map_of DEFAULTS k)"
proof (cases "map_of data k")
  case None
  then have "k \<notin> fst ` set data" by (simp add: map_of_eq_None_iff)
  with None show ?thesis by (simp add: map_of_dict_update_notin)
next
  case (Some v)
  then have "k \<in> fst ` set data" by (metis map_of_eq_None_iff option.distinct(1))
  with Some assms show ?thesis by (simp add: map_of_dict_update_in)
qed

lemma jget_reopen:
  "dict_ok data \<Longrightarrow> jget (dict_update DEFAULTS data) k = (case map_of data k of Some v \<Rightarrow> v | None \<Rightarrow> jget DEFAULTS k)"
  by (simp add: jget_def map_of_reopen split: option.split)

lemma config_of_devices:
  assumes "\<And>k. k \<noteq> ''devices'' \<Longrightarrow> jget d' k = jget d k" and "devices_of (jget d' ''devices'') = Some ds"
    and "config_of d = Some c"
  shows "config_of d' = Some (c\<lparr>devices := ds\<rparr>)" "tls_of d' = tls_of d"
proof -
  have k: "jget d' ''target_id'' = jget d ''target_id''" "jget d' ''listener_ip'' = jget d ''listener_ip''"
      "jget d' ''listener_port'' = jget d ''listener_port''" "jget d' ''unlock_user'' = jget d ''unlock_user''"
      "jget d' ''pam_socket'' = jget d ''pam_socket''" "jget d' ''challenge_ttl'' = jget d ''challenge_ttl''"
      "jget d' ''grant_ttl'' = jget d ''grant_ttl''" "jget d' ''pam_wait'' = jget d ''pam_wait''"
      "jget d' ''max_connections'' = jget d ''max_connections''" "jget d' ''pam_allowed_uids'' = jget d ''pam_allowed_uids''"
      "jget d' ''lockout'' = jget d ''lockout''" "jget d' ''require_mtls'' = jget d ''require_mtls''"
      "jget d' ''allow_any_interface'' = jget d ''allow_any_interface''" "jget d' ''tls'' = jget d ''tls''"
      "jget d' ''signing_key'' = jget d ''signing_key''" "jget d' ''audit_log'' = jget d ''audit_log''"
    by (simp_all add: assms(1))
  show "config_of d' = Some (c\<lparr>devices := ds\<rparr>)"
    using assms(2,3) by (simp add: config_of_def k split: option.splits) auto
  show "tls_of d' = tls_of d" by (simp only: tls_of_def k)
qed

lemma toy_init:
  obtains cf fs' where "init toy_pki toy_tool ''d'' ''100.64.0.5'' 8765 ''laptop'' ''me'' (replicate 12 (CHR ''x'')) False (\<lambda>_. None) = (Inr cf, fs')"
    "tmp_ok toy_tool (\<lambda>_. None)"
  using toy_init_ok toy_tmp [of "\<lambda>_. None"] by blast

lemma fresh_installation_starts_witness:
  "\<exists>h c t. start_guards (h :: nat host) False = Inr (c, t) \<and> target_id c = ''laptop'' \<and> devices c = [] \<and> require_mtls c"
proof -
  obtain cf fs' where i: "init toy_pki toy_tool ''d'' ''100.64.0.5'' 8765 ''laptop'' ''me'' (replicate 12 (CHR ''x'')) False (\<lambda>_. None) = (Inr cf, fs')"
    and t: "tmp_ok toy_tool (\<lambda>_. None)" by (rule toy_init)
  let ?h = "toy_host\<lparr>host_files := fs', cfg_dir := ''d'', cfg_path := in_dir ''d'' ''config.json'',
    read_config := typed_config fs' (in_dir ''d'' ''config.json'')\<rparr>"
  have "host_uid ?h \<noteq> 0" "host_files ?h = fs'" "cfg_dir ?h = ''d''" "cfg_path ?h = in_dir ''d'' ''config.json''"
    "read_config ?h = typed_config fs' (cfg_path ?h)" by (simp_all add: toy_host_def)
  from fresh_installation_starts [OF t i this, of False] show ?thesis by blast
qed

lemma toy_revoked:
  assumes "list_all plain ds" "map_of (toy_data ds) ''devices'' = Some v" "devices_of w = Some dvs" "plain w"
  shows "\<exists>c t. typed_config (saved toy_pki ''d'' (AList.update ''devices'' w (dict_update DEFAULTS (toy_data ds))) fs) (in_dir ''d'' ''config.json'')
    = Inr (c, t) \<and> require_mtls c \<and> devices c = dvs"
proof -
  let ?i = "init_data toy_pki toy_tool ''100.64.0.5'' 8765 ''laptop'' ''me''"
  let ?d = "AList.update ''devices'' w (dict_update DEFAULTS (toy_data ds))"
  have pi: "plain (JObj ?i)" by (rule init_data_entries)
  have pt: "plain (JObj (toy_data ds))"
    unfolding toy_data_def by (rule plain_update [OF pi]) (simp add: assms(1))
  have pd: "plain (JObj (dict_update DEFAULTS (toy_data ds)))"
    by (rule plain_dict_update [OF plain_DEFAULTS]) (use pt in simp)
  have p: "plain (JObj ?d)" by (rule plain_update [OF pd assms(4)])
  from pi pt p have ok: "dict_ok ?i" "dict_ok (toy_data ds)" "dict_ok ?d" by simp_all
  have g: "jget (dict_update DEFAULTS ?d) k = (if k = ''devices'' then w else jget (dict_update DEFAULTS ?i) k)" for k
  proof -
    have "map_of ?d k = (if k = ''devices'' then Some w else
        (case map_of (toy_data ds) k of Some v \<Rightarrow> Some v | None \<Rightarrow> map_of DEFAULTS k))"
      using map_of_reopen [OF ok(2), of k] by (simp add: update_conv')
    then show ?thesis
      unfolding jget_reopen [OF ok(3)] jget_reopen [OF ok(1)]
      by (auto simp: toy_data_def update_conv' jget_def split: option.split)
  qed
  obtain cf fs' where i: "init toy_pki toy_tool ''d'' ''100.64.0.5'' 8765 ''laptop'' ''me'' (replicate 12 (CHR ''x'')) False (\<lambda>_. None) = (Inr cf, fs')"
    and t: "tmp_ok toy_tool (\<lambda>_. None)" by (rule toy_init)
  from fresh_lookup [OF t i] have o: "open_config fs' (in_dir ''d'' ''config.json'') = Inr (dict_update DEFAULTS ?i)" by simp
  obtain c tl where ct: "typed_config fs' (in_dir ''d'' ''config.json'') = Inr (c, tl)" "require_mtls c"
    by (rule fresh_typed [OF t i])
  with o have c: "config_of (dict_update DEFAULTS ?i) = Some c" "tls_of (dict_update DEFAULTS ?i) = Some tl"
    by (auto simp: typed_config_def split: option.splits)
  have "config_of (dict_update DEFAULTS ?d) = Some (c\<lparr>devices := dvs\<rparr>)" "tls_of (dict_update DEFAULTS ?d) = tls_of (dict_update DEFAULTS ?i)"
    by (rule config_of_devices [where d = "dict_update DEFAULTS ?i"]; simp add: g assms(3) c)+
  with c ct(2) open_config_saved [OF p, where P = toy_pki and dir = "''d''" and fs = fs] show ?thesis
    by (simp add: typed_config_def)
qed

text \<open>The toy device, and the directory it is revoked in.\<close>

lemma toy_revocation:
  obtains fs1 new t where "pair_main toy_pki toy_tool toy_penv ''d'' (RevokeDevice ''phone1'') (toy_home [JObj (device_entry toy_pki toy_tool ''phone1'' 7 ''c'')])
      = ([''Revoked phone1. Active immediately.''], Inr (), fs1)"
    "typed_config fs1 (in_dir ''d'' ''config.json'') = Inr (new, t)" "require_mtls new"
    "devices_at (toy_home [JObj (device_entry toy_pki toy_tool ''phone1'' 7 ''c'')]) ''d'' = Some [new_device toy_pki toy_tool ''phone1'' 7 ''c'']"
    "registry_ok [new_device toy_pki toy_tool ''phone1'' 7 ''c'']"
    "plain_config (toy_home [JObj (device_entry toy_pki toy_tool ''phone1'' 7 ''c'')]) ''d''"
    "tmp_ok toy_tool (toy_home [JObj (device_entry toy_pki toy_tool ''phone1'' 7 ''c'')])"
proof -
  let ?e = "device_entry toy_pki toy_tool ''phone1'' 7 ''c''"
  let ?d = "new_device toy_pki toy_tool ''phone1'' 7 ''c''" and ?ds = "[JObj ?e]"
  have pl: "list_all plain ?ds" by (simp add: plain_device_entry del: plain.simps)
  note h = toy_home [OF this]
  have dv: "devices_at (toy_home ?ds) ''d'' = Some [?d]" using h(1) by (simp add: devices_of_def device_of_entry)
  have v: "map_of (toy_data ?ds) ''devices'' = Some (JList ?ds)" by (simp add: toy_data_def update_conv')
  have "plain (JObj (mark_revoked ''t'' ?e))" by (rule plain_revoked [OF plain_device_entry])
  then have w: "plain (JList [JObj (mark_revoked ''t'' ?e)])" by simp
  have dw: "devices_of (JList [JObj (mark_revoked ''t'' ?e)]) = Some [disable ''t'' ?d]"
    by (simp add: devices_of_def device_of_revoked [OF device_of_entry])
  obtain fs1 where run: "pair_main toy_pki toy_tool toy_penv ''d'' (RevokeDevice ''phone1'') (toy_home ?ds)
      = ([''Revoked phone1. Active immediately.''], Inr (), fs1)"
    and fs1: "fs1 = saved toy_pki ''d'' (AList.update ''devices'' (JList [JObj (mark_revoked ''t'' ?e)]) (dict_update DEFAULTS (toy_data ?ds))) (toy_home ?ds)"
    using toy_revoke by blast
  from toy_revoked [OF pl v dw w, of "toy_home ?ds"] obtain new t where
    new: "typed_config fs1 (in_dir ''d'' ''config.json'') = Inr (new, t)" "require_mtls new" unfolding fs1 by blast
  show ?thesis by (rule that [OF run new dv _ h(2,3)]) (simp add: registry_ok_def)
qed

lemma revocation_takes_effect_witness:
  "\<exists>fs1 ls new t ph s'. pair_main toy_pki toy_tool toy_penv ''d'' (RevokeDevice ''phone1'') (toy_home [JObj (device_entry toy_pki toy_tool ''phone1'' 7 ''c'')])
      = (ls, Inr (), fs1)
    \<and> typed_config fs1 (in_dir ''d'' ''config.json'') = Inr (new, t)
    \<and> handle toy_ext (toy_env 1) (Some (Inr new)) 1 (Some ''ip'') (Some ''c'') toy_service = (ph, s')
    \<and> (case ph of None \<Rightarrow> True | Some p \<Rightarrow> \<not> waiting p)"
proof -
  let ?d = "new_device toy_pki toy_tool ''phone1'' 7 ''c''"
  obtain fs1 new t where r: "pair_main toy_pki toy_tool toy_penv ''d'' (RevokeDevice ''phone1'') (toy_home [JObj (device_entry toy_pki toy_tool ''phone1'' 7 ''c'')])
      = ([''Revoked phone1. Active immediately.''], Inr (), fs1)"
    "typed_config fs1 (in_dir ''d'' ''config.json'') = Inr (new, t)" "require_mtls new"
    "devices_at (toy_home [JObj (device_entry toy_pki toy_tool ''phone1'' 7 ''c'')]) ''d'' = Some [?d]" "registry_ok [?d]"
    "plain_config (toy_home [JObj (device_entry toy_pki toy_tool ''phone1'' 7 ''c'')]) ''d''"
    "tmp_ok toy_tool (toy_home [JObj (device_entry toy_pki toy_tool ''phone1'' 7 ''c'')])" by (rule toy_revocation)
  obtain ph s' where ph: "handle toy_ext (toy_env 1) (Some (Inr new)) 1 (Some ''ip'') (Some ''c'') toy_service = (ph, s')"
    by (cases "handle toy_ext (toy_env 1) (Some (Inr new)) 1 (Some ''ip'') (Some ''c'') toy_service")
  have d: "distinct (map cert_sha256 [?d])" "?d \<in> set [?d]" "dev_id ?d = ''phone1''" "sha256 toy_ext ''c'' = cert_sha256 ?d"
    by (simp_all add: new_device_def)
  from revocation_takes_effect [OF r(5) d(1) r(4,6,7,1) d(2-4) r(2,3) ph] r(1,2) ph show ?thesis by blast
qed

end
