(* ===== verification/Deployment.thy ===== *)
theory Deployment
  imports Install PamHelper
begin

text \<open>
  The Linux programs from the first set-up to a login: \<open>pair.py init\<close>, \<open>pair.py add-device\<close>, the start
  of the service on the files they wrote, the conversation with the phone that was added, and the
  helper of PAM.
\<close>

section \<open>Adding a device to a typed configuration\<close>

lemma opened_defaults:
  assumes "open_config fs path = Inr data" and "map_of data k = None"
  shows "map_of DEFAULTS k = None"
proof -
  from assms(1) obtain raw where r: "data = dict_update DEFAULTS raw" "dict_ok raw"
    by (auto simp: open_config_def config_reload_def bindE_eq_Inr split: option.splits json.splits dest: loads_dict_ok)
  with map_of_reopen [OF r(2), of k] assms(2) show ?thesis by (simp split: option.splits)
qed

text \<open>Saving a configuration with another list of devices changes the typed view there and nowhere else.\<close>

lemma typed_after_update:
  assumes "typed_config fs (in_dir dir ''config.json'') = Inr (c, t)" "open_config fs (in_dir dir ''config.json'') = Inr data"
    and "plain (JObj data)" "plain w" "devices_of w = Some dvs"
  shows "typed_config (saved P dir (AList.update ''devices'' w data) fs0) (in_dir dir ''config.json'') = Inr (c\<lparr>devices := dvs\<rparr>, t)"
proof -
  let ?d = "AList.update ''devices'' w data"
  have p: "plain (JObj ?d)" using assms(3,4) by (rule plain_update)
  then have ok: "dict_ok ?d" by simp
  have g: "jget (dict_update DEFAULTS ?d) k = (if k = ''devices'' then w else jget data k)" for k
    unfolding jget_reopen [OF ok] using opened_defaults [OF assms(2), of k]
    by (auto simp: update_conv' jget_def split: option.split)
  from assms(1,2) have c: "config_of data = Some c" "tls_of data = Some t"
    by (auto simp: typed_config_def split: option.splits)
  have "config_of (dict_update DEFAULTS ?d) = Some (c\<lparr>devices := dvs\<rparr>)" "tls_of (dict_update DEFAULTS ?d) = tls_of data"
    by (rule config_of_devices [where d = data]; simp add: g assms(5) c)+
  with c open_config_saved [OF p, where P = P and dir = dir and fs = fs0] show ?thesis by (simp add: typed_config_def)
qed

lemma add_device_typed:
  assumes "tmp_ok r fs" "plain_config fs dir" "typed_config fs (in_dir dir ''config.json'') = Inr (c, t)"
    and "add_device P r dir name pub pw days fs = (Inr b, fs')"
  obtains cert pk f where "ID_RE name" "load_public_key (base P) pub = Inr pk" "bundle_cert b = cert_pem P cert"
    "typed_config fs' (in_dir dir ''config.json'') = Inr (c\<lparr>devices := devices c @ [new_device P r name pk cert]\<rparr>, t)"
    "fs' = fs(in_dir dir ''config.json'' \<mapsto> f)" "st_mode f = 384"
  using assms(1,4)
proof (cases rule: add_device_cases)
  case (added data xs pk cert ca_key b')
  have dv: "devices_at fs dir = Some (devices c)" by (rule typed_devices [OF assms(3)])
  from dv added(3) obtain xs' where "map_of data ''devices'' = Some (JList xs')" "map device_of xs' = map Some (devices c)"
    by (rule devices_at_data)
  with added(4) have xs: "map device_of xs = map Some (devices c)" by simp
  note pl = plain_data [OF assms(2) added(3)]
  let ?w = "JList (xs @ [JObj (device_entry P r name pk cert)])"
  have "plain ?w" using plain_entry [OF pl added(4)] plain_device_entry [of P r name pk cert] by simp
  moreover have "devices_of ?w = Some (devices c @ [new_device P r name pk cert])"
    using xs by (simp add: devices_of_def those_Some device_of_entry)
  ultimately have "typed_config fs' (in_dir dir ''config.json'') = Inr (c\<lparr>devices := devices c @ [new_device P r name pk cert]\<rparr>, t)"
    unfolding added(8) by (rule typed_after_update [OF assms(3) added(3) pl])
  moreover have "b' = b" using added(1) by simp
  ultimately show ?thesis using added(2,6,9) by (intro that) (auto simp: added(8) saved_def)
qed simp

section \<open>A service that has just come up\<close>

lemma fresh_backoff: "remaining (new_backoff a b c) k t = 0"
  by (simp add: remaining_eq new_backoff_def)

text \<open>A peer with the certificate of a registered device comes to its hello.\<close>

lemma registered_enters:
  assumes "active s < max_connections (cfg s)" "remaining (ip_backoff s) ip (mono env) = 0" "der \<noteq> []"
    and "device_by_fp (devices (cfg s)) (sha256 E der) = Some d"
  shows "handle E env None c (Some ip) (Some der) s = (Some (AwaitHello ip (Some d)), s\<lparr>active := active s + 1\<rparr>)"
proof -
  let ?s = "s\<lparr>active := active s + 1\<rparr>"
  have "locked E env ip ''ip'' ?s = (Inr False, ?s)" by (rule locked_false) (simp add: assms(2))
  then have "session_start E env c ip (Some der) ?s = (Inr (AwaitHello ip (Some d)), ?s)"
    using assms(3,4) by (simp add: session_start_def)
  then show ?thesis using assms(1) by (simp add: handle_def guarded_def Let_def)
qed

text \<open>The hello of its client gets a challenge.\<close>

lemma hello_challenged:
  assumes "remaining (dev_backoff s) (dev_id d) (mono env) = 0" "length (pending s) < MAX_PENDING"
    and "NONCE_RE (token env)" "ID_RE (dev_id d)" "ID_RE (target_id (cfg s))"
  shows "\<exists>s1. handle_frame E env c (AwaitHello ip (Some d)) (Text (send E (client_hello (dev_id d)))) s = (AwaitResponse ip d, s1)"
proof -
  let ?hello = "[(''type'', JStr ''hello''), (''device_id'', JStr (dev_id d))]"
  have h: "recv_json (Text (send E (client_hello (dev_id d)))) = Inr ?hello"
    unfolding client_hello_def by (rule recv_json_send) (simp add: dict_ok_def)
  have l: "locked E env (dev_id d) ''device'' s = (Inr False, s)" by (rule locked_false) (simp add: assms(1))
  let ?s = "s\<lparr>pending := dict_keep (\<lambda>n r. mono env - fst (snd r) \<le> challenge_ttl (cfg s)) (pending s)\<rparr>"
  have n: "length (pending ?s) < MAX_PENDING"
    using le_less_trans [OF length_filter_le assms(2)] by (simp add: dict_keep_def)
  obtain m where "signed_message ''challenge'' (token env) (py_trunc (wall env * 1000)) (dev_id d) (target_id (cfg s)) = Inr m"
    using assms(3-5) by (auto simp: signed_message_def)
  with n have "\<exists>ch s1. issue_challenge E env (dev_id d) s = (Inr ch, s1)"
    by (simp add: issue_challenge_def Let_def)
  then obtain ch s1 where "issue_challenge E env (dev_id d) s = (Inr ch, s1)" by blast
  then show ?thesis
    by (simp add: handle_frame_def guarded_def on_hello_def h l jget_def bindS_def)
qed

text \<open>\<open>start\<close> once its guards have passed and the external calls succeed.\<close>

lemma start_succeeds:
  assumes "start_guards h allow_root = Inr (cf, t)" "load_signing_key h (resolve (cfg_dir h) (signing_key_file t)) pw = Inr key"
    and "load_cert_chain h (resolve (cfg_dir h) (server_cert t)) (resolve (cfg_dir h) (server_key t)) = Inr ()"
    and "load_verify_locations h (resolve (cfg_dir h) (ca_cert t)) = Inr ()"
    and "audit_log_file t = None" "audit_text h (state_directory h @ ''/audit.log'') = None"
    and "pam_server h = Inr ()" "ws_server h = Inr ()" "disk_ok env"
  shows "\<exists>rt l x. start E env h pw allow_root = Inr rt \<and> rt_service rt = (new_service cf key empty_log)\<lparr>audit := l, out := x\<rparr>"
proof -
  obtain s where a: "announce E env cf (new_service cf key empty_log) = (Inr (), s)"
    using announce_ok [OF assms(9)] by blast
  have "\<exists>l x. s = (new_service cf key empty_log)\<lparr>audit := l, out := x\<rparr>"
    using announce_only_logs [of E env cf "new_service cf key empty_log"] unfolding a by simp
  moreover have "\<exists>rt. start E env h pw allow_root = Inr rt \<and> rt_service rt = s"
    using assms a by (simp add: start_def Let_def build_ssl_context_def open_log_None)
  ultimately show ?thesis by blast
qed

section \<open>From the first set-up to a login\<close>

lemma setup_guards:
  assumes init: "tmp_ok r1 fs0" "init P r1 dir ip port target user pw force fs0 = (Inr cf, fs1)"
    and add: "tmp_ok r2 fs1" "add_device P r2 dir name pub pw days fs1 = (Inr b, fs2)"
    and files: "host_uid h \<noteq> 0" "host_files h = fs2" "cfg_dir h = dir" "cfg_path h = in_dir dir ''config.json''"
      "read_config h = typed_config fs2 (cfg_path h)"
  obtains c t cert pk where "start_guards h False = Inr (c, t)" "target_id c = target" "unlock_user c = user"
    "devices c = [new_device P r2 name pk cert]" "challenge_ttl c = 10" "grant_ttl c = 20" "max_connections c = 16"
    "ID_RE name" "load_public_key (base P) pub = Inr pk" "bundle_cert b = cert_pem P cert"
    "fs2 (in_dir dir ''laptop-signing-key.pem'') = Some (secret (enc_pem P (keys r1 2) pw))"
    "signing_key_file t = ''laptop-signing-key.pem''" "server_key t = ''server-key.pem''" "server_cert t = ''server-cert.pem''"
    "ca_cert t = ''ca-cert.pem''" "audit_log_file t = None"
proof -
  obtain c t where ct: "typed_config fs1 (in_dir dir ''config.json'') = Inr (c, t)" "target_id c = target" "listener_ip c = ip"
    "unlock_user c = user" "\<not> allow_any_interface c" "devices c = []" "challenge_ttl c = 10" "grant_ttl c = 20" "max_connections c = 16"
    and t: "signing_key_file t = ''laptop-signing-key.pem''" "server_key t = ''server-key.pem''" "server_cert t = ''server-cert.pem''"
      "ca_cert t = ''ca-cert.pem''" "audit_log_file t = None"
    by (rule fresh_typed [OF init])
  have plain: "plain_config fs1 dir" and priv1: "check_private fs1 (in_dir dir ''laptop-signing-key.pem'') = Inr ()"
      "check_private fs1 (in_dir dir ''server-key.pem'') = Inr ()"
    using init_creates [OF init] by simp_all
  obtain cert pk f where a: "ID_RE name" "load_public_key (base P) pub = Inr pk" "bundle_cert b = cert_pem P cert"
    "typed_config fs2 (in_dir dir ''config.json'') = Inr (c\<lparr>devices := devices c @ [new_device P r2 name pk cert]\<rparr>, t)"
    and fs2: "fs2 = fs1(in_dir dir ''config.json'' \<mapsto> f)" "st_mode f = 384"
    by (rule add_device_typed [OF add(1) plain ct(1) add(2)])
  obtain ca crt where "init_guards dir ip target force pw fs0 = Inr ()"
    and key: "fs1 (in_dir dir ''laptop-signing-key.pem'') = Some (secret (enc_pem P (keys r1 2) pw))"
    by (rule init_cases [OF init]) simp
  then have "\<not> wildcard ip"
    by (auto simp: init_guards_def wildcard_def bindE_eq_Inr ip_empty split: if_splits)
  moreover have "check_private fs2 (in_dir dir n) = Inr ()"
    if "n \<in> {''laptop-signing-key.pem'', ''server-key.pem'', ''config.json''}" for n
    using that priv1 fs2 by (auto simp: check_private_Inr mask_63)
  moreover have "resolve dir n = in_dir dir n" if "n \<in> {''laptop-signing-key.pem'', ''server-key.pem''}" for n
    using that by (auto simp: resolve_def in_dir_def)
  ultimately have "start_guards h False = Inr (c\<lparr>devices := devices c @ [new_device P r2 name pk cert]\<rparr>, t)"
    using files a(4) ct t(1,2) by (simp add: start_guards_def)
  with a(1-3) ct t fs2 key that show ?thesis by simp
qed

lemma setup_to_login:
  assumes init: "tmp_ok r1 fs0" "init P r1 dir ip port target user pw force fs0 = (Inr cf, fs1)"
    and add: "tmp_ok r2 fs1" "add_device P r2 dir name pub pw days fs1 = (Inr b, fs2)"
    and files: "host_uid h \<noteq> 0" "host_files h = fs2" "cfg_dir h = dir" "cfg_path h = in_dir dir ''config.json''"
      "read_config h = typed_config fs2 (cfg_path h)"
    and key: "load_signing_key h = (\<lambda>p w. fst (load_key_file P p w fs2))" "load_key P (enc_pem P (keys r1 2) pw) pw = Inr (keys r1 2)"
    and calls: "load_cert_chain h (in_dir dir ''server-cert.pem'') (in_dir dir ''server-key.pem'') = Inr ()"
      "load_verify_locations h (in_dir dir ''ca-cert.pem'') = Inr ()" "audit_text h (state_directory h @ ''/audit.log'') = None"
      "pam_server h = Inr ()" "ws_server h = Inr ()" "disk_ok env0" "disk_ok env3" "disk_ok env4"
    and laptop: "key_pair (base P) (keys r1 2) (public_of P (keys r1 2))"
    and phone: "load_public_key (base P) pub = Inr pk" "load_public_key (base P) (public_pem P pk) = Inr pk" "key_pair (base P) dk pk"
    and cert: "\<And>x. load_cert P (cert_pem P x) = Inr x" "load_cert P (bundle_cert b) = Inr crt" "cert_der P crt \<noteq> []"
    and nonce: "NONCE_RE (token env2)"
    and time: "mono env3 - mono env2 \<le> 10" "0 \<le> mono env4" "mono env4 < mono env3 + 20"
  shows "\<exists>rt d v1 v2 ch r v3 v4. start (base P) env0 h pw False = Inr rt \<and> dev_id d = name
    \<and> handle (base P) env1 None c (Some addr) (Some (cert_der P crt)) (rt_service rt) = (Some (AwaitHello addr (Some d)), v1)
    \<and> handle_frame (base P) env2 c (AwaitHello addr (Some d)) (Text (send (base P) (client_hello name))) v1 = (AwaitResponse addr d, v2)
    \<and> peer_view c v2 = peer_view c v1 @ [Sent c ch]
    \<and> client_respond (base P) dk name (public_of P (keys r1 2)) target (Inr (send (base P) ch)) = Inr r
    \<and> handle_frame (base P) env3 c (AwaitResponse addr d) (Text (send (base P) r)) v2 = (Leaving, v3)
    \<and> pam_line (base P) env4 k pid 0 (Inr (unlock_request (base P) user)) v3 = (PamAnswered True, v4)
    \<and> PamReplied k True \<in> set (out v4)"
proof -
  obtain cf' t cert pk' where g: "start_guards h False = Inr (cf', t)" and cfg: "target_id cf' = target" "unlock_user cf' = user"
      "devices cf' = [new_device P r2 name pk' cert]" "challenge_ttl cf' = 10" "grant_ttl cf' = 20" "max_connections cf' = 16"
    and n: "ID_RE name" "load_public_key (base P) pub = Inr pk'" "bundle_cert b = cert_pem P cert"
      "fs2 (in_dir dir ''laptop-signing-key.pem'') = Some (secret (enc_pem P (keys r1 2) pw))"
    and t: "signing_key_file t = ''laptop-signing-key.pem''" "server_key t = ''server-key.pem''" "server_cert t = ''server-cert.pem''"
      "ca_cert t = ''ca-cert.pem''" "audit_log_file t = None"
    by (rule setup_guards [OF init add files])
  let ?d = "new_device P r2 name pk' cert"
  have pk: "pk' = pk" and crt: "crt = cert" using n(2,3) phone(1) cert(1) [of cert] cert(2) by simp_all
  have d: "dev_id ?d = name" "public_key_pem ?d = public_pem P pk" "enabled ?d" "cert_sha256 ?d = sha256 (base P) (cert_der P crt)"
    by (simp_all add: new_device_def pk crt)
  have res: "resolve dir m = in_dir dir m" if "m \<in> {''laptop-signing-key.pem'', ''server-key.pem'', ''server-cert.pem'', ''ca-cert.pem''}" for m
    using that by (auto simp: resolve_def in_dir_def)
  have "load_signing_key h (resolve (cfg_dir h) (signing_key_file t)) pw = Inr (keys r1 2)"
    by (simp add: files t res key load_key_file_def bindS_def read_file_def lift_def n(4) secret_def)
  then obtain rt l x where rt: "start (base P) env0 h pw False = Inr rt"
    and svc: "rt_service rt = (new_service cf' (keys r1 2) empty_log)\<lparr>audit := l, out := x\<rparr>"
    using start_succeeds [OF g, of pw "keys r1 2" env0 "base P"] calls t res files by auto
  let ?s = "rt_service rt"
  have s: "active ?s = 0" "cfg ?s = cf'" "signing_key ?s = keys r1 2" "pending ?s = []" "ttl (sv_broker ?s) = 20"
    "remaining (ip_backoff ?s) y z = 0" "remaining (dev_backoff ?s) y z = 0" for y z
    unfolding svc by (simp_all add: new_service_def Let_def fresh_backoff new_broker_def cfg)
  let ?v1 = "?s\<lparr>active := active ?s + 1\<rparr>"
  have 1: "handle (base P) env1 None c (Some addr) (Some (cert_der P crt)) ?s = (Some (AwaitHello addr (Some ?d)), ?v1)"
    by (rule registered_enters) (simp_all add: s cfg d cert(3))
  have "ID_RE target" using init_creates [OF init] by simp
  then obtain v2 where 2: "handle_frame (base P) env2 c (AwaitHello addr (Some ?d)) (Text (send (base P) (client_hello name))) ?v1 = (AwaitResponse addr ?d, v2)"
    using hello_challenged [of ?v1 ?d env2 "base P" c addr] nonce n(1) by (auto simp: s d cfg MAX_PENDING_def)
  have k: "key_pair (base P) (signing_key ?v1) (public_of P (keys r1 2))" "load_public_key (base P) (public_key_pem ?d) = Inr pk"
    "mono env3 - mono env2 \<le> challenge_ttl (cfg ?v1)" "mono env4 < mono env3 + ttl (sv_broker ?v1)"
    using laptop phone time by (simp_all add: s d cfg)
  obtain ch r v3 v4 where 3: "peer_view c v2 = peer_view c ?v1 @ [Sent c ch]"
    "client_respond (base P) dk (dev_id ?d) (public_of P (keys r1 2)) (target_id (cfg ?v1)) (Inr (send (base P) ch)) = Inr r"
    "handle_frame (base P) env3 c (AwaitResponse addr ?d) (Text (send (base P) r)) v2 = (Leaving, v3)"
    "pam_line (base P) env4 k pid 0 (Inr (unlock_request (base P) (unlock_user (cfg v3)))) v3 = (PamAnswered True, v4)"
    "PamReplied k True \<in> set (out v4)"
    using login_run [OF 2 k(1,2) phone(3) k(3) calls(7,8) time(2) k(4), of k pid 0] by blast
  have "cfg v3 = cfg ?s"
    using conf.P_handle_frame [OF refl, of "base P" env2 c "AwaitHello addr (Some ?d)" "Text (send (base P) (client_hello name))" ?v1]
      conf.P_handle_frame [OF refl, of "base P" env3 c "AwaitResponse addr ?d" "Text (send (base P) r)" v2] 2 3(3) by simp
  with rt 1 2 3 show ?thesis unfolding d(1) s(2) cfg by (intro exI [of _ rt] exI [of _ ?d]) (auto simp: s cfg d)
qed

text \<open>
  C4.  From nothing to a login: after \<open>init\<close> and \<open>add-device\<close>, the service starts on the files they
  wrote; a peer with the certificate of the bundle is let in, its hello is answered by a challenge,
  the phone whose key was registered verifies the laptop and answers, the service accepts, and PAM
  is told yes for the user given to \<open>init\<close> --- provided the external calls succeed, keys and
  certificates load as they were written, the audit log can be written, signatures verify as in
  \<open>key_pair\<close>, and nobody is later than ten and twenty seconds; the request of PAM is taken from where
  its caller was let in.
\<close>

theorem from_setup_to_login:
  assumes init: "tmp_ok r1 fs0" "init P r1 dir ip port target user pw force fs0 = (Inr cf, fs1)"
    and add: "tmp_ok r2 fs1" "add_device P r2 dir name pub pw days fs1 = (Inr b, fs2)"
    and files: "host_uid h \<noteq> 0" "host_files h = fs2" "cfg_dir h = dir" "cfg_path h = in_dir dir ''config.json''"
      "read_config h = typed_config fs2 (cfg_path h)"
    and key: "load_signing_key h = (\<lambda>p w. fst (load_key_file P p w fs2))" "load_key P (enc_pem P (keys r1 2) pw) pw = Inr (keys r1 2)"
    and calls: "load_cert_chain h (in_dir dir ''server-cert.pem'') (in_dir dir ''server-key.pem'') = Inr ()"
      "load_verify_locations h (in_dir dir ''ca-cert.pem'') = Inr ()" "audit_text h (state_directory h @ ''/audit.log'') = None"
      "pam_server h = Inr ()" "ws_server h = Inr ()" "disk_ok env0" "disk_ok env3" "disk_ok env4"
    and laptop: "key_pair (base P) (keys r1 2) (public_of P (keys r1 2))"
    and phone: "load_public_key (base P) pub = Inr pk" "load_public_key (base P) (public_pem P pk) = Inr pk" "key_pair (base P) dk pk"
    and cert: "\<And>x. load_cert P (cert_pem P x) = Inr x" "load_cert P (bundle_cert b) = Inr crt" "cert_der P crt \<noteq> []"
    and nonce: "NONCE_RE (token env2)"
    and time: "mono env3 - mono env2 \<le> 10" "0 \<le> mono env4" "mono env4 < mono env3 + 20"
  shows "\<exists>rt d v1 v2 ch r v3 v4. start (base P) env0 h pw False = Inr rt \<and> dev_id d = name
    \<and> handle (base P) env1 None c (Some addr) (Some (cert_der P crt)) (rt_service rt) = (Some (AwaitHello addr (Some d)), v1)
    \<and> handle_frame (base P) env2 c (AwaitHello addr (Some d)) (Text (send (base P) (client_hello name))) v1 = (AwaitResponse addr d, v2)
    \<and> peer_view c v2 = peer_view c v1 @ [Sent c ch]
    \<and> client_respond (base P) dk name (public_of P (keys r1 2)) target (Inr (send (base P) ch)) = Inr r
    \<and> handle_frame (base P) env3 c (AwaitResponse addr d) (Text (send (base P) r)) v2 = (Leaving, v3)
    \<and> pam_line (base P) env4 k pid 0 (Inr (unlock_request (base P) user)) v3 = (PamAnswered True, v4)
    \<and> PamReplied k True \<in> set (out v4)"
  using assms by (rule setup_to_login)

lemma from_setup_to_login_witness:
  "\<exists>(v3 :: nat service) v4. pam_line toy_ext (toy_env 3) 1 42 0 (Inr (unlock_request toy_ext ''me'')) v3 = (PamAnswered True, v4)"
proof -
  let ?pw = "replicate 12 (CHR ''x'')"
  obtain cf fs1 where i: "init toy_pki toy_tool ''d'' ''100.64.0.5'' 8765 ''laptop'' ''me'' ?pw False (\<lambda>_. None) = (Inr cf, fs1)"
    and t0: "tmp_ok toy_tool (\<lambda>_. None)" by (rule toy_init)
  obtain ca crt where fs1: "fs1 = (\<lambda>_. None)(in_dir ''d'' ''ca-key.pem'' \<mapsto> secret (enc_pem toy_pki (keys toy_tool 0) ?pw), in_dir ''d'' ''ca-cert.pem'' \<mapsto> secret (cert_pem toy_pki ca),
       in_dir ''d'' ''server-key.pem'' \<mapsto> secret (enc_pem toy_pki (keys toy_tool 1) ?pw), in_dir ''d'' ''server-cert.pem'' \<mapsto> secret (cert_pem toy_pki crt),
       in_dir ''d'' ''laptop-signing-key.pem'' \<mapsto> secret (enc_pem toy_pki (keys toy_tool 2) ?pw),
       in_dir ''d'' ''config.json'' \<mapsto> secret (dumps_indent (float_repr (base toy_pki)) 0 (JObj (init_data toy_pki toy_tool ''100.64.0.5'' 8765 ''laptop'' ''me''))))"
    and o: "open_config fs1 (in_dir ''d'' ''config.json'') = Inr cf"
    by (rule init_cases [OF t0 i])
  have "devices_at fs1 ''d'' = Some []" using init_creates [OF t0 i] by simp
  then have m: "map_of cf ''devices'' = Some (JList [])" using o by (rule devices_at_data) simp
  have t1: "tmp_ok toy_tool fs1" by (rule toy_tmp) (simp add: fs1 del: dumps_indent.simps)
  have "fs1 (in_dir ''d'' ''ca-key.pem'') = Some (secret (enc_pem toy_pki (keys toy_tool 0) ?pw))"
    "fs1 (in_dir ''d'' ''ca-cert.pem'') = Some (secret (cert_pem toy_pki ca))" by (simp_all add: fs1 del: dumps_indent.simps)
  from toy_add_on [OF t1 o m this, of ?pw]
  obtain b fs2 where a: "add_device toy_pki toy_tool ''d'' ''phone1'' ''BEGIN'' ?pw 365 fs1 = (Inr b, fs2)" "bundle_cert b = ''phone1''"
    by blast
  let ?h = "toy_host\<lparr>host_files := fs2, cfg_dir := ''d'', cfg_path := in_dir ''d'' ''config.json'',
    read_config := typed_config fs2 (in_dir ''d'' ''config.json''), load_signing_key := (\<lambda>p w. fst (load_key_file toy_pki p w fs2))\<rparr>"
  have h: "host_uid ?h \<noteq> 0" "host_files ?h = fs2" "cfg_dir ?h = ''d''" "cfg_path ?h = in_dir ''d'' ''config.json''"
    "read_config ?h = typed_config fs2 (cfg_path ?h)" "load_signing_key ?h = (\<lambda>p w. fst (load_key_file toy_pki p w fs2))"
    "load_key toy_pki (enc_pem toy_pki (keys toy_tool 2) ?pw) ?pw = Inr (keys toy_tool 2)"
    "load_cert_chain ?h (in_dir ''d'' ''server-cert.pem'') (in_dir ''d'' ''server-key.pem'') = Inr ()"
    "load_verify_locations ?h (in_dir ''d'' ''ca-cert.pem'') = Inr ()" "audit_text ?h (state_directory ?h @ ''/audit.log'') = None"
    "pam_server ?h = Inr ()" "ws_server ?h = Inr ()"
    by (simp_all add: toy_host_def toy_tool_def)
  have e: "disk_ok (toy_env n)" "NONCE_RE (token (toy_env n))" "mono (toy_env n) = n" for n
    using NONCE_RE_toy by (simp_all add: toy_env_def)
  have k: "key_pair (base toy_pki) (keys toy_tool 2) (public_of toy_pki (keys toy_tool 2))" "load_public_key (base toy_pki) ''BEGIN'' = Inr 5"
    "load_public_key (base toy_pki) (public_pem toy_pki 5) = Inr 5" "key_pair (base toy_pki) 5 5"
    "load_cert toy_pki (cert_pem toy_pki x) = Inr x" for x
    using toy_key by (simp_all add: key_pair_toy)
  have c: "load_cert toy_pki (bundle_cert b) = Inr ''phone1''" "cert_der toy_pki ''phone1'' \<noteq> []" by (simp_all add: a(2))
  have b: "base toy_pki = toy_ext" by (simp)
  have t: "mono (toy_env 2) - mono (toy_env 1) \<le> 10" "0 \<le> mono (toy_env 3)" "mono (toy_env 3) < mono (toy_env 2) + 20"
    by (simp_all add: e)
  from from_setup_to_login [OF t0 i t1 a(1) h e(1) [of 0] e(1) [of 2] e(1) [of 3] k(1-5) c e(2) [of 1] t,
      of "toy_env 0" 1 "''ip''" 1 42]
  show ?thesis unfolding b by blast
qed

end
