(* ===== verification/Revocation.thy ===== *)
theory Revocation
  imports Install System
begin

text \<open>
  A revocation through the whole system: the set-up tool marks the device in the file, the service
  reads the file, and from then on no response of the device is accepted, whatever the tool, the
  connections and PAM do.
\<close>

section \<open>What the file can say later\<close>

text \<open>The configurations the service can read once the tool has left \<open>fs\<close> and is run on, in any way but \<open>init --force\<close>.\<close>

definition later_config :: "('sk, 'pk, 'cert) pki \<Rightarrow> string \<Rightarrow> fs \<Rightarrow> config \<Rightarrow> bool" where
  "later_config P dir fs cf \<longleftrightarrow>
     (\<exists>cs t. runs_ok P dir cs fs \<and> typed_config (tool_runs P dir cs fs) (in_dir dir ''config.json'') = Inr (cf, t))"

lemma device_by_id_absent: "device_by_id ds n = None \<Longrightarrow> dv \<in> set ds \<Longrightarrow> enabled dv \<Longrightarrow> dev_id dv \<noteq> n"
  by (induction ds) (auto split: if_splits)

lemma later_config_without:
  assumes "registry_ok ds" "devices_at fs dir = Some ds" "plain_config fs dir" "tmp_ok r fs"
    and "pair_main P r penv dir (RevokeDevice n) fs = (ls, Inr (), fs1)"
    and "later_config P dir fs1 cf" "dv \<in> set (devices cf)" "enabled dv"
  shows "dev_id dv \<noteq> n"
proof -
  from assms(6) obtain cs t where cs: "runs_ok P dir cs fs1"
    and t: "typed_config (tool_runs P dir cs fs1) (in_dir dir ''config.json'') = Inr (cf, t)" by (auto simp: later_config_def)
  from revoked_stays_out [OF assms(1-5) cs] typed_devices [OF t] have "device_by_id (devices cf) n = None" by auto
  from device_by_id_absent [OF this assms(7,8)] show ?thesis .
qed

section \<open>What the service accepts\<close>

definition auth_device :: "time \<times> nat \<times> string \<times> string \<Rightarrow> string" where
  "auth_device a = fst (snd (snd a))"

text \<open>A step accepts a response only on a session of its device.\<close>

lemma step_auths:
  assumes "sstep E okc oke s s'" "sessions_ok Q s"
  obtains "auths s' = auths s" | a d where "auths s' = auths s @ [a]" "auth_device a = dev_id d" "Q d"
proof (cases "auths s' = auths s")
  case False
  from assms(1) obtain env :: env and c ph f where f: "conns s c = Some ph" "auths s' = note_auth E env c ph f s"
    by cases (use False in auto)
  with note_auth_changes [of E env c ph f s] False obtain ip d n where
    "ph = AwaitResponse ip d" "auths s' = auths s @ [(mono env, c, dev_id d, n)]" by auto
  with f(1) assms(2) that(2) [of "(mono env, c, dev_id d, n)" d] show ?thesis by (auto simp: sessions_ok_def auth_device_def)
qed (rule that(1))

lemma run_auths:
  assumes "reach E okc oke s1 s2" "okc (cfg (svc s1))" "sessions_ok (\<lambda>d. dev_id d \<noteq> n) s1"
    and Q: "\<And>cf d. okc cf \<Longrightarrow> d \<in> set (devices cf) \<Longrightarrow> enabled d \<Longrightarrow> dev_id d \<noteq> n"
  shows "\<exists>as. auths s2 = auths s1 @ as \<and> n \<notin> set (map auth_device as)"
proof (rule reach_invariant [OF assms(1), where I = "\<lambda>s. \<exists>as. auths s = auths s1 @ as \<and> n \<notin> set (map auth_device as)"])
  fix s s' assume r: "reach E okc oke s1 s" and s: "\<exists>as. auths s = auths s1 @ as \<and> n \<notin> set (map auth_device as)"
    and step: "sstep E okc oke s s'"
  have "sessions_ok (\<lambda>d. dev_id d \<noteq> n) s" using sessions_run [OF r assms(2,3) Q] by simp
  from step_auths [OF step this] s show "\<exists>as. auths s' = auths s1 @ as \<and> n \<notin> set (map auth_device as)"
    by cases force+
qed simp

lemma revoked_is_final:
  assumes disk: "registry_ok ds" "devices_at fs dir = Some ds" "plain_config fs dir" "tmp_ok r fs"
    and run: "pair_main P r penv dir (RevokeDevice n) fs = (ls, Inr (), fs1)"
    and "reach E (later_config P dir fs1) oke s1 s2" "later_config P dir fs1 (cfg (svc s1))"
    and "sessions_ok (\<lambda>d. dev_id d \<noteq> n) s1"
  shows "\<exists>as. auths s2 = auths s1 @ as \<and> n \<notin> set (map auth_device as)"
  using assms(6-8) by (rule run_auths) (rule later_config_without [OF disk run])

text \<open>
  C9.  A revocation is final for the whole system: once \<open>revoke-device\<close> has reported success and the
  service has read the file, no response of the device is accepted any more --- whatever connections,
  PAM requests and clock readings follow, and whatever the set-up tool does to the file except
  \<open>init --force\<close> --- provided no session of the device was open at that moment.
\<close>

theorem revocation_is_final:
  assumes "registry_ok ds" "devices_at fs dir = Some ds" "plain_config fs dir" "tmp_ok r fs"
    and "pair_main P r penv dir (RevokeDevice n) fs = (ls, Inr (), fs1)"
    and "reach E (later_config P dir fs1) oke s1 s2" "later_config P dir fs1 (cfg (svc s1))"
    and "sessions_ok (\<lambda>d. dev_id d \<noteq> n) s1"
  shows "\<exists>as. auths s2 = auths s1 @ as \<and> n \<notin> set (map auth_device as)"
  using assms by (rule revoked_is_final)

text \<open>
  The proviso is needed: a session goes on with the device its hello was taken for, so a phone that
  was revoked between its hello and its response is accepted once more.
\<close>

lemma open_session_survives:
  assumes "conns s c = Some (AwaitResponse ip d)" "sys_now s \<le> mono env" "oke env"
    and "accepted_nonce E env d f (svc s) = Some k"
  shows "\<exists>s'. sstep E okc oke s s' \<and> auths s' = auths s @ [(mono env, c, dev_id d, k)]"
proof -
  have "sstep E okc oke s (s\<lparr>sys_now := mono env, svc := snd (handle_frame E env c (AwaitResponse ip d) f (svc s)),
      conns := (conns s)(c \<mapsto> fst (handle_frame E env c (AwaitResponse ip d) f (svc s))),
      auths := note_auth E env c (AwaitResponse ip d) f s\<rparr>)"
    by (rule sstep.Frame) (use assms in simp_all)
  with assms(4) show ?thesis by (intro exI conjI) (assumption, simp add: note_auth_def)
qed

lemma revocation_is_final_witness:
  "\<exists>(s1 :: nat system) (s2 :: nat system). sys_now s1 < sys_now s2
    \<and> (\<exists>as. auths s2 = auths s1 @ as \<and> ''phone1'' \<notin> set (map auth_device as))"
proof -
  let ?d = "new_device toy_pki toy_tool ''phone1'' 7 ''c''"
  obtain fs1 new t where r: "pair_main toy_pki toy_tool toy_penv ''d'' (RevokeDevice ''phone1'') (toy_home [JObj (device_entry toy_pki toy_tool ''phone1'' 7 ''c'')])
      = ([''Revoked phone1. Active immediately.''], Inr (), fs1)"
    "typed_config fs1 (in_dir ''d'' ''config.json'') = Inr (new, t)" "require_mtls new"
    "devices_at (toy_home [JObj (device_entry toy_pki toy_tool ''phone1'' 7 ''c'')]) ''d'' = Some [?d]" "registry_ok [?d]"
    "plain_config (toy_home [JObj (device_entry toy_pki toy_tool ''phone1'' 7 ''c'')]) ''d''"
    "tmp_ok toy_tool (toy_home [JObj (device_entry toy_pki toy_tool ''phone1'' 7 ''c'')])" by (rule toy_revocation)
  let ?s = "sys_start new (7 :: nat) empty_log 0"
  have l: "later_config toy_pki ''d'' fs1 (cfg (svc ?s))"
    unfolding later_config_def sys_start_sel by (intro exI [of _ "[]"] exI [of _ t]) (simp add: r(2))
  obtain s2 where s2: "sstep toy_ext (later_config toy_pki ''d'' fs1) (\<lambda>_. True) ?s s2" "sys_now s2 = 1"
    using sstep.Open [where s = ?s and env = "toy_env 1" and c = 1 and rl = None and E = toy_ext and oke = "\<lambda>_. True"
        and okc = "later_config toy_pki ''d'' fs1" and ra = "Some ''ip''" and der = "Some ''c''", OF _ _ _ _ refl]
    by (force simp: sys_start_def toy_env_def)
  have s: "reach toy_ext (later_config toy_pki ''d'' fs1) (\<lambda>_. True) ?s s2" "sessions_ok (\<lambda>d. dev_id d \<noteq> ''phone1'') ?s"
    using s2(1) by (simp_all add: reach_def r_into_rtranclp sessions_ok_def sys_start_def)
  have "sys_now ?s < sys_now s2" using s2(2) by (simp add: sys_start_def)
  with revocation_is_final [OF r(5,4,6,7,1) s(1) l s(2)] show ?thesis by blast
qed

end
