(* ===== verification/ConfigFile.thy ===== *)
theory ConfigFile
  imports Enrolment
begin

text \<open>
  The configuration file as a store: a dictionary that was opened, changed and saved is read back as
  it was, with the entries of \<open>DEFAULTS\<close> in their places and the values of the file in them.
\<close>

section \<open>Updating a dictionary with itself\<close>

lemma dict_update_fresh: "dict_ok (d @ e) \<Longrightarrow> dict_update d e = d @ e"
proof (induction e arbitrary: d)
  case (Cons a e)
  obtain k v where a: "a = (k, v)" by (cases a)
  with Cons.prems have "AList.update k v d = d @ [(k, v)]"
    by (induction d) (auto simp: dict_ok_def)
  with Cons.IH [of "d @ [(k, v)]"] Cons.prems a show ?case by (simp add: dict_update_def)
qed (simp add: dict_update_def)

lemma dict_update_behind:
  "k \<notin> fst ` set e \<Longrightarrow> dict_update ((k, v) # d) e = (k, v) # dict_update d e"
  by (induction e arbitrary: d) (auto simp: dict_update_def)

lemma dict_update_same_keys:
  assumes "dict_ok e" and "map fst d = take (length d) (map fst e)"
  shows "dict_update d e = e"
  using assms
proof (induction d arbitrary: e)
  case Nil
  then show ?case using dict_update_fresh [of "[]" e] by simp
next
  case (Cons a d)
  obtain k v where a: "a = (k, v)" by (cases a)
  with Cons.prems(2) obtain w e' where e: "e = (k, w) # e'" by (cases e) auto
  with Cons.prems(1) have k: "k \<notin> fst ` set e'" "dict_ok e'" by (simp_all add: dict_ok_def)
  have "dict_update ((k, v) # d) ((k, w) # e') = dict_update ((k, w) # d) e'" by (simp add: dict_update_def)
  also have "\<dots> = (k, w) # dict_update d e'" by (rule dict_update_behind [OF k(1)])
  finally show ?case using Cons.IH [OF k(2)] Cons.prems(2) a e by simp
qed

text \<open>The keys of \<open>d\<close> stay in front.\<close>

lemma take_update_keys:
  "n \<le> length d \<Longrightarrow> take n (map fst (AList.update k v d)) = take n (map fst d)"
  by (simp add: update_keys)

lemma take_dict_update_keys:
  "n \<le> length d \<Longrightarrow> take n (map fst (dict_update d e)) = take n (map fst d) \<and> n \<le> length (dict_update d e)"
proof (induction e arbitrary: d)
  case (Cons a e)
  obtain k v where a: "a = (k, v)" by (cases a)
  have "length d \<le> length (AList.update k v d)" using length_map [of fst "AList.update k v d"] by (simp add: update_keys split: if_splits)
  with Cons.IH [of "AList.update k v d"] Cons.prems a show ?case by (simp add: dict_update_def take_update_keys)
qed (simp add: dict_update_def)

section \<open>Opening, changing, saving, opening\<close>

text \<open>What \<open>Config\<close> holds begins with the entries of \<open>DEFAULTS\<close>.\<close>

definition defaults_first :: "(string \<times> json) list \<Rightarrow> bool" where
  "defaults_first data \<longleftrightarrow> map fst DEFAULTS = take (length DEFAULTS) (map fst data)"

lemma defaults_first_opened: "open_config fs path = Inr data \<Longrightarrow> defaults_first data"
  using take_dict_update_keys [of "length DEFAULTS" DEFAULTS]
  by (auto simp: defaults_first_def open_config_def config_reload_def bindE_eq_Inr split: option.splits json.splits)

lemma defaults_first_update:
  assumes "defaults_first data"
  shows "defaults_first (AList.update k v data)"
proof -
  from assms have "length (map fst DEFAULTS) = length (take (length DEFAULTS) (map fst data))" by (simp add: defaults_first_def)
  then have "length DEFAULTS \<le> length data" by simp
  with assms show ?thesis by (simp add: defaults_first_def take_update_keys)
qed

lemma reopened:
  assumes "defaults_first data" "plain (JObj data)" "fs path = Some \<lparr>contents = dumps_indent fr 0 (JObj data), st_mode = m\<rparr>"
  shows "open_config fs path = Inr data"
  using open_saved [where fr = fr and m = m and fs = fs and path = path and data = data, OF assms(2,3)] dict_update_same_keys [of data DEFAULTS] assms(1,2) by (simp add: defaults_first_def)

text \<open>
  C31.  The configuration file is a faithful store.  A tool that opens the configuration, changes an
  entry and saves it has, when \<open>save\<close> returns, a file readable by its owner only from which the next
  \<open>Config(path)\<close> reads exactly the changed dictionary, the order of its entries included; when
  \<open>save\<close> raises, in whatever call, the next one reads the dictionary of before.  No other file changes.
\<close>

theorem config_roundtrip:
  assumes "open_config fs path = Inr data" and "plain (JObj data)" and "plain v"
    and "fs tmp = None" and "tmp \<noteq> path"
    and "config_save fr tmp flt path (AList.update k v data) fs = (res, fs')"
  shows "(res = Inr () \<and> open_config fs' path = Inr (AList.update k v data) \<and> map_option st_mode (fs' path) = Some 384
      \<or> res = Inl OSError \<and> open_config fs' path = Inr data) \<and> (\<forall>p. p = path \<or> fs' p = fs p)"
proof -
  from config_save_cases [OF assms(4-6)] show ?thesis
  proof
    assume "res = Inr () \<and> fs' = fs(path \<mapsto> \<lparr>contents = dumps_indent fr 0 (JObj (AList.update k v data)), st_mode = 384\<rparr>)"
    moreover from this have "open_config fs' path = Inr (AList.update k v data)"
      by (intro reopened [where fr = fr and m = 384] defaults_first_update defaults_first_opened [OF assms(1)] plain_update [OF assms(2,3)]) simp
    ultimately show ?thesis by (simp del: dumps_indent.simps)
  qed (use assms(1) in simp)
qed

lemma config_roundtrip_witness:
  "\<exists>data fs'. open_config fs' (in_dir ''d'' ''config.json'') = Inr (AList.update ''grant_ttl'' (JInt 5) data)
    \<and> map_of (AList.update ''grant_ttl'' (JInt 5) data) ''grant_ttl'' = Some (JInt 5)"
proof -
  let ?p = "in_dir ''d'' ''config.json''" and ?fs = "toy_home []"
  have "plain_config ?fs ''d''" using toy_home [of "[]"] by simp
  then obtain data where d: "open_config ?fs ?p = Inr data" "plain (JObj data)"
    by (auto simp: plain_config_def simp del: plain.simps split: sum.splits)
  have plain_5: "plain (JInt 5)" by simp
  have t: "?fs ''t'' = None" "''t'' \<noteq> ?p" by (simp_all add: toy_home_def saved_def in_dir_def)
  obtain res fs' where s: "config_save (\<lambda>_. []) ''t'' NoFault ?p (AList.update ''grant_ttl'' (JInt 5) data) ?fs = (res, fs')"
    by (cases "config_save (\<lambda>_. []) ''t'' NoFault ?p (AList.update ''grant_ttl'' (JInt 5) data) ?fs")
  then have "res = Inr ()" by (simp add: config_save_def write_private_def del: dumps_indent.simps)
  with config_roundtrip [OF d plain_5 t s] show ?thesis by (auto simp: update_conv')
qed

end
