(* ===== verification/ToolWrites.thy ===== *)
theory ToolWrites
  imports Enrolment
begin

text \<open>
  What the set-up tool writes.  A program on files \<open>writes\<close> only what a predicate allows when every
  file it changes ends up private and with an allowed content, whichever calls fail; the rules follow
  the structure of the commands.
\<close>

section \<open>A discipline for writing files\<close>

definition writes :: "(string \<Rightarrow> bytes \<Rightarrow> bool) \<Rightarrow> 'sk run \<Rightarrow> (fs \<Rightarrow> 'a result \<times> fs) \<Rightarrow> bool" where
  "writes ok r m \<longleftrightarrow>
     (\<forall>fs. tmp_ok r fs \<longrightarrow> tmp_ok r (snd (m fs))
       \<and> (\<forall>p. snd (m fs) p = fs p \<or> (\<exists>d. snd (m fs) p = Some \<lparr>contents = d, st_mode = 384\<rparr> \<and> ok p d)))"

named_theorems writing \<open>rules for what a program on files writes\<close>

lemma writes_lift [writing]: "writes ok r (lift x)"
  by (simp add: writes_def lift_def)

lemma writes_pure [writing]: "writes ok r (\<lambda>fs. (f fs, fs))"
  by (simp add: writes_def)

lemma writes_read [writing]: "writes ok r (read_file p)"
  by (simp add: writes_def read_file_def)

lemma writes_bind [writing]:
  assumes "writes ok r m" and "\<And>x. writes ok r (f x)"
  shows "writes ok r (bindS m f)"
  unfolding writes_def
proof (intro allI impI)
  fix fs assume t: "tmp_ok r fs"
  obtain x fs1 where m: "m fs = (x, fs1)" by (cases "m fs")
  with assms(1) t have 1: "tmp_ok r fs1" "fs1 p = fs p \<or> (\<exists>d. fs1 p = Some \<lparr>contents = d, st_mode = 384\<rparr> \<and> ok p d)" for p
    by (auto simp: writes_def dest!: spec [of _ fs])
  show "tmp_ok r (snd (bindS m f fs)) \<and> (\<forall>p. snd (bindS m f fs) p = fs p
      \<or> (\<exists>d. snd (bindS m f fs) p = Some \<lparr>contents = d, st_mode = 384\<rparr> \<and> ok p d))"
  proof (cases x)
    case (Inl e)
    with m 1 show ?thesis by simp
  next
    case (Inr y)
    obtain z fs2 where f: "f y fs1 = (z, fs2)" by (cases "f y fs1")
    with assms(2) [of y] 1(1) have "tmp_ok r fs2" "fs2 p = fs1 p \<or> (\<exists>d. fs2 p = Some \<lparr>contents = d, st_mode = 384\<rparr> \<and> ok p d)" for p
      by (auto simp: writes_def dest!: spec [of _ fs1])
    moreover have "snd (bindS m f fs) = fs2" using m f Inr by (simp add: bindS_def)
    ultimately show ?thesis using 1(2) by metis
  qed
qed

lemma writes_file [writing]:
  assumes "file_name n" "ok (in_dir d n) data"
  shows "writes ok r (write_file r (in_dir d n) data)"
  using assms by (auto simp: writes_def write_file_eq intro: tmp_ok_upd)

lemma writes_save [writing]:
  "ok (in_dir d ''config.json'') (dumps_indent (float_repr (base P)) 0 (JObj data)) \<Longrightarrow> writes ok r (save P r (in_dir d ''config.json'') data)"
  unfolding save_eq by (rule writes_file) (simp_all add: file_names del: dumps_indent.simps)

lemma writes_if [writing]: "(b \<Longrightarrow> writes ok r m) \<Longrightarrow> (\<not> b \<Longrightarrow> writes ok r m') \<Longrightarrow> writes ok r (if b then m else m')"
  by simp

lemma writes_option [writing]:
  "writes ok r m \<Longrightarrow> (\<And>x. writes ok r (f x)) \<Longrightarrow> writes ok r (case z of None \<Rightarrow> m | Some x \<Rightarrow> f x)"
  by (cases z) simp_all

lemma writes_key_file [writing]: "writes ok r (load_key_file P p pw)"
  unfolding load_key_file_def by (intro writing)

section \<open>The files of the tool\<close>

text \<open>Keys encrypted under the passphrase, certificates, the configuration, and the bundle for a phone.\<close>

definition tool_file :: "('sk, 'pk, 'cert) pki \<Rightarrow> string \<Rightarrow> (string \<Rightarrow> bool) \<Rightarrow> string \<Rightarrow> bytes \<Rightarrow> bool" where
  "tool_file P dir pass p data \<longleftrightarrow>
     (\<exists>n \<in> {''ca-key.pem'', ''server-key.pem'', ''laptop-signing-key.pem''}. p = in_dir dir n
        \<and> (\<exists>key pw. pass pw \<and> data = private_bytes P key PEM PKCS8 (BestAvailableEncryption (utf8 pw))))
     \<or> (\<exists>n \<in> {''ca-cert.pem'', ''server-cert.pem''}. p = in_dir dir n \<and> (\<exists>c. data = cert_bytes P c PEM))
     \<or> p = in_dir dir ''config.json'' \<and> (\<exists>d. data = dumps_indent (float_repr (base P)) 0 (JObj d))
     \<or> (\<exists>out name. ID_RE name \<and> p = in_dir out (name @ ''.p12'')
        \<and> (\<exists>key c cas pw. make_p12 P name key c cas (BestAvailableEncryption pw) = Inr data))"

lemma tool_file_intros:
  "pass pw \<Longrightarrow> n \<in> {''ca-key.pem'', ''server-key.pem'', ''laptop-signing-key.pem''} \<Longrightarrow> tool_file P dir pass (in_dir dir n) (enc_pem P key pw)"
  "n \<in> {''ca-cert.pem'', ''server-cert.pem''} \<Longrightarrow> tool_file P dir pass (in_dir dir n) (cert_pem P c)"
  "tool_file P dir pass (in_dir dir ''config.json'') (dumps_indent (float_repr (base P)) 0 (JObj d))"
  "ID_RE name \<Longrightarrow> make_p12 P name key c cas (BestAvailableEncryption e) = Inr data \<Longrightarrow> tool_file P dir pass (in_dir out (name @ ''.p12'')) data"
  unfolding tool_file_def enc_pem_def cert_pem_def
     apply (rule disjI1, rule bexI, rule conjI [OF refl], rule exI, rule exI, erule conjI, rule refl, assumption)
    apply (rule disjI2, rule disjI1, rule bexI, rule conjI [OF refl], rule exI, rule refl, assumption)
   apply (rule disjI2, rule disjI2, rule disjI1, rule conjI [OF refl], rule exI, rule refl)
  apply (rule disjI2, rule disjI2, rule disjI2, rule exI, rule exI, erule conjI, rule conjI [OF refl], rule exI, rule exI, rule exI, rule exI, assumption)
  done

section \<open>The commands\<close>

lemmas file_rules = writing tool_file_intros

lemma writes_issue_server:
  "pass pw \<Longrightarrow> writes (tool_file P dir pass) r (issue_server P r k n dir ca_key ca_cert target ip pw)"
  unfolding issue_server_def Let_def by (intro file_rules) (simp_all add: file_names)

lemma writes_init:
  "pass pw \<Longrightarrow> writes (tool_file P dir pass) r (init P r dir ip port target user pw force)"
  unfolding init_def Let_def by (intro file_rules writes_issue_server) (simp_all add: file_names)

lemma writes_add_device: "writes (tool_file P dir pass) r (add_device P r dir name pub pw days)"
  unfolding add_device_def Let_def by (intro file_rules)

lemma writes_revoke_device: "writes (tool_file P dir pass) r (revoke_device P r dir name)"
  unfolding revoke_device_def Let_def by (intro file_rules)

lemma writes_renew_server: "pass pw \<Longrightarrow> writes (tool_file P dir pass) r (renew_server P r dir ip pw)"
  unfolding renew_server_def Let_def by (intro file_rules writes_issue_server)

text \<open>The bundle is encrypted too, under the password that is shown once.\<close>

lemma add_device_bundle:
  assumes "add_device P r dir name pub pw days fs = (Inr b, fs')"
  shows "ID_RE name \<and> (\<exists>key c cas e. make_p12 P name key c cas (BestAvailableEncryption e) = Inr (p12 b))"
  using assms unfolding add_device_def Let_def bindS_reads
  by (auto simp: lift_def split: sum.splits if_splits dest!: bindS_InrD) blast

lemma writes_bind_after:
  assumes "writes ok r m" and "\<And>fs x fs'. m fs = (Inr x, fs') \<Longrightarrow> writes ok r (f x)"
  shows "writes ok r (bindS m f)"
proof -
  have "bindS m f = bindS m (\<lambda>x. if \<exists>fs fs'. m fs = (Inr x, fs') then f x else lift (Inl OSError))"
    by (auto simp: bindS_def fun_eq_iff split: prod.split sum.split)
  moreover have "writes ok r \<dots>" using assms by (intro writing) blast+
  ultimately show ?thesis by simp
qed

lemma writes_bundle:
  "writes (tool_file P dir pass) r (bindS (add_device P r dir name pub pw days)
     (\<lambda>b. bindS (write_file r (in_dir out (name @ ''.p12'')) (p12 b)) (\<lambda>_. lift (Inr b))))"
proof (rule writes_bind_after [OF writes_add_device])
  fix fs b fs' assume "add_device P r dir name pub pw days fs = (Inr b, fs')"
  from add_device_bundle [OF this] obtain key c cas e where
    "ID_RE name" "make_p12 P name key c cas (BestAvailableEncryption e) = Inr (p12 b)" by blast
  then show "writes (tool_file P dir pass) r (bindS (write_file r (in_dir out (name @ ''.p12'')) (p12 b)) (\<lambda>_. lift (Inr b)))"
    by (intro writing tool_file_intros(4) bundle_file_name)
qed

text \<open>The passphrases \<open>main\<close> can have obtained, from the credential, the file or the terminal.\<close>

definition obtained :: "fs \<Rightarrow> pass_env \<Rightarrow> string \<Rightarrow> bool" where
  "obtained fs penv pw \<longleftrightarrow> (\<exists>confirm. get_passphrase fs penv confirm = Inr pw)"

lemma writesD:
  assumes "writes ok r m" "tmp_ok r fs" "m fs = (res, fs')"
  shows "tmp_ok r fs' \<and> (\<forall>p. fs' p = fs p \<or> (\<exists>d. fs' p = Some \<lparr>contents = d, st_mode = 384\<rparr> \<and> ok p d))"
  using assms unfolding writes_def by (metis snd_conv)

lemma writes_with_pass:
  assumes "\<And>pw. get_passphrase fs penv confirm = Inr pw \<Longrightarrow> writes ok r (f pw)" "tmp_ok r fs"
    and "bindS (\<lambda>fs. (get_passphrase fs penv confirm, fs)) f fs = (res, fs')"
  shows "\<forall>p. fs' p = fs p \<or> (\<exists>d. fs' p = Some \<lparr>contents = d, st_mode = 384\<rparr> \<and> ok p d)"
proof (cases "get_passphrase fs penv confirm")
  case (Inl e)
  with assms(3) show ?thesis by (simp add: bindS_def)
next
  case (Inr pw)
  with assms(3) have "f pw fs = (res, fs')" by (simp add: bindS_def)
  from writesD [OF assms(1) [OF Inr] assms(2) this] show ?thesis by blast
qed

lemma pair_main_writes:
  assumes tmp: "tmp_ok r fs" and run: "pair_main P r penv dir cmd fs = (ls, res, fs')"
  shows "fs' p = fs p \<or> (\<exists>d. fs' p = Some \<lparr>contents = d, st_mode = 384\<rparr> \<and> tool_file P dir (obtained fs penv) p d)"
proof (cases cmd)
  case (Init ip port target user force)
  let ?m = "bindS (\<lambda>fs. (get_passphrase fs penv True, fs)) (\<lambda>pw. init P r dir ip port target user pw force)"
  obtain x where m: "?m fs = (x, fs')" using run Init by (cases "?m fs") (auto simp: pair_main_def split: sum.splits)
  show ?thesis by (rule writes_with_pass [OF _ tmp m, THEN spec]) (rule writes_init, auto simp: obtained_def)
next
  case (AddDevice name key_file key out)
  let ?k = "case key_file of Some f \<Rightarrow> if f \<noteq> [] then read_file f else lift (Inr key) | None \<Rightarrow> lift (Inr key)"
  let ?m = "bindS ?k (\<lambda>pub. bindS (\<lambda>fs. (get_passphrase fs penv False, fs)) (\<lambda>pw. bindS (add_device P r dir name pub pw 365)
      (\<lambda>b. bindS (write_file r (in_dir out (name @ ''.p12'')) (p12 b)) (\<lambda>_. lift (Inr b)))))"
  obtain x where m: "?m fs = (x, fs')" using run AddDevice by (cases "?m fs") (auto simp: pair_main_def split: sum.splits)
  have "writes (tool_file P dir (obtained fs penv)) r ?m"
    by (intro writing writes_bundle)
  from writesD [OF this tmp m] show ?thesis by blast
next
  case ListDevices
  then have "fs' = fs" using run by (auto simp: pair_main_def split: sum.splits prod.splits)
  then show ?thesis by simp
next
  case (RevokeDevice name)
  obtain x where m: "revoke_device P r dir name fs = (x, fs')"
    using run RevokeDevice by (cases "revoke_device P r dir name fs") (auto simp: pair_main_def split: sum.splits)
  from writesD [OF writes_revoke_device tmp m] show ?thesis by blast
next
  case (RenewServer ip)
  let ?m = "bindS (\<lambda>fs. (get_passphrase fs penv False, fs)) (renew_server P r dir ip)"
  obtain x where m: "?m fs = (x, fs')" using run RenewServer by (cases "?m fs") (auto simp: pair_main_def split: sum.splits)
  show ?thesis by (rule writes_with_pass [OF _ tmp m, THEN spec]) (rule writes_renew_server, auto simp: obtained_def)
qed

text \<open>
  C19.  Keys at rest are encrypted.  Whatever command is run and whichever writes fail, a file that the
  set-up tool has changed is readable by its owner only, and it is a private key encrypted under the
  passphrase that was given, a certificate, the configuration, or the bundle of a device --- an
  unencrypted private key is never written, and no other file is touched.
\<close>

theorem tool_writes_encrypted:
  assumes "tmp_ok r fs" and "pair_main P r penv dir cmd fs = (ls, res, fs')"
  shows "fs' p = fs p \<or> (\<exists>d. fs' p = Some \<lparr>contents = d, st_mode = 384\<rparr> \<and> tool_file P dir (obtained fs penv) p d)"
  using assms by (rule pair_main_writes)

lemma tool_writes_encrypted_witness:
  "\<exists>ls res fs' d. pair_main toy_pki toy_tool toy_penv ''d'' (RevokeDevice ''phone1'')
      (toy_home [JObj (device_entry toy_pki toy_tool ''phone1'' 7 ''c'')]) = (ls, res, fs')
    \<and> fs' (in_dir ''d'' ''config.json'') = Some \<lparr>contents = d, st_mode = 384\<rparr>"
proof -
  let ?fs = "toy_home [JObj (device_entry toy_pki toy_tool ''phone1'' 7 ''c'')]"
  have "list_all plain [JObj (device_entry toy_pki toy_tool ''phone1'' 7 ''c'')]" by (simp add: plain_device_entry del: plain.simps)
  note h = toy_home [OF this]
  obtain ls res fs' where run: "pair_main toy_pki toy_tool toy_penv ''d'' (RevokeDevice ''phone1'') ?fs = (ls, res, fs')"
    by (cases "pair_main toy_pki toy_tool toy_penv ''d'' (RevokeDevice ''phone1'') ?fs")
  have "\<exists>d. ?fs (in_dir ''d'' ''config.json'') = Some \<lparr>contents = d, st_mode = 384\<rparr>"
    by (simp add: toy_home_def saved_def del: dumps_indent.simps)
  with tool_writes_encrypted [OF h(3) run, of "in_dir ''d'' ''config.json''"] run show ?thesis by auto
qed

end
