(* ===== verification/Sha256.thy ===== *)
theory Sha256
  imports AuditLog
begin

text \<open>
  \<^verbatim>\<open>hashlib.sha256\<close> on 32-bit words, and \<open>sha256_hex\<close> of \<^verbatim>\<open>src/common.py\<close> on top of it.  The log and the
  certificates take the hash as an argument; this is the function Python passes for it, and it meets
  the hypothesis \<open>hex_digests\<close> on its outputs.
\<close>

section \<open>Words and blocks\<close>

definition rotr :: "nat \<Rightarrow> 32 word \<Rightarrow> 32 word" where
  "rotr n w = drop_bit n w OR push_bit (32 - n) w"

text \<open>Four bytes make a word, the most significant first; a word makes four bytes.\<close>

definition be_word :: "bytes \<Rightarrow> 32 word" where
  "be_word bs = fold (\<lambda>c w. 256 * w + of_char c) bs 0"

definition be_bytes :: "nat \<Rightarrow> int \<Rightarrow> bytes" where
  "be_bytes k n = map (\<lambda>i. char_of (n div 256 ^ i)) (rev [0..<k])"

text \<open>A one bit, zeros up to eight bytes before the end of a block, and the length in bits as 8 bytes.\<close>

definition pad :: "bytes \<Rightarrow> bytes" where
  "pad m = m @ char_of (128 :: nat) # replicate (nat ((55 - int (length m)) mod 64)) (char_of (0 :: nat)) @ be_bytes 8 (8 * int (length m))"

fun pieces :: "nat \<Rightarrow> 'a list \<Rightarrow> 'a list list" where
  "pieces n [] = []"
| "pieces n (x # xs) = (x # take (n - 1) xs) # pieces n (drop (n - 1) xs)"

section \<open>The compression\<close>

definition round_constants :: "32 word list" where
  "round_constants = [
    1116352408, 1899447441, 3049323471, 3921009573, 961987163, 1508970993, 2453635748, 2870763221,
    3624381080, 310598401, 607225278, 1426881987, 1925078388, 2162078206, 2614888103, 3248222580,
    3835390401, 4022224774, 264347078, 604807628, 770255983, 1249150122, 1555081692, 1996064986,
    2554220882, 2821834349, 2952996808, 3210313671, 3336571891, 3584528711, 113926993, 338241895,
    666307205, 773529912, 1294757372, 1396182291, 1695183700, 1986661051, 2177026350, 2456956037,
    2730485921, 2820302411, 3259730800, 3345764771, 3516065817, 3600352804, 4094571909, 275423344,
    430227734, 506948616, 659060556, 883997877, 958139571, 1322822218, 1537002063, 1747873779,
    1955562222, 2024104815, 2227730452, 2361852424, 2428436474, 2756734187, 3204031479, 3329325298]"

definition initial_state :: "32 word list" where
  "initial_state = [1779033703, 3144134277, 1013904242, 2773480762, 1359893119, 2600822924, 528734635, 1541459225]"

text \<open>The schedule: the 16 words of the block, and \<open>n\<close> more.\<close>

fun schedule :: "nat \<Rightarrow> 32 word list \<Rightarrow> 32 word list" where
  "schedule 0 xs = xs"
| "schedule (Suc n) xs =
     (let t = length xs; x = xs ! (t - 15); y = xs ! (t - 2);
          s0 = rotr 7 x XOR rotr 18 x XOR drop_bit 3 x;
          s1 = rotr 17 y XOR rotr 19 y XOR drop_bit 10 y
      in schedule n (xs @ [xs ! (t - 16) + s0 + xs ! (t - 7) + s1]))"

text \<open>One round on the eight words of the state.\<close>

fun sha_round :: "32 word \<times> 32 word \<Rightarrow> 32 word list \<Rightarrow> 32 word list" where
  "sha_round (k, w) [a, b, c, d, e, f, g, h] =
     (let t1 = h + (rotr 6 e XOR rotr 11 e XOR rotr 25 e) + ((e AND f) XOR (NOT e AND g)) + k + w;
          t2 = (rotr 2 a XOR rotr 13 a XOR rotr 22 a) + ((a AND b) XOR (a AND c) XOR (b AND c))
      in [t1 + t2, a, b, c, d + t1, e, f, g])"
| "sha_round kw s = s"

definition sha_block :: "bytes \<Rightarrow> 32 word list \<Rightarrow> 32 word list" where
  "sha_block blk s = map2 (+) s (fold sha_round (zip round_constants (schedule 48 (map be_word (pieces 4 blk)))) s)"

definition sha256_digest :: "bytes \<Rightarrow> bytes" where
  "sha256_digest m = concat (map (\<lambda>w. be_bytes 4 (uint w)) (fold sha_block (pieces 64 (pad m)) initial_state))"

definition sha256_hex :: "bytes \<Rightarrow> string" where
  "sha256_hex m = to_hex (sha256_digest m)"

section \<open>Shape of the results\<close>

lemma length_be_bytes [simp]: "length (be_bytes k n) = k"
  by (simp add: be_bytes_def)

text \<open>The padded message consists of whole blocks and begins with the message.\<close>

lemma pad_blocks: "64 dvd length (pad m)" "take (length m) (pad m) = m"
proof -
  have "(int (length m) + 9 + (55 - int (length m)) mod 64) mod 64 = (int (length m) + 9 + (55 - int (length m))) mod 64"
    by (rule mod_add_right_eq)
  also have "\<dots> = 0" by simp
  also have "int (length m) + 9 + (55 - int (length m)) mod 64 = int (length (pad m))" by (simp add: pad_def)
  finally show "64 dvd length (pad m)" by (metis dvd_eq_mod_eq_0 int_dvd_int_iff of_nat_numeral)
qed (simp add: pad_def)

lemma length_sha_round [simp]: "length (sha_round kw s) = length s"
  by (cases "(kw, s)" rule: sha_round.cases) (simp_all add: Let_def)

lemma length_fold_same: "(\<And>x s. length (f x s) = length s) \<Longrightarrow> length (fold f xs s) = length s"
  by (induction xs arbitrary: s) simp_all

lemma length_sha_block [simp]: "length (sha_block blk s) = length s"
  by (simp add: sha_block_def length_fold_same)

lemma length_digest: "length (sha256_digest m) = 32"
  by (simp add: sha256_digest_def length_concat o_def sum_list_triv length_fold_same initial_state_def)

lemma to_hex_lower: "list_all is_hex_lower (to_hex bs)"
proof -
  have "is_hex_lower (hex_char n)" if "n < 16" for n
    using that by (auto simp: hex_char_def is_hex_lower_def is_digit_def)
  then show ?thesis by (auto simp: to_hex_def hex_byte_def list_all_iff intro!: byte_nibbles)
qed

definition python_hash :: "(rat \<Rightarrow> string) \<Rightarrow> hashing" where
  "python_hash fr = \<lparr>sha256 = sha256_hex, float_repr = fr\<rparr>"

lemma hex_digests_python: "hex_digests (python_hash fr)"
  by (simp add: hex_digests_def python_hash_def sha256_hex_def length_digest to_hex_lower)

text \<open>The log with this hash: what the program appended verifies, without any hypothesis on the hash.\<close>

lemma python_log_verifies:
  assumes "open_log (python_hash fr) path = Inr l" and "tamper_error l = None"
    and "ends_line (case path of None \<Rightarrow> [] | Some t \<Rightarrow> t)" and "list_all event_ok evs"
    and "l' = fold (append_event (python_hash fr)) evs l"
  shows "verify_file (python_hash fr) (log_file l') (take k (head l')) = Inr (True, seq l + length evs, head l', None)"
  using hex_digests_python assms by (rule audit_appends_verify)

text \<open>The test vector of the standard, by evaluation in the kernel (two minutes).\<close>

lemma sha256_abc: "sha256_hex ''abc'' = ''ba7816bf8f01cfea414140de5dae2223b00361a396177a9cb410ff61f20015ad''"
  by code_simp

end
