(* ===== verification/Notify.thy ===== *)
theory Notify
  imports Common
begin

text \<open>
  Out-of-band alerts, \<^verbatim>\<open>src/notify.py\<close>: the https guard and the three channels of \<open>Notifier.send_sync\<close>,
  for any JSON value in \<open>alerts\<close> of the configuration.

  The network is the parameter \<open>net\<close>: what building and sending a request and reading the answer
  comes to.  A call returns the notices it left, requests made and warnings logged in order, and
  its outcome.
\<close>

section \<open>Requests\<close>

record request =
  url :: string
  body :: bytes
  headers :: "(string \<times> string) list"

datatype notice = Posted request | Warned string

type_synonym net = "request \<Rightarrow> unit result"

definition https :: string where
  "https = ''https://''"

text \<open>\<open>_post\<close>; a value that is not a text has no \<open>startswith\<close>.\<close>

definition post :: "net \<Rightarrow> json \<Rightarrow> bytes \<Rightarrow> (string \<times> string) list \<Rightarrow> notice list \<times> unit result" where
  "post net u data hs =
     (case u of
        JStr u \<Rightarrow>
          if \<not> starts_with u https then ([], Inl ValueError)
          else (let r = \<lparr>url = u, body = data, headers = hs\<rparr> in ([Posted r], net r))
      | _ \<Rightarrow> ([], Inl AttributeError))"

definition to_ascii :: "string \<Rightarrow> string" where
  "to_ascii s = map (\<lambda>c. if is_ascii c then c else CHR ''?'') s"

section \<open>The notifier\<close>

text \<open>\<open>v.get(k)\<close> on a value that may not be an object.\<close>

definition get_of :: "json \<Rightarrow> string \<Rightarrow> json result" where
  "get_of v k = (case v of JObj d \<Rightarrow> Inr (jget d k) | _ \<Rightarrow> Inl AttributeError)"

definition notifier_cfg :: "json \<Rightarrow> json" where
  "notifier_cfg alerts = (if py_truthy alerts then alerts else JObj [])"

text \<open>\<open>v and v.get(k)\<close>, as a condition.\<close>

definition has_entry :: "json \<Rightarrow> string \<Rightarrow> bool result" where
  "has_entry v k = (if \<not> py_truthy v then Inr False else bindE (get_of v k) (\<lambda>w. Inr (py_truthy w)))"

text \<open>\<open>try: ... except Exception: log.warning(...)\<close>.\<close>

definition swallow :: "string \<Rightarrow> notice list \<times> unit result \<Rightarrow> notice list" where
  "swallow what r = (case snd r of Inl e \<Rightarrow> fst r @ [Warned what] | Inr u \<Rightarrow> fst r)"

text \<open>\<open>n.get('server', 'https://ntfy.sh').rstrip('/')\<close>.\<close>

definition ntfy_server :: "(string \<times> json) list \<Rightarrow> string result" where
  "ntfy_server n =
     (case map_of n ''server'' of
        None \<Rightarrow> Inr ''https://ntfy.sh''
      | Some (JStr s) \<Rightarrow> Inr (rstrip_by (\<lambda>c. c = CHR ''/'') s)
      | Some v \<Rightarrow> Inl AttributeError)"

definition ntfy_headers :: "(rat \<Rightarrow> string) \<Rightarrow> (string \<times> json) list \<Rightarrow> string \<Rightarrow> string \<Rightarrow> string list \<Rightarrow> (string \<times> string) list" where
  "ntfy_headers fr n title priority tags =
     [(''Title'', to_ascii title), (''Priority'', priority), (''Tags'', py_join '','' tags)]
     @ (if py_truthy (jget n ''token'') then [(''Authorization'', ''Bearer '' @ py_str fr (jget n ''token''))] else [])"

definition ntfy_channel :: "(rat \<Rightarrow> string) \<Rightarrow> net \<Rightarrow> json \<Rightarrow> string \<Rightarrow> string \<Rightarrow> string \<Rightarrow> string list \<Rightarrow> notice list result" where
  "ntfy_channel fr net n title message priority tags =
     bindE (has_entry n ''topic'') (\<lambda>on.
       Inr (case n of
              JObj d \<Rightarrow>
                if on
                then swallow ''ntfy alert failed''
                       (case ntfy_server d of
                          Inl e \<Rightarrow> ([], Inl e)
                        | Inr server \<Rightarrow>
                            post net (JStr (server @ ''/'' @ py_str fr (jget d ''topic''))) (utf8 message)
                              (ntfy_headers fr d title priority tags))
                else []
            | _ \<Rightarrow> []))"

definition json_header :: "(string \<times> string) list" where
  "json_header = [(''Content-Type'', ''application/json'')]"

definition telegram_channel :: "(rat \<Rightarrow> string) \<Rightarrow> net \<Rightarrow> json \<Rightarrow> string \<Rightarrow> string \<Rightarrow> notice list result" where
  "telegram_channel fr net t title message =
     bindE (has_entry t ''bot_token'') (\<lambda>token_set. bindE (if token_set then has_entry t ''chat_id'' else Inr False) (\<lambda>on.
       Inr (case t of
              JObj d \<Rightarrow>
                if on
                then swallow ''telegram alert failed''
                       (post net (JStr (''https://api.telegram.org/bot'' @ py_str fr (jget d ''bot_token'') @ ''/sendMessage''))
                          (dumps fr default_style (JObj [(''chat_id'', jget d ''chat_id''),
                             (''text'', JStr (title @ [newline_char] @ message))]))
                          json_header)
                else []
            | _ \<Rightarrow> [])))"

definition webhook_channel :: "(rat \<Rightarrow> string) \<Rightarrow> net \<Rightarrow> json \<Rightarrow> string \<Rightarrow> string \<Rightarrow> notice list" where
  "webhook_channel fr net w title message =
     (if py_truthy w
      then swallow ''webhook alert failed''
             (post net w (dumps fr default_style (JObj [(''text'', JStr (''*'' @ title @ ''*'' @ [newline_char] @ message))])) json_header)
      else [])"

text \<open>\<open>send_sync\<close>: the three channels in turn; only the conditions are outside the \<open>try\<close> blocks.\<close>

definition send_sync :: "(rat \<Rightarrow> string) \<Rightarrow> net \<Rightarrow> json \<Rightarrow> string \<Rightarrow> string \<Rightarrow> string \<Rightarrow> string list \<Rightarrow> notice list \<times> unit result" where
  "send_sync fr net cf title message priority tags =
     (case bindE (get_of cf ''ntfy'') (\<lambda>n. ntfy_channel fr net n title message priority tags) of
        Inl e \<Rightarrow> ([], Inl e)
      | Inr a \<Rightarrow>
          (case bindE (get_of cf ''telegram'') (\<lambda>t. telegram_channel fr net t title message) of
             Inl e \<Rightarrow> (a, Inl e)
           | Inr b \<Rightarrow>
               (case get_of cf ''webhook_url'' of
                  Inl e \<Rightarrow> (a @ b, Inl e)
                | Inr w \<Rightarrow> (a @ b @ webhook_channel fr net w title message, Inr ()))))"

text \<open>\<open>send\<close> on a notifier built from \<open>alerts\<close>: whatever is left is swallowed here.\<close>

definition send_alert :: "(rat \<Rightarrow> string) \<Rightarrow> net \<Rightarrow> json \<Rightarrow> string \<Rightarrow> string \<Rightarrow> string \<Rightarrow> string list \<Rightarrow> notice list" where
  "send_alert fr net alerts title message priority tags =
     swallow ''alert failed'' (send_sync fr net (notifier_cfg alerts) title message priority tags)"

section \<open>Only https\<close>

definition posts :: "notice list \<Rightarrow> request list" where
  "posts ns = concat (map (\<lambda>n. case n of Posted r \<Rightarrow> [r] | Warned w \<Rightarrow> []) ns)"

lemma posts_simps [simp]:
  "posts [] = []" "posts (Posted r # ns) = r # posts ns" "posts (Warned w # ns) = posts ns"
  "posts (a @ b) = posts a @ posts b"
  by (simp_all add: posts_def)

lemma posts_swallow [simp]: "posts (swallow w r) = posts (fst r)"
  by (simp add: swallow_def split: sum.split)

text \<open>What \<open>_post\<close> requests does not depend on what the network answers, and is https.\<close>

lemma posts_post:
  "posts (fst (post net u data hs)) =
    (case u of JStr u \<Rightarrow> if starts_with u https then [\<lparr>url = u, body = data, headers = hs\<rparr>] else [] | _ \<Rightarrow> [])"
  by (simp add: post_def Let_def split: json.split)

definition safe :: "request list \<Rightarrow> bool" where
  "safe rs \<longleftrightarrow> list_all (\<lambda>r. starts_with (url r) https) rs"

lemma safe_simps [simp]: "safe []" "safe (r # rs) = (starts_with (url r) https \<and> safe rs)" "safe (a @ b) = (safe a \<and> safe b)"
  by (simp_all add: safe_def)

lemma safe_post: "safe (posts (fst (post net u data hs)))"
  by (simp add: posts_post split: json.split)

text \<open>The channels do not look at each other's outcomes, and not at their own.\<close>

definition same_posts :: "notice list result \<Rightarrow> notice list result \<Rightarrow> bool" where
  "same_posts a b \<longleftrightarrow> (case (a, b) of (Inl e, Inl e') \<Rightarrow> e = e' | (Inr x, Inr y) \<Rightarrow> posts x = posts y \<and> safe (posts x) | _ \<Rightarrow> False)"

lemma ntfy_same: "same_posts (ntfy_channel fr net n t m p tg) (ntfy_channel fr net' n t m p tg)"
  by (cases "has_entry n ''topic''")
    (simp_all add: ntfy_channel_def same_posts_def posts_post safe_post split: json.split sum.split)

lemma telegram_same: "same_posts (telegram_channel fr net n t m) (telegram_channel fr net' n t m)"
  by (cases "has_entry n ''bot_token''"; cases "has_entry n ''chat_id''")
    (simp_all add: telegram_channel_def same_posts_def posts_post safe_post split: json.split)

lemma webhook_same:
  "posts (webhook_channel fr net w t m) = posts (webhook_channel fr net' w t m)"
  "safe (posts (webhook_channel fr net w t m))"
  by (simp_all add: webhook_channel_def posts_post split: json.split)

lemma send_sync_same:
  "posts (fst (send_sync fr net cf t m p tg)) = posts (fst (send_sync fr net' cf t m p tg))
    \<and> snd (send_sync fr net cf t m p tg) = snd (send_sync fr net' cf t m p tg)
    \<and> safe (posts (fst (send_sync fr net cf t m p tg)))"
proof (cases cf)
  case (JObj d)
  let ?n = "ntfy_channel fr net (jget d ''ntfy'') t m p tg" and ?n' = "ntfy_channel fr net' (jget d ''ntfy'') t m p tg"
  let ?t = "telegram_channel fr net (jget d ''telegram'') t m" and ?t' = "telegram_channel fr net' (jget d ''telegram'') t m"
  have n: "same_posts ?n ?n'" and tg: "same_posts ?t ?t'" by (rule ntfy_same, rule telegram_same)
  note w = webhook_same [of fr net "jget d ''webhook_url''" t m]
  show ?thesis
  proof (cases ?n)
    case (Inl e)
    with n show ?thesis by (simp add: JObj send_sync_def get_of_def same_posts_def split: sum.splits)
  next
    case (Inr a)
    with n obtain a' where a: "?n' = Inr a'" "posts a = posts a'" "safe (posts a)"
      by (cases ?n') (auto simp: same_posts_def)
    show ?thesis
    proof (cases ?t)
      case (Inl e)
      with tg have "?t' = Inl e" by (cases ?t') (simp_all add: same_posts_def)
      with Inl Inr a show ?thesis by (simp add: JObj send_sync_def get_of_def)
    next
      case (Inr b)
      with tg obtain b' where b: "?t' = Inr b'" "posts b = posts b'" "safe (posts b)"
        by (cases ?t') (auto simp: same_posts_def)
      with Inr \<open>?n = Inr a\<close> a w(2) show ?thesis
        by (simp add: JObj send_sync_def get_of_def w(1) [of net'])
    qed
  qed
qed (simp_all add: send_sync_def get_of_def)

text \<open>
  The channels alone: a configuration with one entry of \<open>d\<close>, and the values of an entry on which
  its condition does not raise.
\<close>

definition only :: "string \<Rightarrow> (string \<times> json) list \<Rightarrow> (string \<times> json) list" where
  "only k d = filter (\<lambda>x. fst x = k) d"

definition object_or_off :: "json \<Rightarrow> bool" where
  "object_or_off v = (case v of JObj d \<Rightarrow> True | _ \<Rightarrow> \<not> py_truthy v)"

lemma jget_only: "jget (only k d) k' = (if k' = k then jget d k else JNull)"
  by (induction d) (auto simp: only_def jget_def)

lemma ntfy_channel_off: "ntfy_channel fr net JNull t m p tg = Inr []"
  and telegram_channel_off: "telegram_channel fr net JNull t m = Inr []"
  and webhook_channel_off: "webhook_channel fr net JNull t m = []"
  by (simp_all add: ntfy_channel_def telegram_channel_def webhook_channel_def has_entry_def)

lemma has_entry_ok: "object_or_off v \<Longrightarrow> \<exists>b. has_entry v k = Inr b"
  by (cases v) (auto simp: object_or_off_def has_entry_def get_of_def ex_bool_eq)

lemma ntfy_channel_ok: "object_or_off v \<Longrightarrow> \<exists>a. ntfy_channel fr net v t m p tg = Inr a"
  using has_entry_ok [of v "''topic''"] by (auto simp: ntfy_channel_def)

lemma telegram_channel_ok: "object_or_off v \<Longrightarrow> \<exists>a. telegram_channel fr net v t m = Inr a"
  using has_entry_ok [of v "''bot_token''"] has_entry_ok [of v "''chat_id''"] by (auto simp: telegram_channel_def)

lemma send_alert_object:
  assumes "ntfy_channel fr net (jget d ''ntfy'') t m p tg = Inr a" "telegram_channel fr net (jget d ''telegram'') t m = Inr b"
  shows "send_alert fr net (JObj d) t m p tg = a @ b @ webhook_channel fr net (jget d ''webhook_url'') t m"
proof -
  have "notifier_cfg (JObj d) = JObj d" by (simp add: notifier_cfg_def)
  with assms show ?thesis by (simp add: send_alert_def send_sync_def get_of_def swallow_def)
qed

lemma send_alert_parts:
  assumes "object_or_off (jget d ''ntfy'')" "object_or_off (jget d ''telegram'')"
  shows "send_alert fr net (JObj d) t m p tg =
    send_alert fr net (JObj (only ''ntfy'' d)) t m p tg @ send_alert fr net (JObj (only ''telegram'' d)) t m p tg
      @ send_alert fr net (JObj (only ''webhook_url'' d)) t m p tg"
proof -
  obtain a b where ab: "ntfy_channel fr net (jget d ''ntfy'') t m p tg = Inr a" "telegram_channel fr net (jget d ''telegram'') t m = Inr b"
    using ntfy_channel_ok [OF assms(1)] telegram_channel_ok [OF assms(2)] by metis
  have "send_alert fr net (JObj (only ''ntfy'' d)) t m p tg = a"
    by (subst send_alert_object [where a = a and b = "[]"])
      (simp_all add: jget_only ab ntfy_channel_off telegram_channel_off webhook_channel_off)
  moreover have "send_alert fr net (JObj (only ''telegram'' d)) t m p tg = b"
    by (subst send_alert_object [where a = "[]" and b = b])
      (simp_all add: jget_only ab ntfy_channel_off telegram_channel_off webhook_channel_off)
  moreover have "send_alert fr net (JObj (only ''webhook_url'' d)) t m p tg = webhook_channel fr net (jget d ''webhook_url'') t m"
    by (subst send_alert_object [where a = "[]" and b = "[]"])
      (simp_all add: jget_only ab ntfy_channel_off telegram_channel_off webhook_channel_off)
  ultimately show ?thesis by (simp add: send_alert_object [OF ab])
qed

text \<open>
  C39.  Every request an alert makes goes to an https address, whatever stands in the configuration
  (redirects are followed inside the network call and are not seen here); the requests are the same
  whether the ones before them succeed, fail or raise; and when the entries for ntfy and Telegram
  are objects, or absent or empty, they are one after the other the requests that each channel's
  entry makes alone, so that neither the network nor the settings of one channel touch another.
  The last part needs its proviso: an entry of another kind silences all channels.
\<close>

theorem alerts_https_and_independent:
  "list_all (\<lambda>r. starts_with (url r) ''https://'') (posts (send_alert fr net alerts title message priority tags))
   \<and> posts (send_alert fr net alerts title message priority tags) = posts (send_alert fr net' alerts title message priority tags)
   \<and> (alerts = JObj d \<and> object_or_off (jget d ''ntfy'') \<and> object_or_off (jget d ''telegram'') \<longrightarrow>
        posts (send_alert fr net alerts title message priority tags) =
          posts (send_alert fr net' (JObj (only ''ntfy'' d)) title message priority tags)
          @ posts (send_alert fr net' (JObj (only ''telegram'' d)) title message priority tags)
          @ posts (send_alert fr net' (JObj (only ''webhook_url'' d)) title message priority tags))"
proof -
  have same: "posts (send_alert fr net alerts title message priority tags) = posts (send_alert fr net' alerts title message priority tags)"
    and s: "safe (posts (send_alert fr net alerts title message priority tags))"
    using send_sync_same [of fr net "notifier_cfg alerts" title message priority tags net']
    unfolding send_alert_def posts_swallow by blast+
  then show ?thesis
    using send_alert_parts [of d fr net' title message priority tags] by (auto simp: safe_def https_def)
qed

lemma alerts_https_and_independent_witness:
  "posts (send_alert (\<lambda>q. []) (\<lambda>r. Inl OSError)
      (JObj [(''ntfy'', JObj [(''topic'', JStr ''ru'')]), (''webhook_url'', JStr ''https://hooks'')]) ''Unlock'' ''text'' ''high'' [])
    = posts (send_alert (\<lambda>q. []) (\<lambda>r. Inr ()) (JObj [(''ntfy'', JObj [(''topic'', JStr ''ru'')])]) ''Unlock'' ''text'' ''high'' [])
      @ posts (send_alert (\<lambda>q. []) (\<lambda>r. Inr ()) (JObj [(''webhook_url'', JStr ''https://hooks'')]) ''Unlock'' ''text'' ''high'' [])"
  (is "posts (send_alert ?fr ?net (JObj ?d) _ _ _ _) = _")
proof -
  have o: "only ''ntfy'' ?d = [(''ntfy'', JObj [(''topic'', JStr ''ru'')])]" "only ''telegram'' ?d = []"
    "only ''webhook_url'' ?d = [(''webhook_url'', JStr ''https://hooks'')]" by (simp_all add: only_def)
  have j: "object_or_off (jget ?d ''ntfy'')" "object_or_off (jget ?d ''telegram'')" by (simp_all add: jget_def object_or_off_def)
  have e: "posts (send_alert ?fr (\<lambda>r. Inr ()) (JObj []) ''Unlock'' ''text'' ''high'' []) = []"
    by (subst send_alert_object [where a = "[]" and b = "[]"])
      (simp_all add: jget_def ntfy_channel_off telegram_channel_off webhook_channel_off)
  from alerts_https_and_independent [of ?fr ?net "JObj ?d" "''Unlock''" "''text''" "''high''" "[]" "\<lambda>r. Inr ()" ?d,
      THEN conjunct2, THEN conjunct2] j
  show ?thesis by (simp only: o e refl simp_thms append_Nil)
qed

section \<open>Delivery\<close>

lemma json_body: "plain v \<Longrightarrow> loads (dumps fr default_style v) = Some v"
  using wire.dec_enc [of v fr] by simp

lemma deliver_all:
  assumes "dict_ok alerts" and n: "map_of alerts ''ntfy'' = Some (JObj [(''server'', JStr s), (''topic'', JStr tp), (''token'', JNull)])"
    and t: "map_of alerts ''telegram'' = Some (JObj [(''bot_token'', JStr tok), (''chat_id'', JStr chat)])"
    and w: "map_of alerts ''webhook_url'' = Some (JStr hook)"
    and "starts_with (rstrip_by (\<lambda>c. c = CHR ''/'') s) https" "starts_with hook https" "tp \<noteq> []" "tok \<noteq> []" "chat \<noteq> []"
  shows "\<exists>r1 r2 r3. posts (send_alert fr net (JObj alerts) title message priority tags) = [r1, r2, r3]
    \<and> body r1 = utf8 message
    \<and> loads (body r2) = Some (JObj [(''chat_id'', JStr chat), (''text'', JStr (title @ [newline_char] @ message))])
    \<and> url r3 = hook \<and> loads (body r3) = Some (JObj [(''text'', JStr (''*'' @ title @ ''*'' @ [newline_char] @ message))])"
proof -
  have a: "alerts \<noteq> []" "hook \<noteq> []" using n assms(6) by (auto simp: https_def)
  have u: "starts_with (rstrip_by (\<lambda>c. c = CHR ''/'') s @ CHR ''/'' # tp) https"
    using assms(5) by (auto simp: starts_with_iff)
  have v: "starts_with (''https://api.telegram.org/bot'' @ x) https" for x
    by (simp add: https_def)
  define b2 where "b2 = dumps fr default_style (JObj [(''chat_id'', JStr chat), (''text'', JStr (title @ [newline_char] @ message))])"
  define b3 where "b3 = dumps fr default_style (JObj [(''text'', JStr (''*'' @ title @ ''*'' @ [newline_char] @ message))])"
  have b: "loads b2 = Some (JObj [(''chat_id'', JStr chat), (''text'', JStr (title @ [newline_char] @ message))])"
      "loads b3 = Some (JObj [(''text'', JStr (''*'' @ title @ ''*'' @ [newline_char] @ message))])"
    unfolding b2_def b3_def by (rule json_body, simp add: dict_ok_def)+
  have "\<exists>h1 r2 r3. posts (send_alert fr net (JObj alerts) title message priority tags)
      = [\<lparr>url = rstrip_by (\<lambda>c. c = CHR ''/'') s @ CHR ''/'' # tp, body = utf8 message, headers = h1\<rparr>, r2, r3]
    \<and> body r2 = b2 \<and> url r3 = hook \<and> body r3 = b3"
    unfolding b2_def b3_def using n t w assms(5-) a u v
    by (simp add: send_alert_def send_sync_def notifier_cfg_def get_of_def jget_def ntfy_channel_def telegram_channel_def
      webhook_channel_def has_entry_def ntfy_server_def posts_post py_str_def del: dumps_JObj)
  with b show ?thesis by fastforce
qed

text \<open>
  A complete configuration alerts on every channel: with an ntfy topic, a Telegram bot and a
  webhook, an alert is one request to each, in this order; the ntfy request carries the message
  itself, and the other two bodies are JSON that decodes to the title and the message.
\<close>

theorem alert_reaches_every_channel:
  assumes "dict_ok alerts" and "map_of alerts ''ntfy'' = Some (JObj [(''server'', JStr s), (''topic'', JStr tp), (''token'', JNull)])"
    and "map_of alerts ''telegram'' = Some (JObj [(''bot_token'', JStr tok), (''chat_id'', JStr chat)])"
    and "map_of alerts ''webhook_url'' = Some (JStr hook)"
    and "starts_with (rstrip_by (\<lambda>c. c = CHR ''/'') s) https" "starts_with hook https" "tp \<noteq> []" "tok \<noteq> []" "chat \<noteq> []"
  shows "\<exists>r1 r2 r3. posts (send_alert fr net (JObj alerts) title message priority tags) = [r1, r2, r3]
    \<and> body r1 = utf8 message
    \<and> loads (body r2) = Some (JObj [(''chat_id'', JStr chat), (''text'', JStr (title @ [newline_char] @ message))])
    \<and> url r3 = hook \<and> loads (body r3) = Some (JObj [(''text'', JStr (''*'' @ title @ ''*'' @ [newline_char] @ message))])"
  using assms by (rule deliver_all)

lemma alert_reaches_every_channel_witness:
  "\<exists>r1 r2 r3. posts (send_alert (\<lambda>q. []) (\<lambda>r. Inl OSError)
      (JObj [(''ntfy'', JObj [(''server'', JStr ''https://ntfy.sh/''), (''topic'', JStr ''ru''), (''token'', JNull)]),
             (''telegram'', JObj [(''bot_token'', JStr ''1:A''), (''chat_id'', JStr ''7'')]),
             (''webhook_url'', JStr ''https://hooks'')]) ''Unlock'' ''text'' ''high'' [''unlock'']) = [r1, r2, r3] \<and> body r1 = ''text''"
proof -
  have "starts_with (rstrip_by (\<lambda>c. c = CHR ''/'') ''https://ntfy.sh/'') https" "starts_with ''https://hooks'' https"
    by code_simp+
  moreover have "utf8 ''text'' = ''text''" by code_simp
  ultimately show ?thesis
    using alert_reaches_every_channel [where alerts = "[(''ntfy'', JObj [(''server'', JStr ''https://ntfy.sh/''), (''topic'', JStr ''ru''), (''token'', JNull)]),
             (''telegram'', JObj [(''bot_token'', JStr ''1:A''), (''chat_id'', JStr ''7'')]),
             (''webhook_url'', JStr ''https://hooks'')]" and s = "''https://ntfy.sh/''" and tp = "''ru''" and tok = "''1:A''" and chat = "''7''"
        and hook = "''https://hooks''" and fr = "\<lambda>q. []" and net = "\<lambda>r. Inl OSError" and title = "''Unlock''"
        and message = "''text''" and priority = "''high''" and tags = "[''unlock'']"]
    by (simp add: dict_ok_def) blast
qed

text \<open>
  A value of the wrong kind silences every channel: when \<open>ntfy\<close> is a text instead of an object, the
  condition raises before Telegram and the webhook are looked at.
\<close>

lemma bad_ntfy_silences_all:
  assumes "map_of alerts ''ntfy'' = Some (JStr s)" and "s \<noteq> []"
  shows "send_alert fr net (JObj alerts) title message priority tags = [Warned ''alert failed'']"
proof -
  have "alerts \<noteq> []" using assms(1) by auto
  with assms show ?thesis
    by (simp add: send_alert_def send_sync_def notifier_cfg_def get_of_def jget_def ntfy_channel_def has_entry_def swallow_def)
qed

end
