(* ===== verification/Anchors.thy ===== *)
theory Anchors
  imports System Notify
begin

text \<open>
  Alerts as anchors of the audit log: the messages the service raises go through the notifier of
  the configuration, and the number and the head they carry are those the log file then verifies
  against.
\<close>

section \<open>From the service to the network\<close>

text \<open>What becomes of the effects of a step: \<open>_alert\<close> hands its arguments to \<open>Notifier.send\<close>.\<close>

definition delivered :: "(rat \<Rightarrow> string) \<Rightarrow> net \<Rightarrow> json \<Rightarrow> effect list \<Rightarrow> notice list" where
  "delivered fr net alerts es =
     concat (map (\<lambda>e. case e of Alerted t b p g \<Rightarrow> send_alert fr net alerts t b p g | _ \<Rightarrow> []) es)"

lemma delivered_simps [simp]:
  "delivered fr net a [] = []"
  "delivered fr net a (Alerted t b p g # es) = send_alert fr net a t b p g @ delivered fr net a es"
  "delivered fr net a (Audited ev data # es) = delivered fr net a es"
  "delivered fr net a (Sent c m # es) = delivered fr net a es"
  by (simp_all add: delivered_def)

section \<open>Recording an event\<close>

definition anchor :: "('sk, 'pk) ext \<Rightarrow> (string \<times> json) list \<Rightarrow> nat \<Rightarrow> string \<Rightarrow> string" where
  "anchor E data k h = data_text E data @ [newline_char] @ ''audit #'' @ show_nat k @ '' head='' @ take 16 h"

lemma record_event_anchor:
  assumes "disk_ok env" "log_ok E (audit s)" "plain (JObj data)" "t \<noteq> []"
  obtains l where "record_event E env ev (Some t) priority tags data s
      = (Inr (seq l, head l), s\<lparr>audit := l, out := out s @ [Audited ev data, Alerted t (anchor E data (seq l) (head l)) priority tags]\<rparr>)"
    and "log_ok E l"
proof -
  have "\<exists>l. append_entry E True (stamp env) ev data (audit s) = (l, Inr (seq l, head l))"
    by (simp add: append_entry_def Let_def)
  then obtain l where e: "append_entry E True (stamp env) ev data (audit s) = (l, Inr (seq l, head l))" by blast
  then have "record_event E env ev (Some t) priority tags data s
      = (Inr (seq l, head l), s\<lparr>audit := l, out := out s @ [Audited ev data, Alerted t (anchor E data (seq l) (head l)) priority tags]\<rparr>)"
    using assms(1,4) by (simp add: record_event_def append_audit_def bindS_def alert_def emit_def anchor_def Let_def)
  moreover have "log_ok E l" using log_ok_append [OF assms(2,3), of "stamp env" ev] e by simp
  ultimately show ?thesis by (rule that)
qed

section \<open>An accepted unlock\<close>

lemma accepted_anchor:
  assumes "accepted_nonce E env d f s = Some n" "disk_ok env" "log_ok E (audit s)"
  obtains l where "handle_frame E env c (AwaitResponse ip d) f s =
      (Leaving, (authorized_state env ip (dev_id d) n s)\<lparr>audit := l,
         out := out s @ [Audited ''unlock_authorized'' (authorized_data ip (dev_id d) s),
                         Alerted ''Unlock AUTHORIZED'' (anchor E (authorized_data ip (dev_id d) s) (seq l) (head l)) ''high'' [''unlock''],
                         Sent c (result_msg True)]\<rparr>)"
    and "log_ok E l"
proof -
  let ?s = "authorized_state env ip (dev_id d) n s" and ?data = "authorized_data ip (dev_id d) s"
  have a: "audit ?s = audit s" "out ?s = out s" by (simp_all add: authorized_state_def)
  have log': "log_ok E (audit ?s)" using assms(3) by (simp add: a)
  have p: "plain (JObj ?data)" by (simp add: authorized_data_def dict_ok_def)
  obtain l where "record_event E env ''unlock_authorized'' (Some ''Unlock AUTHORIZED'') ''high'' [''unlock''] ?data ?s
      = (Inr (seq l, head l), ?s\<lparr>audit := l, out := out ?s @ [Audited ''unlock_authorized'' ?data,
          Alerted ''Unlock AUTHORIZED'' (anchor E ?data (seq l) (head l)) ''high'' [''unlock'']]\<rparr>)" "log_ok E l"
    using record_event_anchor [OF assms(2) log' p, of "''Unlock AUTHORIZED''" "''unlock_authorized''" "''high''" "[''unlock'']"] by blast
  then show ?thesis
    by (intro that [of l]) (simp_all add: handle_frame_def accepted_authorizes [OF assms(1)] authorize_eq guarded_def bindS_def emit_def a)
qed

text \<open>
  C12.  An unlock is announced and anchored: when a response is accepted on a service whose log is
  intact and can be written, each of the three channels of the configuration gets one request, its message names the
  address, the device and the target and ends with a number and sixteen digits, and the log file
  left behind verifies against exactly these digits as the anchor, with that number of entries.
\<close>

theorem unlock_alert_anchors_log:
  assumes log: "log_ok E (audit s)" and "hex_digests E" and acc: "accepted_nonce E env d f s = Some n" "disk_ok env"
    and alerts: "dict_ok alerts" "map_of alerts ''ntfy'' = Some (JObj [(''server'', JStr sv), (''topic'', JStr tp), (''token'', JNull)])"
      "map_of alerts ''telegram'' = Some (JObj [(''bot_token'', JStr tok), (''chat_id'', JStr chat)])"
      "map_of alerts ''webhook_url'' = Some (JStr hook)"
      "starts_with (rstrip_by (\<lambda>c. c = CHR ''/'') sv) https" "starts_with hook https" "tp \<noteq> []" "tok \<noteq> []" "chat \<noteq> []"
  shows "\<exists>v r1 r2 r3 k h m. handle_frame E env c (AwaitResponse ip d) f s = (Leaving, v)
    \<and> posts (delivered fr net (JObj alerts) (drop (length (out s)) (out v))) = [r1, r2, r3]
    \<and> m = anchor E (authorized_data ip (dev_id d) s) k h
    \<and> body r1 = utf8 m
    \<and> loads (body r2) = Some (JObj [(''chat_id'', JStr chat), (''text'', JStr (''Unlock AUTHORIZED'' @ [newline_char] @ m))])
    \<and> loads (body r3) = Some (JObj [(''text'', JStr (''*Unlock AUTHORIZED*'' @ [newline_char] @ m))])
    \<and> verify_file E (log_file (audit v)) (take 16 h) = Inr (True, k, h, None)"
proof -
  obtain l where "handle_frame E env c (AwaitResponse ip d) f s =
      (Leaving, (authorized_state env ip (dev_id d) n s)\<lparr>audit := l,
         out := out s @ [Audited ''unlock_authorized'' (authorized_data ip (dev_id d) s),
                         Alerted ''Unlock AUTHORIZED'' (anchor E (authorized_data ip (dev_id d) s) (seq l) (head l)) ''high'' [''unlock''],
                         Sent c (result_msg True)]\<rparr>)" "log_ok E l"
    by (rule accepted_anchor [OF acc log])
  moreover from deliver_all [OF alerts, where fr = fr and net = net and title = "''Unlock AUTHORIZED''"
      and message = "anchor E (authorized_data ip (dev_id d) s) (seq l) (head l)" and priority = "''high''" and tags = "[''unlock'']"]
  obtain r1 r2 r3 where "posts (send_alert fr net (JObj alerts) ''Unlock AUTHORIZED'' (anchor E (authorized_data ip (dev_id d) s) (seq l) (head l))
      ''high'' [''unlock'']) = [r1, r2, r3]" "body r1 = utf8 (anchor E (authorized_data ip (dev_id d) s) (seq l) (head l))"
    "loads (body r2) = Some (JObj [(''chat_id'', JStr chat), (''text'', JStr (''Unlock AUTHORIZED'' @ [newline_char] @ anchor E (authorized_data ip (dev_id d) s) (seq l) (head l)))])"
    "loads (body r3) = Some (JObj [(''text'', JStr (''*Unlock AUTHORIZED*'' @ [newline_char] @ anchor E (authorized_data ip (dev_id d) s) (seq l) (head l)))])"
    by auto
  moreover have "verify_file E (log_file l) (take 16 (head l)) = Inr (True, seq l, head l, None)" if "log_ok E l"
    using that assms(2) by (rule verify_intact)
  ultimately show ?thesis by (intro exI conjI) (assumption | simp)+
qed

definition toy_hex :: "(nat, nat) ext" where
  "toy_hex = toy_ext\<lparr>sha256 := (\<lambda>_. replicate 64 (CHR ''a''))\<rparr>"

lemma toy_hex_accepted: "accepted_nonce toy_hex (toy_env 3) toy_device toy_frame toy_pending_service = Some toy_nonce"
proof -
  let ?m = "PROTO @ ''|response|'' @ toy_nonce @ ''|1000|phone1|laptop|unlock''"
  have v: "verify_sig toy_hex 5 ?m (JStr (sign toy_ext 5 ?m)) = Inr True" and k: "load_public_key toy_hex ''BEGIN'' = Inr 5"
    by code_simp+
  have n: "NONCE_RE toy_nonce" by (simp add: toy_nonce_def)
  have "fst (check_response toy_hex (toy_env 3) toy_device (JStr toy_nonce) (JStr (sign toy_ext 5 ?m)) toy_pending_service) = Inr None"
    unfolding check_response_accepts using toy_message k v n
    by (simp add: toy_pending_service_def toy_device_def toy_env_def toy_service_def new_service_def toy_config_def Let_def)
  then show ?thesis by (simp add: accepted_nonce_def toy_frame_json jget_def)
qed

lemma unlock_alert_anchors_log_witness:
  "\<exists>v r1 r2 r3 k h. handle_frame toy_hex (toy_env 3) 1 (AwaitResponse ''ip'' toy_device) toy_frame toy_pending_service = (Leaving, v)
    \<and> posts (delivered (\<lambda>q. []) (\<lambda>r. Inl OSError)
        (JObj [(''ntfy'', JObj [(''server'', JStr ''https://ntfy.sh/''), (''topic'', JStr ''ru''), (''token'', JNull)]),
               (''telegram'', JObj [(''bot_token'', JStr ''1:A''), (''chat_id'', JStr ''7'')]),
               (''webhook_url'', JStr ''https://hooks'')])
        (drop (length (out toy_pending_service)) (out v))) = [r1, r2, r3]
    \<and> verify_file toy_hex (log_file (audit v)) (take 16 h) = Inr (True, k, h, None)"
proof -
  have "log_ok toy_hex (audit toy_pending_service)"
    by (simp add: toy_pending_service_def toy_service_def new_service_def Let_def)
  moreover have "hex_digests toy_hex" by (simp add: hex_digests_def toy_hex_def list_all_iff is_hex_lower_def)
  moreover have "accepted_nonce toy_hex (toy_env 3) toy_device toy_frame toy_pending_service = Some toy_nonce" by (rule toy_hex_accepted)
  moreover have "disk_ok (toy_env 3)" by (simp add: toy_env_def)
  moreover have "starts_with (rstrip_by (\<lambda>c. c = CHR ''/'') ''https://ntfy.sh/'') https" "starts_with ''https://hooks'' https"
    by code_simp+
  ultimately show ?thesis
    using unlock_alert_anchors_log [where E = toy_hex and s = toy_pending_service and env = "toy_env 3" and d = toy_device
        and f = toy_frame and n = toy_nonce and alerts = "[(''ntfy'', JObj [(''server'', JStr ''https://ntfy.sh/''), (''topic'', JStr ''ru''), (''token'', JNull)]),
             (''telegram'', JObj [(''bot_token'', JStr ''1:A''), (''chat_id'', JStr ''7'')]),
             (''webhook_url'', JStr ''https://hooks'')]" and sv = "''https://ntfy.sh/''" and tp = "''ru''" and tok = "''1:A''" and chat = "''7''"
        and hook = "''https://hooks''" and fr = "\<lambda>q. []" and net = "\<lambda>r. Inl OSError" and ip = "''ip''" and c = 1]
    by (simp add: dict_ok_def) blast
qed

end
