(* ===== verification/AuditTail.thy ===== *)
theory AuditTail
  imports AuditLog
begin

text \<open>
  The commands of \<^verbatim>\<open>src/audit.py\<close>; \<open>tail\<close> prints the last entries of the log without verifying
  them.
\<close>

section \<open>The command\<close>

text \<open>
  \<open>str.splitlines\<close> on the text that \<open>read_text\<close> returns; the translation of newlines makes no
  difference, since it only merges or replaces line breaks.
\<close>

definition line_break :: "char \<Rightarrow> bool" where
  "line_break c \<longleftrightarrow> (let n = (of_char c :: nat) in (10 \<le> n \<and> n \<le> 13) \<or> (28 \<le> n \<and> n \<le> 30) \<or> n = 133)"

fun splitlines :: "string \<Rightarrow> string \<Rightarrow> string list" where
  "splitlines cur [] = (if cur = [] then [] else [cur])"
| "splitlines cur (c # s) =
     (if c = CHR 0x0D
      then (case s of
              [] \<Rightarrow> [cur]
            | d # s' \<Rightarrow> if d = newline_char then cur # splitlines [] s' else cur # splitlines [] s)
      else if line_break c then cur # splitlines [] s
      else splitlines (cur @ [c]) s)"

text \<open>\<open>lines[-n:]\<close>.\<close>

definition from_end :: "int \<Rightarrow> 'a list \<Rightarrow> 'a list" where
  "from_end n xs = (if n > 0 then drop (length xs - nat n) xs else drop (nat (- n)) xs)"

definition tail_line :: "(rat \<Rightarrow> string) \<Rightarrow> json \<Rightarrow> string result" where
  "tail_line fr e =
     bindE (subscript e ''seq'') (\<lambda>sq.
     bindE (subscript e ''ts'') (\<lambda>ts.
     bindE (subscript e ''event'') (\<lambda>ev.
     bindE (subscript e ''data'') (\<lambda>data.
       Inr (py_str fr sq @ '' '' @ py_str fr ts @ '' '' @ py_str fr ev @ '' '' @ dumps fr default_style data)))))"

text \<open>The lines printed before the first that fails, and the exit status or the exception.\<close>

fun tail_print :: "(rat \<Rightarrow> string) \<Rightarrow> string list \<Rightarrow> string list \<times> int result" where
  "tail_print fr [] = ([], Inr 0)"
| "tail_print fr (line # ls) =
     (case bindE (case loads line of None \<Rightarrow> Inl JSONDecodeError | Some v \<Rightarrow> Inr v) (tail_line fr) of
        Inl e \<Rightarrow> ([], Inl e)
      | Inr l \<Rightarrow> (let (ls, r) = tail_print fr ls in (l # ls, r)))"

definition cmd_tail :: "(rat \<Rightarrow> string) \<Rightarrow> string option \<Rightarrow> int \<Rightarrow> string list \<times> int result" where
  "cmd_tail fr path n =
     (case path of
        None \<Rightarrow> ([], Inl FileNotFoundError)
      | Some t \<Rightarrow> tail_print fr (from_end n (splitlines [] t)))"

section \<open>The commands\<close>

text \<open>The arguments of \<open>_main\<close>: a path and an anchor that are not given are empty.\<close>

datatype audit_cmd = VerifyCmd string string | TailCmd string int

definition audit_path :: "string \<Rightarrow> string \<Rightarrow> string" where
  "audit_path state arg = (if arg \<noteq> [] then arg else state @ ''/audit.log'')"

definition audit_main :: "'a hashing_scheme \<Rightarrow> fs \<Rightarrow> string \<Rightarrow> audit_cmd \<Rightarrow> string list \<times> int result" where
  "audit_main E fs state c =
     (case c of
        VerifyCmd arg expected_head \<Rightarrow>
          (case cmd_verify E (map_option contents (fs (audit_path state arg))) expected_head of
             Inl e \<Rightarrow> ([], Inl e)
           | Inr (line, status) \<Rightarrow> ([line], Inr status))
      | TailCmd arg n \<Rightarrow> cmd_tail (float_repr E) (map_option contents (fs (audit_path state arg))) n)"

text \<open>The exit status of \<open>verify\<close> says whether the file verifies.\<close>

lemma audit_main_verify:
  "snd (audit_main E fs state (VerifyCmd arg expected)) = Inr 0 \<longleftrightarrow>
    (\<exists>n hd err. verify_file E (map_option contents (fs (audit_path state arg))) expected = Inr (True, n, hd, err))"
  by (auto simp: audit_main_def cmd_verify_def bindE_eq_Inr split: sum.splits prod.splits)

text \<open>The log the service writes is found without an argument: a missing file verifies as an empty one.\<close>

lemma audit_main_missing:
  "fs (state @ ''/audit.log'') = None \<Longrightarrow>
    audit_main E fs state (VerifyCmd [] expected) = ([''OK: 0 entries, head='' @ GENESIS], Inr 0)"
  by (simp add: audit_main_def audit_path_def cmd_verify_def verify_file_def)

section \<open>What it shows of a log the program wrote\<close>

lemma printable_no_break: "printable c \<Longrightarrow> c \<noteq> CHR 0x0D \<and> \<not> line_break c"
  by (auto simp: printable_def line_break_def Let_def)

lemma splitlines_line: "list_all printable l \<Longrightarrow> splitlines cur (l @ newline_char # s) = (cur @ l) # splitlines [] s"
proof (induction l arbitrary: cur)
  case Nil
  show ?case by (simp add: line_break_def)
next
  case (Cons c l)
  then show ?case using printable_no_break [of c] by simp
qed

lemma splitlines_lines: "list_all (list_all printable) ls \<Longrightarrow> splitlines [] (concat (map (\<lambda>l. l @ [newline_char]) ls)) = ls"
  by (induction ls) (simp_all add: splitlines_line)

fun entry_lines :: "'a hashing_scheme \<Rightarrow> nat \<Rightarrow> string \<Rightarrow> event list \<Rightarrow> string list" where
  "entry_lines E sq prev [] = []"
| "entry_lines E sq prev ((ts, event, data) # evs) =
     entry_line E (Suc sq) ts event data prev # entry_lines E (Suc sq) (entry_digest E (Suc sq) ts event data prev) evs"

fun shown :: "(rat \<Rightarrow> string) \<Rightarrow> nat \<Rightarrow> event list \<Rightarrow> string list" where
  "shown fr sq [] = []"
| "shown fr sq ((ts, event, data) # evs) =
     (show_int (int (Suc sq)) @ '' '' @ ts @ '' '' @ event @ '' '' @ dumps fr default_style (jnorm True (JObj data)))
       # shown fr (Suc sq) evs"

lemma appended_text:
  "log_file l = Some t \<Longrightarrow>
    log_file (fold (append_event E) evs l) = Some (t @ concat (map (\<lambda>x. x @ [newline_char]) (entry_lines E (seq l) (head l) evs)))"
  by (induction E "seq l" "head l" evs arbitrary: l t rule: entry_lines.induct) (simp_all add: append_event_def append_entry_eq)

lemma entry_lines_printable: "list_all event_ok evs \<Longrightarrow> list_all (list_all printable) (entry_lines E sq prev evs)"
  by (induction E sq prev evs rule: entry_lines.induct)
    (simp_all add: event_ok_def entry_line_def Let_def canon_text_printable plain_log_entry del: plain.simps)

lemma shown_lines:
  "list_all event_ok evs \<Longrightarrow>
    list_all2 (\<lambda>line s. \<exists>v. loads line = Some v \<and> tail_line fr v = Inr s) (entry_lines E sq prev evs) (shown fr sq evs)"
  by (induction E sq prev evs rule: entry_lines.induct)
    (simp_all add: event_ok_def loads_entry_line tail_line_def subscript_def jitem_def py_str_def del: plain.simps jnorm_JObj)

lemma tail_print_all2:
  "list_all2 (\<lambda>line s. \<exists>v. loads line = Some v \<and> tail_line fr v = Inr s) ls ss \<Longrightarrow> tail_print fr ls = (ss, Inr 0)"
  by (induction rule: list_all2_induct) auto

lemma from_end_all2: "list_all2 P xs ys \<Longrightarrow> list_all2 P (from_end n xs) (from_end n ys)"
  by (simp add: from_end_def list_all2_dropI list_all2_lengthD)

lemma tail_shows:
  assumes "log_file l = Some []" and "list_all event_ok evs"
  shows "cmd_tail fr (log_file (fold (append_event E) evs l)) n = (from_end n (shown fr (seq l) evs), Inr 0)"
  using tail_print_all2 [OF from_end_all2 [OF shown_lines [OF assms(2), of fr E "seq l" "head l"], of n]]
  by (simp add: cmd_tail_def appended_text [OF assms(1)] splitlines_lines entry_lines_printable [OF assms(2)])

lemma length_shown [simp]: "length (shown fr sq evs) = length evs"
  by (induction fr sq evs rule: shown.induct) simp_all

text \<open>
  \<open>tail\<close> shows what was recorded: on a log that was created empty and then appended to, it
  prints, for a positive number, that many of the latest entries in their order, each with its
  number, time stamp, event and data, and ends with status 0.
\<close>

theorem tail_shows_latest:
  assumes "log_file l = Some []" and "list_all event_ok evs" and "0 < n"
  shows "cmd_tail fr (log_file (fold (append_event E) evs l)) n
    = (drop (length evs - nat n) (shown fr (seq l) evs), Inr 0)"
  using tail_shows [OF assms(1,2), of fr E n] assms(3) by (simp add: from_end_def)

lemma tail_shows_latest_witness:
  "cmd_tail (\<lambda>_. []) (log_file (fold (append_event toy_hash) [(''t'', ''a'', []), (''u'', ''b'', [])] (empty_log\<lparr>log_file := Some []\<rparr>))) 1
    = ([''2 u b {}''], Inr 0)"
proof -
  have "log_file (empty_log\<lparr>log_file := Some []\<rparr>) = Some []" "list_all event_ok [(''t'', ''a'', []), (''u'', ''b'', [])]" "0 < (1 :: int)"
    by (simp_all add: event_ok_def dict_ok_def)
  moreover have "drop 1 (shown (\<lambda>_. []) 0 [(''t'', ''a'', []), (''u'', ''b'', [])]) = [''2 u b {}'']" by code_simp
  ultimately show ?thesis
    using tail_shows_latest [of "empty_log\<lparr>log_file := Some []\<rparr>" "[(''t'', ''a'', []), (''u'', ''b'', [])]" 1 "\<lambda>_. []" toy_hash]
    by (simp add: empty_log_def)
qed

text \<open>With \<^verbatim>\<open>-n 0\<close> the slice begins at the front: the whole log is printed.\<close>

lemma tail_zero_shows_all:
  "log_file l = Some [] \<Longrightarrow> list_all event_ok evs \<Longrightarrow>
    cmd_tail fr (log_file (fold (append_event E) evs l)) 0 = (shown fr (seq l) evs, Inr 0)"
  using tail_shows [of l evs fr E 0] by (simp add: from_end_def)

end
