(* ===== verification/WinSecrets.thy ===== *)
theory WinSecrets
  imports Common Pretty
begin

text \<open>
  Secrets at rest of the Windows build: \<open>derive_key\<close>, \<open>encrypt_secret\<close> of
  \<^verbatim>\<open>src/windows/pair_windows.py\<close> and \<open>decrypt_secret\<close> of \<^verbatim>\<open>src/windows/listener_windows.py\<close>, with
  the base64 of the standard library.  Scrypt and Fernet are the fields of the record \<open>kdf\<close>.
\<close>

section \<open>Base64\<close>

definition b64_char :: "nat \<Rightarrow> char" where
  "b64_char n =
     (if n < 26 then char_of (65 + n)
      else if n < 52 then char_of (71 + n)
      else if n < 62 then char_of (n - 4)
      else if n = 62 then CHR ''+'' else CHR ''/'')"

text \<open>\<open>b64encode\<close>: three bytes are four characters; the last group is padded.\<close>

fun b64encode :: "bytes \<Rightarrow> string" where
  "b64encode [] = []"
| "b64encode [a] = (let x = of_char a :: nat in [b64_char (x div 4), b64_char (x mod 4 * 16), CHR ''='', CHR ''=''])"
| "b64encode [a, b] =
     (let x = of_char a :: nat; y = of_char b
      in [b64_char (x div 4), b64_char (x mod 4 * 16 + y div 16), b64_char (y mod 16 * 4), CHR ''=''])"
| "b64encode (a # b # c # s) =
     (let x = of_char a :: nat; y = of_char b; z = of_char c
      in [b64_char (x div 4), b64_char (x mod 4 * 16 + y div 16), b64_char (y mod 16 * 4 + z div 64), b64_char (z mod 64)]
         @ b64encode s)"

text \<open>\<open>urlsafe_b64encode\<close>.\<close>

definition urlsafe_b64encode :: "bytes \<Rightarrow> string" where
  "urlsafe_b64encode s =
     map (\<lambda>c. if c = CHR ''+'' then CHR ''-'' else if c = CHR ''/'' then CHR ''_'' else c) (b64encode s)"

text \<open>
  \<open>b64decode\<close> without \<open>validate\<close>: characters outside the alphabet are skipped, the scan ends with
  the padding of an open group, and an incomplete group is an error.  The state is the position
  in the group, the bits left over and the number of padding characters just read.
\<close>

fun a2b :: "nat \<Rightarrow> nat \<Rightarrow> nat \<Rightarrow> string \<Rightarrow> bytes option" where
  "a2b q left pads [] = (if q = 0 then Some [] else None)"
| "a2b q left pads (c # s) =
     (if c = CHR ''='' then
        (if q \<ge> 2 then (if q + Suc pads \<ge> 4 then Some [] else a2b q left (Suc pads) s) else a2b q left pads s)
      else
        (case b64_val c of
           None \<Rightarrow> a2b q left pads s
         | Some v \<Rightarrow>
             (if q = 0 then a2b 1 v 0 s
              else if q = 1 then map_option ((#) (char_of (left * 4 + v div 16))) (a2b 2 (v mod 16) 0 s)
              else if q = 2 then map_option ((#) (char_of (left * 16 + v div 4))) (a2b 3 (v mod 4) 0 s)
              else map_option ((#) (char_of (left * 64 + v))) (a2b 0 0 0 s))))"

definition b64decode_loose :: "string \<Rightarrow> bytes result" where
  "b64decode_loose s =
     (if \<not> list_all is_ascii s then Inl ValueError
      else case a2b 0 0 0 s of None \<Rightarrow> Inl BinasciiError | Some b \<Rightarrow> Inr b)"

lemma b64_val_char: "n < 64 \<Longrightarrow> b64_val (b64_char n) = Some n"
  by (auto simp: b64_char_def b64_val_def Let_def of_char_of)

lemma b64_char_ok: "n < 64 \<Longrightarrow> b64_char n \<noteq> CHR ''='' \<and> is_ascii (b64_char n)"
proof -
  assume "n < 64"
  then have "b64_val (b64_char n) \<noteq> None" by (simp add: b64_val_char)
  moreover have "b64_val (CHR ''='') = None" by (simp add: b64_val_def)
  ultimately have "b64_char n \<noteq> CHR ''=''" by metis
  with \<open>n < 64\<close> show ?thesis by (auto simp: b64_char_def is_ascii_def of_char_of)
qed

lemma a2b_char:
  "n < 64 \<Longrightarrow> a2b 0 l p (b64_char n # s) = a2b (Suc 0) n 0 s"
  "n < 64 \<Longrightarrow> a2b (Suc 0) l p (b64_char n # s) = map_option ((#) (char_of (l * 4 + n div 16))) (a2b 2 (n mod 16) 0 s)"
  "n < 64 \<Longrightarrow> a2b 2 l p (b64_char n # s) = map_option ((#) (char_of (l * 16 + n div 4))) (a2b 3 (n mod 4) 0 s)"
  "n < 64 \<Longrightarrow> a2b 3 l p (b64_char n # s) = map_option ((#) (char_of (l * 64 + n))) (a2b 0 0 0 s)"
  using b64_char_ok [of n] by (simp_all add: b64_val_char)

lemma byte_bound: "(of_char c :: nat) < 256"
  using nat_of_char_less_256 [of c] by simp

lemma byte_parts:
  fixes x y z :: nat
  assumes "x < 256" "y < 256" "z < 256"
  shows "x div 4 < 64" "x mod 4 * 16 + y div 16 < 64" "y mod 16 * 4 + z div 64 < 64" "z mod 64 < 64"
    "x mod 4 * 16 < 64" "y mod 16 * 4 < 64"
    "x div 4 * 4 + (x mod 4 * 16 + y div 16) div 16 = x" "x div 4 * 4 + (x mod 4 * 16) div 16 = x"
    "(x mod 4 * 16 + y div 16) mod 16 * 16 + (y mod 16 * 4 + z div 64) div 4 = y"
    "(x mod 4 * 16 + y div 16) mod 16 * 16 + (y mod 16 * 4) div 4 = y"
    "(y mod 16 * 4 + z div 64) mod 4 * 64 + z mod 64 = z"
    "y div 16 div 16 = 0" "y div 16 mod 16 = y div 16" "z div 64 mod 4 = z div 64" "z div 64 div 4 = 0"
proof -
  have q: "y div 16 < 16" "z div 64 < 4" "x div 4 < 64" using assms by simp_all
  then have d: "(x mod 4 * 16 + y div 16) div 16 = x mod 4" "(x mod 4 * 16 + y div 16) mod 16 = y div 16"
    "(y mod 16 * 4 + z div 64) div 4 = y mod 16" "(y mod 16 * 4 + z div 64) mod 4 = z div 64" by simp_all
  have m: "x mod 4 < 4" "y mod 16 < 16" by simp_all
  show "x div 4 < 64" "z mod 64 < 64" using q by simp_all
  show e: "y div 16 div 16 = 0" "y div 16 mod 16 = y div 16" "z div 64 mod 4 = z div 64" "z div 64 div 4 = 0" using q by simp_all
  show "x mod 4 * 16 + y div 16 < 64" "y mod 16 * 4 + z div 64 < 64" "x mod 4 * 16 < 64" "y mod 16 * 4 < 64"
    using q m by linarith+
  show "x div 4 * 4 + (x mod 4 * 16 + y div 16) div 16 = x" "x div 4 * 4 + (x mod 4 * 16) div 16 = x"
    "(x mod 4 * 16 + y div 16) mod 16 * 16 + (y mod 16 * 4 + z div 64) div 4 = y"
    "(x mod 4 * 16 + y div 16) mod 16 * 16 + (y mod 16 * 4) div 4 = y"
    "(y mod 16 * 4 + z div 64) mod 4 * 64 + z mod 64 = z"
    by (simp_all add: d e)
qed

lemma a2b_encode: "a2b 0 0 0 (b64encode s) = Some s"
proof (induction s rule: b64encode.induct)
  case (2 a)
  note b = byte_parts [OF byte_bound [of a] byte_bound byte_bound]
  show ?case by (simp add: Let_def a2b_char b del: a2b.simps) (simp add: b)
next
  case (3 a b)
  note b = byte_parts [OF byte_bound [of a] byte_bound [of b] byte_bound]
  show ?case by (simp add: Let_def a2b_char b del: a2b.simps) (simp add: b)
next
  case (4 a b c s)
  note b = byte_parts [OF byte_bound [of a] byte_bound [of b] byte_bound [of c]]
  show ?case by (simp add: Let_def a2b_char b 4 del: a2b.simps)
qed simp

lemma ascii_encode: "list_all is_ascii (b64encode s)"
proof (induction s rule: b64encode.induct)
  case (2 a)
  note b = byte_parts [OF byte_bound [of a] byte_bound byte_bound]
  show ?case using b by (simp add: Let_def b64_char_ok) (simp add: is_ascii_def)
next
  case (3 a b)
  note b = byte_parts [OF byte_bound [of a] byte_bound [of b] byte_bound]
  show ?case using b by (simp add: Let_def b64_char_ok) (simp add: is_ascii_def)
next
  case (4 a b c s)
  note b = byte_parts [OF byte_bound [of a] byte_bound [of b] byte_bound [of c]]
  show ?case using b 4 by (simp add: Let_def b64_char_ok)
qed simp

lemma b64_roundtrip: "b64decode_loose (b64encode s) = Inr s"
  by (simp add: b64decode_loose_def ascii_encode a2b_encode)

section \<open>Secrets\<close>

text \<open>
  Scrypt with the fixed parameters (32 bytes from a passphrase and a salt), and Fernet: a token
  made with a key (and fresh randomness), and its decryption, which raises \<open>InvalidToken\<close>.
\<close>

record kdf =
  scrypt :: "bytes \<Rightarrow> bytes \<Rightarrow> bytes"
  fernet_encrypt :: "bytes \<Rightarrow> bytes \<Rightarrow> string"
  fernet_decrypt :: "bytes \<Rightarrow> bytes \<Rightarrow> bytes result"

definition InvalidToken :: exc where
  "InvalidToken = OtherError ''InvalidToken''"

definition derive_key :: "kdf \<Rightarrow> string \<Rightarrow> bytes \<Rightarrow> bytes" where
  "derive_key K passphrase salt = urlsafe_b64encode (scrypt K (utf8 passphrase) salt)"

text \<open>\<open>salt\<close> is what \<open>os.urandom(16)\<close> drew.\<close>

definition encrypt_secret :: "kdf \<Rightarrow> bytes \<Rightarrow> string \<Rightarrow> string \<Rightarrow> json" where
  "encrypt_secret K salt secret passphrase =
     (let key = derive_key K passphrase salt
      in JObj [(''salt'', JStr (b64encode salt)), (''ciphertext'', JStr (fernet_encrypt K key (utf8 secret)))])"

text \<open>\<open>b64decode\<close> and \<open>encode\<close> on values of another kind raise.\<close>

definition decrypt_secret :: "kdf \<Rightarrow> json \<Rightarrow> string \<Rightarrow> string result" where
  "decrypt_secret K encrypted passphrase =
     bindE (subscript encrypted ''salt'') (\<lambda>sv.
     bindE (case sv of JStr s \<Rightarrow> b64decode_loose s | _ \<Rightarrow> Inl TypeError) (\<lambda>salt.
     bindE (subscript encrypted ''ciphertext'') (\<lambda>cv.
     bindE (case cv of JStr c \<Rightarrow> fernet_decrypt K (derive_key K passphrase salt) (utf8 c) | _ \<Rightarrow> Inl AttributeError) (\<lambda>plain_bytes.
       Inr (utf8_decode plain_bytes)))))"

text \<open>Fernet decrypts what it encrypted with the same key, the keys being those derived from a passphrase.\<close>

definition fernet_ok :: "kdf \<Rightarrow> bool" where
  "fernet_ok K \<longleftrightarrow> (\<forall>pw salt m. fernet_decrypt K (derive_key K pw salt) (utf8 (fernet_encrypt K (derive_key K pw salt) m)) = Inr m)"

lemma decrypt_encrypt: "fernet_ok K \<Longrightarrow> decrypt_secret K (encrypt_secret K salt secret pw) pw = Inr secret"
  by (simp add: decrypt_secret_def encrypt_secret_def Let_def subscript_def jitem_def b64_roundtrip fernet_ok_def)

end
