(* ===== verification/WinPair.thy ===== *)
theory WinPair
  imports Pair WinSecrets
begin

text \<open>
  The pairing tool of the Windows build, \<^verbatim>\<open>src/windows/pair_windows.py\<close>: the certificate, the
  secrets and the configuration file.

  \<open>win_run\<close> is what a run draws and what its calls come to: the clock, the two keys in the order they
  are generated, the salts in the order they are drawn, and the faults of the disk.
  \<open>win_security\<close> is the security API of Windows behind \<open>lock_down_config_dir\<close>.  \<open>win_answers\<close> holds the lines typed at the prompts.
\<close>

record 'sk win_run =
  utcnow :: time
  win_keys :: "nat \<Rightarrow> 'sk"
  cert_serial :: int
  token_hex :: string
  salts :: "nat \<Rightarrow> bytes"
  win_disk :: "string \<Rightarrow> write_fault"

record win_answers =
  ip_line :: string
  new_pass :: string
  again_pass :: string
  account_pass :: string
  shutdown_line :: string
  phone_line :: string

section \<open>The access list of the directory\<close>

text \<open>
  \<open>lookup_account\<close> is the first component of what \<open>LookupAccountName\<close> returns, \<open>new_acl\<close> and \<open>add_allowed\<close>
  are \<open>ACL()\<close> and \<open>AddAccessAllowedAce\<close>, \<open>made\<close>, \<open>got\<close> and \<open>applied\<close> the outcomes of \<open>mkdir\<close>, of
  \<open>GetFileSecurity\<close> and of \<open>SetFileSecurity\<close> with a list.
\<close>

record ('sid, 'acl) win_security =
  user_name :: string
  lookup_account :: "string \<Rightarrow> 'sid result"
  new_acl :: 'acl
  add_allowed :: "nat \<Rightarrow> 'sid \<Rightarrow> 'acl \<Rightarrow> 'acl"
  made :: "unit result"
  got :: "unit result"
  applied :: "'acl \<Rightarrow> unit result"

text \<open>The value of \<open>ntsecuritycon.FILE_ALL_ACCESS\<close>, 0x1F01FF.\<close>

definition FILE_ALL_ACCESS :: nat where
  "FILE_ALL_ACCESS = 2032127"

text \<open>The access list the directory ends up with.\<close>

definition lock_down_config_dir :: "('sid, 'acl) win_security \<Rightarrow> 'acl result" where
  "lock_down_config_dir W =
     bindE (made W) (\<lambda>_.
     bindE (lookup_account W (user_name W)) (\<lambda>user.
     bindE (got W) (\<lambda>_.
       let dacl = add_allowed W FILE_ALL_ACCESS user (new_acl W)
       in bindE (lookup_account W ''SYSTEM'') (\<lambda>system_sid.
            let dacl = add_allowed W FILE_ALL_ACCESS system_sid dacl
            in bindE (applied W dacl) (\<lambda>_. Inr dacl)))))"

text \<open>What the API documents: a new list allows nobody, and an entry allows its own account only.\<close>

definition acl_ok :: "('sid, 'acl) win_security \<Rightarrow> ('acl \<Rightarrow> 'sid \<Rightarrow> bool) \<Rightarrow> bool" where
  "acl_ok W allows \<longleftrightarrow> (\<forall>x. \<not> allows (new_acl W) x) \<and> (\<forall>m x l y. allows (add_allowed W m x l) y \<longleftrightarrow> allows l y \<or> y = x)"

text \<open>Only the accounts of the user and of the system have access.\<close>

lemma locked_down_accounts:
  assumes "acl_ok W allows" "lock_down_config_dir W = Inr l"
  shows "allows l x \<longleftrightarrow> lookup_account W (user_name W) = Inr x \<or> lookup_account W ''SYSTEM'' = Inr x"
  using assms by (auto simp: lock_down_config_dir_def acl_ok_def bindE_eq_Inr Let_def)

section \<open>Files\<close>

definition win_path :: "string \<Rightarrow> string \<Rightarrow> string" where
  "win_path d n = d @ CHR 0x5C # n"

text \<open>438 is the octal number 0666, the mode that Python reports for a file of Windows that can be written.\<close>

definition write_plain :: "'sk win_run \<Rightarrow> string \<Rightarrow> bytes \<Rightarrow> fs \<Rightarrow> unit result \<times> fs" where
  "write_plain r path = write_in_place (win_disk r path) 438 path"

section \<open>The certificate\<close>

definition win_tbs :: "'pk \<Rightarrow> time \<Rightarrow> int \<Rightarrow> ip_addr \<Rightarrow> 'pk tbs" where
  "win_tbs pub now n addr =
     \<lparr>subject_cn = ''remote-unlock-local'', issuer_cn = ''remote-unlock-local'', subject_key = pub,
      serial = n, not_before = now, not_after = now + 3650 * 86400,
      extensions = [(SubjectAlternativeName [AltIP addr], False)]\<rparr>"

definition generate_tls_cert ::
  "('sk, 'pk, 'cert) pki \<Rightarrow> 'sk win_run \<Rightarrow> string \<Rightarrow> string \<Rightarrow> string \<Rightarrow> fs \<Rightarrow> 'cert result \<times> fs" where
  "generate_tls_cert P r ip cert_path key_path =
     (let key = win_keys r 1
      in bindS (lift (ip_address ip)) (\<lambda>addr.
         bindS (lift (sign_cert P (win_tbs (public_of P key) (utcnow r) (cert_serial r) addr) key)) (\<lambda>cert.
         bindS (write_plain r key_path (plain_pem P key)) (\<lambda>_.
         bindS (write_plain r cert_path (cert_pem P cert)) (\<lambda>_. lift (Inr cert))))))"

section \<open>main\<close>

text \<open>\<open>fingerprint(...).hex(":")\<close> of the digest in hexadecimal.\<close>

fun colon_pairs :: "string \<Rightarrow> string" where
  "colon_pairs (a # b # c # s) = a # b # CHR '':'' # colon_pairs (c # s)"
| "colon_pairs s = s"

definition win_entries ::
  "('sk, 'pk, 'cert) pki \<Rightarrow> kdf \<Rightarrow> 'sk win_run \<Rightarrow> win_answers \<Rightarrow> string \<Rightarrow> (string \<times> json) list" where
  "win_entries P K r a dir =
     [(''listener_ip'', JStr (py_strip (ip_line a))),
      (''listener_port'', JInt 8765),
      (''phone_public_key_pem'', JStr (phone_line a)),
      (''laptop_private_key_encrypted'', encrypt_secret K (salts r 0) (utf8_decode (plain_pem P (win_keys r 0))) (new_pass a)),
      (''windows_password_encrypted'', encrypt_secret K (salts r 1) (account_pass a) (new_pass a)),
      (''tls_cert_path'', JStr (win_path dir ''cert.pem'')),
      (''tls_key_path'', JStr (win_path dir ''key.pem'')),
      (''ntfy_topic'', JStr (''remote-unlock-'' @ token_hex r)),
      (''shutdown_enabled'', JBool (py_lower (py_strip (shutdown_line a)) = ''y'')),
      (''shutdown_command'', JList [JStr ''shutdown'', JStr ''/s'', JStr ''/t'', JStr ''0''])]"

text \<open>The files and the lines printed so far, up to the fixed explanations.\<close>

type_synonym screen = "fs \<times> string list"

definition say :: "string \<Rightarrow> screen \<Rightarrow> unit result \<times> screen" where
  "say l s = (Inr (), (fst s, snd s @ [l]))"

definition on_files :: "(fs \<Rightarrow> 'a result \<times> fs) \<Rightarrow> screen \<Rightarrow> 'a result \<times> screen" where
  "on_files m s = (let (x, fs) = m (fst s) in (x, (fs, snd s)))"

definition win_pair ::
  "('sid, 'acl) win_security \<Rightarrow> ('sk, 'pk, 'cert) pki \<Rightarrow> kdf \<Rightarrow> 'sk win_run \<Rightarrow> win_answers \<Rightarrow> string \<Rightarrow> screen \<Rightarrow> unit result \<times> screen" where
  "win_pair W P K r a dir =
     bindS (on_files (lift (lock_down_config_dir W))) (\<lambda>_.
       let ip = py_strip (ip_line a)
       in if new_pass a \<noteq> again_pass a then on_files (lift (Inl (SystemExit ''Passphrases didn't match.'')))
          else
            let cert_path = win_path dir ''cert.pem''; key_path = win_path dir ''key.pem'';
                config_path = win_path dir ''pairing.json''
            in bindS (on_files (generate_tls_cert P r ip cert_path key_path)) (\<lambda>_.
               bindS (say (public_pem P (public_of P (win_keys r 0)))) (\<lambda>_.
               bindS (on_files (bindS (read_file cert_path) (\<lambda>b. lift (load_cert P b)))) (\<lambda>cert.
               bindS (say (colon_pairs (sha256 (base P) (cert_der P cert)))) (\<lambda>_.
               bindS (say (''remote-unlock-'' @ token_hex r)) (\<lambda>_.
               bindS (on_files (write_plain r config_path
                        (dumps_indent (float_repr (base P)) 0 (JObj (win_entries P K r a dir))))) (\<lambda>_.
               bindS (say (''Saved to '' @ config_path)) (\<lambda>_.
                 say (if py_lower (py_strip (shutdown_line a)) = ''y''
                      then ''Remote shutdown: ENABLED (command: shutdown /s /t 0)''
                      else ''Remote shutdown: disabled (set \"shutdown_enabled\": true in the'')))))))))"

section \<open>What a run leaves behind\<close>

lemma write_plain_cases:
  "write_plain r path data fs = (res, fs') \<Longrightarrow>
    (res = Inl OSError \<and> (\<forall>p. p \<noteq> path \<longrightarrow> fs' p = fs p))
    \<or> (res = Inr () \<and> fs' = fs(path \<mapsto> \<lparr>contents = data, st_mode = 438\<rparr>))"
  by (auto simp: write_plain_def write_in_place_def split: write_fault.splits)

lemma win_entries_plain: "plain (JObj (win_entries P K r a dir))"
  by (simp add: win_entries_def encrypt_secret_def dict_ok_def Let_def)

lemma on_files_eq: "on_files m s = (x, s') \<longleftrightarrow> (\<exists>fs. m (fst s) = (x, fs) \<and> s' = (fs, snd s))"
  by (auto simp: on_files_def split: prod.split)

lemma win_pair_Inr:
  assumes "win_pair W P K r a dir s = (Inr (), s')"
  obtains acl addr cert cert' where "lock_down_config_dir W = Inr acl" "new_pass a = again_pass a" "ip_address (py_strip (ip_line a)) = Inr addr"
    "sign_cert P (win_tbs (public_of P (win_keys r 1)) (utcnow r) (cert_serial r) addr) (win_keys r 1) = Inr cert"
    "load_cert P (cert_pem P cert) = Inr cert'"
    "fst s' = (fst s)(win_path dir ''key.pem'' \<mapsto> \<lparr>contents = plain_pem P (win_keys r 1), st_mode = 438\<rparr>,
       win_path dir ''cert.pem'' \<mapsto> \<lparr>contents = cert_pem P cert, st_mode = 438\<rparr>,
       win_path dir ''pairing.json'' \<mapsto>
         \<lparr>contents = dumps_indent (float_repr (base P)) 0 (JObj (win_entries P K r a dir)), st_mode = 438\<rparr>)"
    "snd s' = snd s @ [public_pem P (public_of P (win_keys r 0)), colon_pairs (sha256 (base P) (cert_der P cert')),
       ''remote-unlock-'' @ token_hex r, ''Saved to '' @ win_path dir ''pairing.json'',
       if py_lower (py_strip (shutdown_line a)) = ''y'' then ''Remote shutdown: ENABLED (command: shutdown /s /t 0)''
       else ''Remote shutdown: disabled (set \"shutdown_enabled\": true in the'']"
  using assms unfolding win_pair_def Let_def generate_tls_cert_def
  by (auto simp: on_files_eq lift_def say_def read_file_def split: if_splits
      dest!: bindS_InrD write_plain_cases)

text \<open>Nothing is written when the passphrases differ, and one answer has no newline: the prompt reads a line.\<close>

lemma win_pair_mismatch:
  "new_pass a \<noteq> again_pass a \<Longrightarrow> lock_down_config_dir W = Inr acl \<Longrightarrow>
    win_pair W P K r a dir s = (Inl (SystemExit ''Passphrases didn't match.''), s)"
  by (simp add: win_pair_def Let_def bindS_def on_files_def lift_def)

text \<open>Another spelling of \<^verbatim>\<open>yes\<close> leaves the remote shutdown off.\<close>

lemma shutdown_only_on_y:
  "map_of (win_entries P K r a dir) ''shutdown_enabled'' = Some (JBool b) \<Longrightarrow> b \<longleftrightarrow> py_lower (py_strip (shutdown_line a)) = ''y''"
  by (auto simp: win_entries_def)

end
