(* ===== verification/WinListener.thy ===== *)
theory WinListener
  imports WinSecrets Numbers Tokens
begin

text \<open>
  The service of the Windows build, \<^verbatim>\<open>src/windows/listener_windows.py\<close>: challenges, the global rate
  limit, verification, the handler cut at its awaits, and the pipe to the credential provider.

  A stretch of code between two awaits reads the clock once.  \<open>send_ok\<close> tells whether the peer was
  still there when the result was sent; \<open>pipe_open\<close> whether a credential provider waits.
\<close>

definition NONCE_TTL :: rat where "NONCE_TTL = 10"
definition MAX_CLOCK_SKEW :: rat where "MAX_CLOCK_SKEW = 5"
definition RATE_LIMIT_WINDOW :: rat where "RATE_LIMIT_WINDOW = 60"
definition RATE_LIMIT_MAX_FAILS :: nat where "RATE_LIMIT_MAX_FAILS = 5"

record ('sk, 'pk) win =
  phone_public_key :: 'pk
  laptop_private_key :: 'sk
  pending_nonces :: "(string \<times> time) list"
  used_nonces :: "string list"
  fail_times :: "time list"

section \<open>Challenges\<close>

definition challenge_text :: "('sk, 'pk) ext \<Rightarrow> string \<Rightarrow> time \<Rightarrow> bytes" where
  "challenge_text E nonce now = utf8 (''challenge:'' @ nonce @ '':'' @ py_str (float_repr E) (JFloat (Fin now)))"

text \<open>\<open>nonce\<close> is what \<open>os.urandom(16).hex()\<close> drew.\<close>

definition win_issue_challenge :: "('sk, 'pk) ext \<Rightarrow> string \<Rightarrow> time \<Rightarrow> ('sk, 'pk) win \<Rightarrow> (string \<times> json) list \<times> ('sk, 'pk) win" where
  "win_issue_challenge E nonce now s =
     (let s = s\<lparr>pending_nonces := AList.update nonce now (pending_nonces s)\<rparr>;
          s = s\<lparr>pending_nonces := dict_keep (\<lambda>n t. now - t < NONCE_TTL) (pending_nonces s)\<rparr>
      in ([(''nonce'', JStr nonce), (''timestamp'', JFloat (Fin now)),
           (''signature'', JStr (to_hex (ec_sign E (laptop_private_key s) (challenge_text E nonce now))))], s))"

section \<open>Verification\<close>

definition rate_limited :: "time \<Rightarrow> ('sk, 'pk) win \<Rightarrow> bool \<times> ('sk, 'pk) win" where
  "rate_limited now s =
     (let s = s\<lparr>fail_times := dropWhile (\<lambda>t. now - t > RATE_LIMIT_WINDOW) (fail_times s)\<rparr>
      in (length (fail_times s) \<ge> RATE_LIMIT_MAX_FAILS, s))"

definition record_failure :: "time \<Rightarrow> ('sk, 'pk) win \<Rightarrow> ('sk, 'pk) win" where
  "record_failure now s = s\<lparr>fail_times := fail_times s @ [now]\<rparr>"

definition action_text :: "('sk, 'pk) ext \<Rightarrow> string \<Rightarrow> string \<Rightarrow> pyfloat \<Rightarrow> bytes" where
  "action_text E action nonce timestamp = utf8 (action @ '':'' @ nonce @ '':'' @ py_str (float_repr E) (JFloat timestamp))"

text \<open>The last lines of the \<open>try\<close> block; every exception is caught.\<close>

definition signature_ok :: "('sk, 'pk) ext \<Rightarrow> 'pk \<Rightarrow> bytes \<Rightarrow> json \<Rightarrow> bool" where
  "signature_ok E pk message signature_hex =
     (case signature_hex of
        JStr h \<Rightarrow> (case fromhex h of None \<Rightarrow> False | Some sig \<Rightarrow> ec_verify E pk sig message = None)
      | _ \<Rightarrow> False)"

text \<open>
  \<open>verify\<close>.  A nonce that is not a text is no key of the dictionary, or cannot be one; either way
  a failure is recorded and the answer is \<open>False\<close>.
\<close>

definition win_verify ::
  "('sk, 'pk) ext \<Rightarrow> time \<Rightarrow> json \<Rightarrow> pyfloat \<Rightarrow> json \<Rightarrow> string \<Rightarrow> ('sk, 'pk) win \<Rightarrow> bool \<times> ('sk, 'pk) win" where
  "win_verify E now nonce timestamp signature_hex action s =
     (if action \<noteq> ''unlock'' \<and> action \<noteq> ''shutdown'' then (False, record_failure now s)
      else
        let (limited, s) = rate_limited now s
        in if limited then (False, s)
           else
             (case nonce of
                JStr n \<Rightarrow>
                  (let issue_time = map_of (pending_nonces s) n;
                       s = s\<lparr>pending_nonces := AList.delete n (pending_nonces s)\<rparr>
                   in case issue_time of
                        None \<Rightarrow> (False, record_failure now s)
                      | Some t \<Rightarrow>
                          if n \<in> set (used_nonces s) then (False, record_failure now s)
                          else if now - t > NONCE_TTL then (False, record_failure now s)
                          else if fgt (fabs (fsub (Fin now) timestamp)) (Fin (MAX_CLOCK_SKEW + NONCE_TTL)) then (False, record_failure now s)
                          else if signature_ok E (phone_public_key s) (action_text E action n timestamp) signature_hex
                          then (True, s\<lparr>used_nonces := used_nonces s @ [n]\<rparr>)
                          else (False, record_failure now s))
              | _ \<Rightarrow> (False, record_failure now s)))"

section \<open>The handler\<close>

text \<open>
  What a connection makes the program do.  \<open>notify.send_alert\<close> does not exist, so an alert comes to
  a warning in the log.
\<close>

datatype win_effect =
    WinSent json | Piped bytes | AlertFailed string | RanCommand json

record win_settings =
  windows_password :: string
  shutdown_enabled :: bool
  shutdown_command :: json
  pipe_open :: bool

definition signal_credential_provider :: "win_settings \<Rightarrow> bool \<Rightarrow> win_effect list" where
  "signal_credential_provider W success =
     (if pipe_open W
      then [Piped (if success then char_of (1 :: nat) # utf8 (windows_password W) else [char_of (0 :: nat)])]
      else [])"

definition win_alert :: "string \<Rightarrow> win_effect list" where
  "win_alert kind = [AlertFailed kind]"

definition trigger_shutdown :: "win_settings \<Rightarrow> win_effect list" where
  "trigger_shutdown W = [RanCommand (shutdown_command W)]"

definition win_result :: "bool \<Rightarrow> win_effect list" where
  "win_result ok = [WinSent (JObj [(''type'', JStr ''result''), (''ok'', JBool ok)])]"

text \<open>Up to the first await that waits for the peer.\<close>

definition handler_open :: "('sk, 'pk) ext \<Rightarrow> string \<Rightarrow> time \<Rightarrow> ('sk, 'pk) win \<Rightarrow> win_effect list \<times> ('sk, 'pk) win" where
  "handler_open E nonce now s =
     (let (ch, s) = win_issue_challenge E nonce now s
      in ([WinSent (JObj (dict_update [(''type'', JStr ''challenge'')] ch))], s))"

text \<open>A frame, with the text of a binary frame as the \<^verbatim>\<open>json\<close> module decodes it.\<close>

datatype win_frame = Frame "string result" | Late | Gone

definition caught_by_handler :: "exc \<Rightarrow> bool" where
  "caught_by_handler e \<longleftrightarrow> e = TimeoutError \<or> e = KeyError \<or> is_value_error e"

text \<open>The fields of a response, converted in the order in which the call evaluates them.\<close>

definition response_fields :: "(string \<times> json) list \<Rightarrow> (json \<times> pyfloat \<times> json) result" where
  "response_fields msg =
     bindE (jitem msg ''nonce'') (\<lambda>nonce.
     bindE (jitem msg ''timestamp'') (\<lambda>ts.
     bindE (py_float ts) (\<lambda>timestamp.
     bindE (jitem msg ''signature'') (\<lambda>sig. Inr (nonce, timestamp, sig)))))"

definition after_verify :: "win_settings \<Rightarrow> bool \<Rightarrow> string \<Rightarrow> bool \<Rightarrow> win_effect list" where
  "after_verify W send_ok action ok =
     (if \<not> send_ok then []
      else win_result ok
           @ (if action = ''unlock''
              then signal_credential_provider W ok @ win_alert (if ok then ''unlock_success'' else ''unlock_failed'')
              else if ok then trigger_shutdown W @ win_alert ''shutdown_triggered''
              else win_alert ''shutdown_rejected''))"

text \<open>
  The second stretch: what is done, the exception that leaves the handler, if any, and the state.
\<close>

definition reply_false :: "bool \<Rightarrow> win_effect list \<Rightarrow> win_effect list" where
  "reply_false send_ok rest = (if send_ok then win_result False @ rest else [])"

definition win_response ::
  "('sk, 'pk) ext \<Rightarrow> win_settings \<Rightarrow> time \<Rightarrow> bool \<Rightarrow> (string \<times> json) list \<Rightarrow> ('sk, 'pk) win \<Rightarrow> win_effect list result \<times> ('sk, 'pk) win" where
  "win_response E W now send_ok msg s =
     (if jget msg ''type'' \<noteq> JStr ''response'' then (Inr (reply_false send_ok []), s)
      else
        let action = jget_default msg ''action'' (JStr ''unlock'')
        in if action \<noteq> JStr ''unlock'' \<and> action \<noteq> JStr ''shutdown'' then (Inr (reply_false send_ok []), s)
           else if action = JStr ''shutdown'' \<and> \<not> shutdown_enabled W
           then (Inr (reply_false send_ok (win_alert ''shutdown_rejected'')), s)
           else
             (let act = (if action = JStr ''unlock'' then ''unlock'' else ''shutdown'')
              in case response_fields msg of
                   Inl e \<Rightarrow> (Inl e, s)
                 | Inr (nonce, timestamp, sig) \<Rightarrow>
                     (let (ok, s) = win_verify E now nonce timestamp sig act s
                      in (Inr (after_verify W send_ok act ok), s))))"

definition handler_frame ::
  "('sk, 'pk) ext \<Rightarrow> win_settings \<Rightarrow> time \<Rightarrow> bool \<Rightarrow> win_frame \<Rightarrow> ('sk, 'pk) win \<Rightarrow> win_effect list \<times> exc option \<times> ('sk, 'pk) win" where
  "handler_frame E W now send_ok f s =
     (let (res, s) =
        (case f of
           Gone \<Rightarrow> (Inr [], s)
         | Late \<Rightarrow> (Inl TimeoutError, s)
         | Frame (Inl e) \<Rightarrow> (Inl e, s)
         | Frame (Inr t) \<Rightarrow>
             (case loads t of
                None \<Rightarrow> (Inl JSONDecodeError, s)
              | Some (JObj msg) \<Rightarrow> win_response E W now send_ok msg s
              | Some _ \<Rightarrow> (Inl AttributeError, s)))
      in case res of
           Inr es \<Rightarrow> (es, None, s)
         | Inl e \<Rightarrow> if caught_by_handler e then (signal_credential_provider W False, None, s) else ([], Some e, s))"

section \<open>What verification accepts\<close>

lemma skew_iff:
  "fgt (fabs (fsub (Fin now) timestamp)) (Fin (MAX_CLOCK_SKEW + NONCE_TTL)) \<longleftrightarrow>
    \<not> (timestamp = NaN \<or> (\<exists>x. timestamp = Fin x \<and> \<bar>now - x\<bar> \<le> 15))"
  by (cases timestamp) (auto simp: MAX_CLOCK_SKEW_def NONCE_TTL_def)

lemma ttl_iff: "(now - t > NONCE_TTL) = (\<not> now - t \<le> 10)"
  by (auto simp: NONCE_TTL_def)

lemma win_verify_iff:
  "fst (win_verify E now nonce timestamp sg action s) \<longleftrightarrow>
    (action = ''unlock'' \<or> action = ''shutdown'') \<and> \<not> fst (rate_limited now s)
    \<and> (\<exists>n t. nonce = JStr n \<and> map_of (pending_nonces s) n = Some t \<and> n \<notin> set (used_nonces s) \<and> now - t \<le> 10
         \<and> (timestamp = NaN \<or> (\<exists>x. timestamp = Fin x \<and> \<bar>now - x\<bar> \<le> 15))
         \<and> signature_ok E (phone_public_key s) (action_text E action n timestamp) sg)"
  by (cases nonce) (auto simp: win_verify_def rate_limited_def Let_def skew_iff ttl_iff split: option.splits if_splits)

text \<open>
  C36.  A response is accepted exactly when its action is one of the two, fewer than five failures
  are left once those more than sixty seconds old are dropped from the front of the queue, its nonce
  is pending, unused and at most ten seconds old, the time stamp is not further than fifteen seconds
  from the clock --- or is not a number --- and the signature, a hexadecimal text, verifies under the
  phone's key over the action, the nonce and the time stamp.
\<close>

theorem win_verify_accepts_iff:
  "fst (win_verify E now nonce timestamp sg action s) \<longleftrightarrow>
    (action = ''unlock'' \<or> action = ''shutdown'') \<and> length (dropWhile (\<lambda>t. now - t > 60) (fail_times s)) < 5
    \<and> (\<exists>n t h sig. nonce = JStr n \<and> map_of (pending_nonces s) n = Some t \<and> n \<notin> set (used_nonces s) \<and> now - t \<le> 10
         \<and> (timestamp = NaN \<or> (\<exists>x. timestamp = Fin x \<and> \<bar>now - x\<bar> \<le> 15))
         \<and> sg = JStr h \<and> fromhex h = Some sig
         \<and> ec_verify E (phone_public_key s) sig (utf8 (action @ '':'' @ n @ '':'' @ py_str (float_repr E) (JFloat timestamp))) = None)"
proof -
  have l: "fst (rate_limited now s) \<longleftrightarrow> \<not> length (dropWhile (\<lambda>t. now - t > 60) (fail_times s)) < 5"
    by (simp add: rate_limited_def Let_def RATE_LIMIT_MAX_FAILS_def RATE_LIMIT_WINDOW_def not_less)
  have g: "signature_ok E pk m v \<longleftrightarrow> (\<exists>h sig. v = JStr h \<and> fromhex h = Some sig \<and> ec_verify E pk sig m = None)" for pk m v
    by (simp add: signature_ok_def split: json.split option.split)
  show ?thesis unfolding win_verify_iff l g action_text_def by blast
qed

section \<open>Nonces are single use\<close>

datatype win_call = WIssue string time | WVerify time json pyfloat json string

definition win_step :: "('sk, 'pk) ext \<Rightarrow> win_call \<Rightarrow> ('sk, 'pk) win \<Rightarrow> ('sk, 'pk) win" where
  "win_step E c s =
     (case c of
        WIssue nonce now \<Rightarrow> snd (win_issue_challenge E nonce now s)
      | WVerify now nonce ts sg action \<Rightarrow> snd (win_verify E now nonce ts sg action s))"

definition win_pending :: "('sk, 'pk) win \<Rightarrow> string \<Rightarrow> bool" where
  "win_pending s n \<longleftrightarrow> n \<in> fst ` set (pending_nonces s)"

definition win_draws :: "win_call \<Rightarrow> ('sk, 'pk) win \<Rightarrow> string \<Rightarrow> bool" where
  "win_draws c s n = (case c of WIssue nonce now \<Rightarrow> nonce = n | WVerify now nonce ts sg action \<Rightarrow> False)"

definition win_accepts :: "('sk, 'pk) ext \<Rightarrow> win_call \<Rightarrow> ('sk, 'pk) win \<Rightarrow> string \<Rightarrow> bool" where
  "win_accepts E c s n =
     (case c of
        WIssue nonce now \<Rightarrow> False
      | WVerify now nonce ts sg action \<Rightarrow> nonce = JStr n \<and> fst (win_verify E now nonce ts sg action s))"

lemma win_verify_pending:
  "pending_nonces (snd (win_verify E now nonce ts sg action s)) =
    (case nonce of
       JStr n \<Rightarrow> if (action = ''unlock'' \<or> action = ''shutdown'') \<and> \<not> fst (rate_limited now s)
                then AList.delete n (pending_nonces s) else pending_nonces s
     | _ \<Rightarrow> pending_nonces s)"
  by (cases nonce) (auto simp: win_verify_def rate_limited_def record_failure_def Let_def split: option.splits)

interpretation win_nonces: single_use "win_step E" "\<lambda>_. True" win_pending win_draws "win_accepts E" for E
proof
  fix s :: "('a, 'b) win" and c n
  show "win_accepts E c s n \<Longrightarrow> win_pending s n \<and> \<not> win_pending (win_step E c s) n"
    by (cases c) (auto simp: win_accepts_def win_step_def win_pending_def win_verify_iff win_verify_pending AList.delete_eq
        dest: map_of_SomeD intro: rev_image_eqI)
  show "win_pending (win_step E c s) n \<Longrightarrow> win_pending s n \<or> win_draws c s n"
  proof (cases c)
    case (WIssue nonce now)
    then show "win_pending (win_step E c s) n \<Longrightarrow> win_pending s n \<or> win_draws c s n"
      by (auto simp: win_step_def win_pending_def win_draws_def win_issue_challenge_def Let_def dict_keep_def
          dest!: subsetD [OF set_update_subset] intro: rev_image_eqI)
  next
    case (WVerify now nonce ts sg action)
    then show "win_pending (win_step E c s) n \<Longrightarrow> win_pending s n \<or> win_draws c s n"
      by (auto simp: win_step_def win_pending_def win_verify_pending AList.delete_eq split: json.splits if_splits)
  qed
qed simp

section \<open>The rate limit\<close>

text \<open>The calls that record a failure, and when, in a run with well-formed actions.\<close>

definition fails_at :: "('sk, 'pk) ext \<Rightarrow> win_call \<Rightarrow> ('sk, 'pk) win \<Rightarrow> time list" where
  "fails_at E c s =
     (case c of
        WIssue nonce now \<Rightarrow> []
      | WVerify now nonce ts sg action \<Rightarrow>
          if fst (rate_limited now s) \<or> fst (win_verify E now nonce ts sg action s) then [] else [now])"

fun failures :: "('sk, 'pk) ext \<Rightarrow> win_call list \<Rightarrow> ('sk, 'pk) win \<Rightarrow> time list" where
  "failures E [] s = []"
| "failures E (c # cs) s = fails_at E c s @ failures E cs (win_step E c s)"

definition call_time :: "win_call \<Rightarrow> time" where
  "call_time c = (case c of WIssue nonce now \<Rightarrow> now | WVerify now nonce ts sg action \<Rightarrow> now)"

definition call_ok :: "win_call \<Rightarrow> bool" where
  "call_ok c = (case c of WIssue nonce now \<Rightarrow> True | WVerify now nonce ts sg action \<Rightarrow> action = ''unlock'' \<or> action = ''shutdown'')"

fun ordered :: "time \<Rightarrow> win_call list \<Rightarrow> bool" where
  "ordered t [] = True"
| "ordered t (c # cs) = (t \<le> call_time c \<and> call_ok c \<and> ordered (call_time c) cs)"

definition gaps :: "time list \<Rightarrow> bool" where
  "gaps h \<longleftrightarrow> (\<forall>i. i + 5 < length h \<longrightarrow> h ! (i + 5) - h ! i > 60)"

lemma gaps_snoc: "gaps h \<Longrightarrow> (5 \<le> length h \<Longrightarrow> t - h ! (length h - 5) > 60) \<Longrightarrow> gaps (h @ [t])"
  unfolding gaps_def
proof (intro allI impI)
  fix i assume h: "\<forall>i. i + 5 < length h \<longrightarrow> h ! (i + 5) - h ! i > 60" "5 \<le> length h \<Longrightarrow> t - h ! (length h - 5) > 60"
    and i: "i + 5 < length (h @ [t])"
  show "60 < (h @ [t]) ! (i + 5) - (h @ [t]) ! i"
  proof (cases "i + 5 = length h")
    case True
    then have "i = length h - 5" "5 \<le> length h" by simp_all
    with h(2) True show ?thesis by (simp add: nth_append)
  next
    case False
    with i h(1) show ?thesis by (simp add: nth_append)
  qed
qed

text \<open>The table holds the recent end of the history; what was dropped is older than a minute.\<close>

definition tracks :: "time list \<Rightarrow> time \<Rightarrow> ('sk, 'pk) win \<Rightarrow> bool" where
  "tracks h t s \<longleftrightarrow> gaps h \<and> (\<exists>d. h = d @ fail_times s \<and> list_all (\<lambda>x. t - x > 60) d)"

lemma tracks_later: "tracks h t s \<Longrightarrow> t \<le> t' \<Longrightarrow> tracks h t' s"
  unfolding tracks_def list_all_iff by force

lemma tracks_drop: "tracks h t s \<Longrightarrow> tracks h t (snd (rate_limited t s))"
proof -
  assume "tracks h t s"
  then obtain d where g: "gaps h" and h: "h = d @ fail_times s" and d: "list_all (\<lambda>x. t - x > 60) d"
    by (auto simp: tracks_def)
  let ?p = "\<lambda>x. t - x > RATE_LIMIT_WINDOW"
  have "h = (d @ takeWhile ?p (fail_times s)) @ dropWhile ?p (fail_times s)" using h by simp
  moreover have "list_all (\<lambda>x. t - x > 60) (d @ takeWhile ?p (fail_times s))"
    using d by (auto simp: list_all_iff RATE_LIMIT_WINDOW_def dest: set_takeWhileD)
  ultimately have "\<exists>d'. h = d' @ dropWhile ?p (fail_times s) \<and> list_all (\<lambda>x. t - x > 60) d'" by blast
  with g show ?thesis by (simp add: tracks_def rate_limited_def Let_def)
qed

lemma tracks_record:
  assumes "tracks h t s" "length (fail_times s) < 5"
  shows "tracks (h @ [t]) t (record_failure t s)"
proof -
  from assms(1) obtain d where g: "gaps h" and h: "h = d @ fail_times s" and d: "list_all (\<lambda>x. t - x > 60) d"
    by (auto simp: tracks_def)
  have "t - h ! (length h - 5) > 60" if "5 \<le> length h"
  proof -
    have "length h - 5 < length d" using that assms(2) h by simp
    then have "h ! (length h - 5) \<in> set d" using h by (simp add: nth_append)
    with d show ?thesis by (auto simp: list_all_iff)
  qed
  with g have "gaps (h @ [t])" by (rule gaps_snoc)
  with h d show ?thesis by (auto simp: tracks_def record_failure_def)
qed

lemma win_verify_fails:
  "action = ''unlock'' \<or> action = ''shutdown'' \<Longrightarrow>
    fail_times (snd (win_verify E now nonce ts sg action s)) =
      fail_times (snd (rate_limited now s))
        @ (if fst (rate_limited now s) \<or> fst (win_verify E now nonce ts sg action s) then [] else [now])"
  by (cases nonce) (auto simp: win_verify_def rate_limited_def record_failure_def Let_def split: option.splits)

lemma tracks_cong: "fail_times s = fail_times s' \<Longrightarrow> tracks h t s = tracks h t s'"
  by (simp add: tracks_def)

lemma tracks_step:
  assumes "tracks h t s" "t \<le> call_time c" "call_ok c"
  shows "tracks (h @ fails_at E c s) (call_time c) (win_step E c s)"
proof (cases c)
  case (WIssue nonce now)
  have "fail_times (win_step E c s) = fail_times s"
    by (simp add: WIssue win_step_def win_issue_challenge_def Let_def)
  with assms tracks_later [OF assms(1,2)] show ?thesis
    by (simp add: WIssue fails_at_def tracks_def)
next
  case (WVerify now nonce ts sg action)
  have act: "action = ''unlock'' \<or> action = ''shutdown''" using assms(3) WVerify by (simp add: call_ok_def)
  let ?r = "rate_limited now s"
  have d: "tracks h now (snd ?r)" using tracks_drop [OF tracks_later [OF assms(1,2)]] WVerify by (simp add: call_time_def)
  note f = win_verify_fails [OF act, of E now nonce ts sg s]
  show ?thesis
  proof (cases "fst ?r \<or> fst (win_verify E now nonce ts sg action s)")
    case True
    then have "fail_times (win_step E c s) = fail_times (snd ?r)" using f by (simp add: WVerify win_step_def)
    from tracks_cong [OF this] d True show ?thesis by (simp add: WVerify fails_at_def call_time_def)
  next
    case False
    then have "length (fail_times (snd ?r)) < 5" by (simp add: rate_limited_def Let_def RATE_LIMIT_MAX_FAILS_def)
    note t = tracks_record [OF d this]
    have "fail_times (win_step E c s) = fail_times (record_failure now (snd ?r))"
      using f False by (simp add: WVerify win_step_def record_failure_def)
    from tracks_cong [OF this] t False show ?thesis by (simp add: WVerify fails_at_def call_time_def)
  qed
qed

lemma tracks_run: "tracks h t s \<Longrightarrow> ordered t cs \<Longrightarrow> gaps (h @ failures E cs s)"
proof (induction cs arbitrary: h t s)
  case Nil
  then show ?case by (simp add: tracks_def)
next
  case (Cons c cs)
  then have "tracks (h @ fails_at E c s) (call_time c) (win_step E c s)" "ordered (call_time c) cs"
    by (auto intro: tracks_step)
  from Cons.IH [OF this] show ?case by simp
qed

text \<open>
  C16.  Guessing is limited: in any sequence of challenges and of responses with a proper action, at
  any times and from any peers, at most five responses in any sixty seconds are tried and fail; a
  sixth failure comes more than a minute after the first of them --- as long as the clock, a wall
  clock, is not set back.
\<close>

theorem five_failures_a_minute:
  assumes "fail_times s = []" and "ordered t cs" and "i + 5 < length (failures E cs s)"
  shows "failures E cs s ! (i + 5) - failures E cs s ! i > 60"
proof -
  have "tracks [] t s" using assms(1) by (simp add: tracks_def gaps_def)
  from tracks_run [OF this assms(2)] assms(3) show ?thesis by (simp add: gaps_def)
qed

lemma win_issued: "single_use.issued (win_step E) win_draws cs s n = length (filter (\<lambda>c. win_draws c s' n) cs)"
proof (induction cs arbitrary: s)
  case (Cons c cs)
  have "win_draws c s n = win_draws c s' n" by (simp add: win_draws_def split: win_call.split)
  with Cons show ?case by (simp add: win_nonces.issued.simps)
qed (simp add: win_nonces.issued.simps)

text \<open>
  A nonce of the Windows service is worth at most one acceptance: in any sequence of challenges
  and responses, the responses accepted for it are at most the challenges that drew it.
\<close>

theorem win_nonce_accepted_at_most_once:
  assumes "pending_nonces s = []"
  shows "single_use.accepted (win_step E) (win_accepts E) cs s n \<le> length (filter (\<lambda>c. win_draws c s n) cs)"
  using win_nonces.accepted_le_issued [where s = s and E = E and es = cs and k = n] assms
  by (simp add: win_issued [where s' = s] win_pending_def)

section \<open>What the handler does\<close>

text \<open>What a response with well-formed fields comes to, and a response whose action is an unlock.\<close>

lemma after_verify_piped:
  "Piped p \<in> set (after_verify W send_ok action ok) \<longleftrightarrow>
    send_ok \<and> action = ''unlock'' \<and> Piped p \<in> set (signal_credential_provider W ok)"
  by (auto simp: after_verify_def win_result_def win_alert_def trigger_shutdown_def)

lemma after_verify_ran:
  "RanCommand c \<in> set (after_verify W send_ok action ok) \<longleftrightarrow> send_ok \<and> action \<noteq> ''unlock'' \<and> ok \<and> c = shutdown_command W"
  by (auto simp: after_verify_def win_result_def win_alert_def trigger_shutdown_def signal_credential_provider_def)

lemma reply_false_quiet:
  "Piped p \<notin> set (reply_false send_ok [])" "RanCommand c \<notin> set (reply_false send_ok [])"
  "Piped p \<notin> set (reply_false send_ok (win_alert k))" "RanCommand c \<notin> set (reply_false send_ok (win_alert k))"
  by (simp_all add: reply_false_def win_result_def win_alert_def)

lemma win_response_active:
  assumes "win_response E W now send_ok msg s = (Inr es, s')" and "Piped p \<in> set es \<or> RanCommand c \<in> set es"
  obtains nonce ts sg act where "response_fields msg = Inr (nonce, ts, sg)"
    "jget_default msg ''action'' (JStr ''unlock'') = JStr act" "act = ''unlock'' \<or> act = ''shutdown'' \<and> shutdown_enabled W"
    "es = after_verify W send_ok act (fst (win_verify E now nonce ts sg act s))"
proof -
  let ?a = "jget_default msg ''action'' (JStr ''unlock'')"
  from assms have r: "jget msg ''type'' = JStr ''response''"
    by (auto simp: win_response_def reply_false_quiet split: if_splits)
  from assms r have a: "?a = JStr ''unlock'' \<or> ?a = JStr ''shutdown'' \<and> shutdown_enabled W"
    by (auto simp: win_response_def Let_def reply_false_quiet split: if_splits)
  then obtain act where act: "?a = JStr act" "act = ''unlock'' \<or> act = ''shutdown'' \<and> shutdown_enabled W" by blast
  from assms(1) r act obtain t where t: "response_fields msg = Inr t"
    by (cases "response_fields msg") (auto simp: win_response_def Let_def)
  obtain nonce ts sg where n: "t = (nonce, ts, sg)" by (cases t) auto
  have "es = after_verify W send_ok act (fst (win_verify E now nonce ts sg act s))"
    using assms(1) r act t n by (auto simp: win_response_def Let_def split: prod.splits)
  with act t n show ?thesis using that by blast
qed

lemma handler_password:
  assumes "handler_frame E W now send_ok f s = (es, x, s')" and "Piped p \<in> set es" and "p \<noteq> [char_of (0 :: nat)]"
  shows "\<exists>t msg n ts sg. f = Frame (Inr t) \<and> loads t = Some (JObj msg)
    \<and> jget_default msg ''action'' (JStr ''unlock'') = JStr ''unlock'' \<and> response_fields msg = Inr (JStr n, ts, sg)
    \<and> fst (win_verify E now (JStr n) ts sg ''unlock'' s)
    \<and> signature_ok E (phone_public_key s) (action_text E ''unlock'' n ts) sg
    \<and> p = char_of (1 :: nat) # utf8 (windows_password W)"
proof -
  have no: "Piped p \<notin> set (signal_credential_provider W False)" using assms(3) by (simp add: signal_credential_provider_def)
  from assms(1,2) no obtain t msg where f: "f = Frame (Inr t)" "loads t = Some (JObj msg)" "win_response E W now send_ok msg s = (Inr es, s')"
    by (auto simp: handler_frame_def Let_def split: win_frame.splits sum.splits option.splits json.splits prod.splits if_splits)
  obtain nonce ts sg act where
    r0: "response_fields msg = Inr (nonce, ts, sg)" "jget_default msg ''action'' (JStr ''unlock'') = JStr act"
      "es = after_verify W send_ok act (fst (win_verify E now nonce ts sg act s))" by (rule win_response_active [OF f(3) disjI1 [OF assms(2)]])
  from assms(2,3) r0 have r: "fst (win_verify E now nonce ts sg ''unlock'' s)" "p = char_of (1 :: nat) # utf8 (windows_password W)"
      "jget_default msg ''action'' (JStr ''unlock'') = JStr ''unlock''" "response_fields msg = Inr (nonce, ts, sg)"
    by (auto simp: after_verify_piped signal_credential_provider_def split: if_splits)
  from r(1) obtain n where n: "nonce = JStr n" "signature_ok E (phone_public_key s) (action_text E ''unlock'' n ts) sg"
    unfolding win_verify_iff by auto
  with f r show ?thesis by blast
qed

text \<open>
  C11.  The password leaves the service only for a verified unlock: whenever a frame makes the handler
  write anything but the single zero byte to the pipe, the frame is an unlock response that the
  service accepted just then, signed by the phone for unlocking, and what is written is the one byte
  and the password, to a credential provider that waits.
\<close>

theorem password_only_after_verified_unlock:
  assumes "handler_frame E W now send_ok f s = (es, x, s')" and "Piped p \<in> set es" and "p \<noteq> [char_of (0 :: nat)]"
  shows "\<exists>t msg n ts sg. f = Frame (Inr t) \<and> loads t = Some (JObj msg)
    \<and> jget_default msg ''action'' (JStr ''unlock'') = JStr ''unlock'' \<and> response_fields msg = Inr (JStr n, ts, sg)
    \<and> fst (win_verify E now (JStr n) ts sg ''unlock'' s)
    \<and> signature_ok E (phone_public_key s) (action_text E ''unlock'' n ts) sg
    \<and> p = char_of (1 :: nat) # utf8 (windows_password W)"
  using assms by (rule handler_password)

lemma handler_shutdown:
  assumes "handler_frame E W now send_ok f s = (es, x, s')" and "RanCommand cmd \<in> set es"
  shows "shutdown_enabled W \<and> cmd = shutdown_command W \<and> (\<forall>p. Piped p \<notin> set es)
    \<and> (\<exists>t msg n ts sg. f = Frame (Inr t) \<and> loads t = Some (JObj msg) \<and> jget msg ''action'' = JStr ''shutdown''
         \<and> response_fields msg = Inr (JStr n, ts, sg) \<and> fst (win_verify E now (JStr n) ts sg ''shutdown'' s)
         \<and> signature_ok E (phone_public_key s) (action_text E ''shutdown'' n ts) sg)"
proof -
  have no: "RanCommand cmd \<notin> set (signal_credential_provider W b)" for b by (simp add: signal_credential_provider_def)
  from assms no obtain t msg where f: "f = Frame (Inr t)" "loads t = Some (JObj msg)" "win_response E W now send_ok msg s = (Inr es, s')"
    by (auto simp: handler_frame_def Let_def split: win_frame.splits sum.splits option.splits json.splits prod.splits if_splits)
  obtain nonce ts sg act where
    r0: "response_fields msg = Inr (nonce, ts, sg)" "jget_default msg ''action'' (JStr ''unlock'') = JStr act"
      "act = ''unlock'' \<or> act = ''shutdown'' \<and> shutdown_enabled W"
      "es = after_verify W send_ok act (fst (win_verify E now nonce ts sg act s))" by (rule win_response_active [OF f(3) disjI2 [OF assms(2)]])
  from assms(2) r0 have r: "shutdown_enabled W" "cmd = shutdown_command W" "act = ''shutdown''"
      "fst (win_verify E now nonce ts sg ''shutdown'' s)"
    by (auto simp: after_verify_ran)
  then have q: "\<forall>p. Piped p \<notin> set es" "jget msg ''action'' = JStr ''shutdown''"
    using r0 by (auto simp: after_verify_piped jget_def jget_default_def split: option.splits)
  from r(4) obtain n where "nonce = JStr n" "signature_ok E (phone_public_key s) (action_text E ''shutdown'' n ts) sg"
    unfolding win_verify_iff by auto
  with f r r0 q show ?thesis by blast
qed

text \<open>
  The laptop shuts down only when it may: a frame makes the handler run the command only when the
  feature is enabled, the frame asks for it, and the phone signed exactly this action with a fresh
  nonce that was accepted just then; a shutdown never touches the pipe, and an unlock never runs the
  command.
\<close>

theorem shutdown_only_when_enabled_and_signed:
  assumes "handler_frame E W now send_ok f s = (es, x, s')" and "RanCommand cmd \<in> set es"
  shows "shutdown_enabled W \<and> cmd = shutdown_command W \<and> (\<forall>p. Piped p \<notin> set es)
    \<and> (\<exists>t msg n ts sg. f = Frame (Inr t) \<and> loads t = Some (JObj msg) \<and> jget msg ''action'' = JStr ''shutdown''
         \<and> response_fields msg = Inr (JStr n, ts, sg) \<and> fst (win_verify E now (JStr n) ts sg ''shutdown'' s)
         \<and> signature_ok E (phone_public_key s) (action_text E ''shutdown'' n ts) sg)"
  using assms by (rule handler_shutdown)

section \<open>What is signed\<close>

text \<open>
  A signature of the Windows protocol determines its action: texts over nonces without a colon
  --- the drawn ones are hexadecimal --- agree only for the same action and the same nonce, so a
  signed unlock is never a signed shutdown, and neither is one of the laptop's own challenges.
\<close>

theorem action_text_binds:
  assumes "CHR '':'' \<notin> set n" "CHR '':'' \<notin> set n'"
    and "a \<in> {''unlock'', ''shutdown'', ''challenge''}" "a' \<in> {''unlock'', ''shutdown'', ''challenge''}"
    and "action_text E a n ts = action_text E a' n' ts'"
  shows "a = a' \<and> n = n' \<and> py_str (float_repr E) (JFloat ts) = py_str (float_repr E) (JFloat ts')"
proof -
  have c: "CHR '':'' \<notin> set a" "CHR '':'' \<notin> set a'" using assms(3,4) by auto
  from assms(5) have "a @ CHR '':'' # (n @ CHR '':'' # py_str (float_repr E) (JFloat ts))
      = a' @ CHR '':'' # (n' @ CHR '':'' # py_str (float_repr E) (JFloat ts'))"
    by (simp only: action_text_def utf8_inject append_Cons append_Nil)
  with append_sep_inject [OF c] append_sep_inject [OF assms(1,2)] show ?thesis by metis
qed

lemma challenge_text_action: "challenge_text E n t = action_text E ''challenge'' n (Fin t)"
  by (simp add: challenge_text_def action_text_def)

section \<open>Examples\<close>

definition toy_win :: "(nat, nat) win" where
  "toy_win = \<lparr>phone_public_key = 7, laptop_private_key = 7, pending_nonces = [], used_nonces = [], fail_times = []\<rparr>"

definition toy_settings :: win_settings where
  "toy_settings = \<lparr>windows_password = ''pw'', shutdown_enabled = True, shutdown_command = JStr ''off'', pipe_open = True\<rparr>"

text \<open>The toy signature is the key and the length of the message, 12 and 14 for the two actions.\<close>

definition toy_reply :: "string \<Rightarrow> (string \<times> json) list" where
  "toy_reply action =
     [(''type'', JStr ''response''), (''action'', JStr action), (''nonce'', JStr ''aa''), (''timestamp'', JInt 1),
      (''signature'', JStr (if action = ''unlock'' then ''070d'' else ''070f''))]"

lemma toy_verify:
  "fst (win_verify toy_ext 1 (JStr ''aa'') (Fin 1) (JStr ''070d'') ''unlock'' (toy_win\<lparr>pending_nonces := [(''aa'', 0)]\<rparr>))"
  "fst (win_verify toy_ext 1 (JStr ''aa'') (Fin 1) (JStr ''070f'') ''shutdown'' (toy_win\<lparr>pending_nonces := [(''aa'', 0)]\<rparr>))"
  by code_simp+

lemma action_text_binds_witness:
  "''unlock'' = ''unlock'' \<and> ''aa'' = ''aa'' \<and> py_str (float_repr toy_ext) (JFloat (Fin 1)) = py_str (float_repr toy_ext) (JFloat (Fin 1))"
  by (rule action_text_binds [where E = toy_ext]) simp_all

text \<open>Five wrong nonces within a minute, and a sixth a minute after the first.\<close>

definition toy_guesses :: "win_call list" where
  "toy_guesses = map (\<lambda>t. WVerify t (JStr ''zz'') (Fin t) (JStr ''00'') ''unlock'') [0, 1, 2, 3, 4, 61]"

lemma five_failures_a_minute_witness:
  "failures toy_ext toy_guesses toy_win ! 5 - failures toy_ext toy_guesses toy_win ! 0 > 60"
proof -
  have "fail_times toy_win = []" "ordered 0 toy_guesses" "0 + 5 < length (failures toy_ext toy_guesses toy_win)"
    by code_simp+
  from five_failures_a_minute [OF this] show ?thesis by simp
qed

lemma win_nonce_accepted_at_most_once_witness:
  "single_use.accepted (win_step toy_ext) (win_accepts toy_ext)
     [WIssue ''aa'' 0, WVerify 1 (JStr ''aa'') (Fin 1) (JStr ''070d'') ''unlock'', WVerify 2 (JStr ''aa'') (Fin 1) (JStr ''070d'') ''unlock'']
     toy_win ''aa'' \<le> 1"
proof -
  let ?cs = "[WIssue ''aa'' 0, WVerify 1 (JStr ''aa'') (Fin 1) (JStr ''070d'') ''unlock'',
      WVerify 2 (JStr ''aa'') (Fin 1) (JStr ''070d'') ''unlock'']"
  have n: "length (filter (\<lambda>c. win_draws c toy_win ''aa'') ?cs) = 1" by (simp add: win_draws_def)
  have "pending_nonces toy_win = []" by (simp add: toy_win_def)
  from win_nonce_accepted_at_most_once [OF this, of toy_ext ?cs "''aa''"] n show ?thesis by (simp only:)
qed

definition toy_wframe :: "string \<Rightarrow> win_frame" where
  "toy_wframe action = Frame (Inr (dumps (float_repr toy_ext) default_style (JObj (toy_reply action))))"

definition toy_challenged :: "(nat, nat) win" where
  "toy_challenged = toy_win\<lparr>pending_nonces := [(''aa'', 0)]\<rparr>"

lemma toy_loads: "loads (dumps (float_repr toy_ext) default_style (JObj (toy_reply action))) = Some (JObj (toy_reply action))"
proof -
  have p: "plain (JObj (toy_reply action))" and k: "sort_keys default_style = False"
    by (simp_all add: toy_reply_def dict_ok_def default_style_def)
  from loads_dumps [OF style_ok_default p, of "float_repr toy_ext"] show ?thesis
    by (simp only: k jnorm_False)
qed

lemma toy_fields:
  "jget (toy_reply action) ''type'' = JStr ''response''" "jget_default (toy_reply action) ''action'' v = JStr action"
  "response_fields (toy_reply action) = Inr (JStr ''aa'', Fin 1, JStr (if action = ''unlock'' then ''070d'' else ''070f''))"
  by (simp_all add: toy_reply_def jget_def jget_default_def response_fields_def jitem_def py_float_def to_float_def)

text \<open>A response with an action that is allowed is answered by the verification of its fields.\<close>

lemma handler_frame_response:
  assumes "loads t = Some (JObj msg)" "jget msg ''type'' = JStr ''response''" "jget_default msg ''action'' (JStr ''unlock'') = JStr act"
    "act = ''unlock'' \<or> act = ''shutdown'' \<and> shutdown_enabled W" "response_fields msg = Inr (nonce, ts, sg)"
  shows "handler_frame E W now send_ok (Frame (Inr t)) s =
    (after_verify W send_ok act (fst (win_verify E now nonce ts sg act s)), None, snd (win_verify E now nonce ts sg act s))"
  using assms by (auto simp: handler_frame_def win_response_def Let_def split: prod.splits)

lemma toy_unlock:
  "handler_frame toy_ext toy_settings 1 True (toy_wframe ''unlock'') toy_challenged =
     (win_result True @ [Piped (char_of (1 :: nat) # ''pw''), AlertFailed ''unlock_success''], None,
      snd (win_verify toy_ext 1 (JStr ''aa'') (Fin 1) (JStr ''070d'') ''unlock'' toy_challenged))"
  unfolding toy_wframe_def
  by (subst handler_frame_response [OF toy_loads toy_fields(1,2) _ toy_fields(3)])
    (simp_all add: toy_challenged_def toy_verify after_verify_def signal_credential_provider_def toy_settings_def win_alert_def
      utf8_char_def is_ascii_def)

lemma toy_shutdown:
  "handler_frame toy_ext toy_settings 1 True (toy_wframe ''shutdown'') toy_challenged =
     (win_result True @ [RanCommand (JStr ''off''), AlertFailed ''shutdown_triggered''], None,
      snd (win_verify toy_ext 1 (JStr ''aa'') (Fin 1) (JStr ''070f'') ''shutdown'' toy_challenged))"
  unfolding toy_wframe_def
  by (subst handler_frame_response [OF toy_loads toy_fields(1,2) _ toy_fields(3)])
    (simp_all add: toy_challenged_def toy_verify after_verify_def trigger_shutdown_def toy_settings_def win_alert_def)

lemma password_only_after_verified_unlock_witness:
  "Piped (char_of (1 :: nat) # ''pw'') \<in> set (fst (handler_frame toy_ext toy_settings 1 True (toy_wframe ''unlock'') toy_challenged))
    \<and> (\<exists>n ts sg. fst (win_verify toy_ext 1 (JStr n) ts sg ''unlock'' toy_challenged))"
proof -
  have "Piped (char_of (1 :: nat) # ''pw'') \<in> set (win_result True @ [Piped (char_of (1 :: nat) # ''pw''), AlertFailed ''unlock_success''])"
    "char_of (1 :: nat) # ''pw'' \<noteq> [char_of (0 :: nat)]" by simp_all
  from password_only_after_verified_unlock [OF toy_unlock this] toy_unlock show ?thesis by auto
qed

lemma shutdown_only_when_enabled_and_signed_witness:
  "RanCommand (JStr ''off'') \<in> set (fst (handler_frame toy_ext toy_settings 1 True (toy_wframe ''shutdown'') toy_challenged))
    \<and> (\<exists>n ts sg. fst (win_verify toy_ext 1 (JStr n) ts sg ''shutdown'' toy_challenged))"
proof -
  have "RanCommand (JStr ''off'') \<in> set (win_result True @ [RanCommand (JStr ''off''), AlertFailed ''shutdown_triggered''])" by simp
  from shutdown_only_when_enabled_and_signed [OF toy_shutdown this] toy_shutdown show ?thesis by auto
qed

section \<open>Where the checks do not hold what they promise\<close>

text \<open>
  A time stamp that is not a number passes the check of the clock, however late the clock is; only
  the age of the nonce bounds the answer then.
\<close>

lemma nan_timestamp_passes:
  "py_float (JStr ''nan'') = Inr NaN" "\<not> fgt (fabs (fsub (Fin now) NaN)) (Fin (MAX_CLOCK_SKEW + NONCE_TTL))"
  by code_simp simp

text \<open>
  The phone of the repository signs the decimal text of its time stamp.  On a whole second that text
  has no fraction, while a float of Python prints one: the text the service checks is another.
\<close>

lemma whole_second_mismatch:
  assumes "float_repr E (of_int t) = show_int t @ ''.0''"
  shows "py_float (JInt t) = Inr (Fin (of_int t)) \<Longrightarrow>
    action_text E action n (Fin (of_int t)) \<noteq> utf8 (action @ '':'' @ n @ '':'' @ show_int t)"
  using assms unfolding action_text_def utf8_inject by (simp add: py_str_def)

text \<open>
  A frame that is valid JSON but no object, and a time stamp that is no number, leave the handler
  with an exception that it does not catch: no answer, no failure recorded, and the credential
  provider is not told.
\<close>

lemma non_object_escapes:
  "handler_frame E W now send_ok (Frame (Inr ''5'')) s = ([], Some AttributeError, s)"
  "handler_frame E W now send_ok (Frame (Inr ''[]'')) s = ([], Some AttributeError, s)"
proof -
  have "loads ''5'' = Some (JInt 5)" "loads ''[]'' = Some (JList [])" by code_simp+
  then show "handler_frame E W now send_ok (Frame (Inr ''5'')) s = ([], Some AttributeError, s)"
    "handler_frame E W now send_ok (Frame (Inr ''[]'')) s = ([], Some AttributeError, s)"
    by (simp_all add: handler_frame_def caught_by_handler_def is_value_error_def)
qed

lemma null_timestamp_escapes:
  assumes "jget msg ''type'' = JStr ''response''" "jget_default msg ''action'' (JStr ''unlock'') = JStr ''unlock''"
    "map_of msg ''nonce'' = Some n" "map_of msg ''timestamp'' = Some JNull"
  shows "win_response E W now send_ok msg s = (Inl TypeError, s)" "\<not> caught_by_handler TypeError"
  using assms by (simp_all add: win_response_def Let_def response_fields_def jitem_def py_float_def caught_by_handler_def is_value_error_def)

end
