(* ===== verification/WinService.thy ===== *)
theory WinService
  imports WinListener Startup
begin

text \<open>
  How the Windows service comes up: \<open>build_ssl_context\<close> and \<open>main\<close> of
  \<^verbatim>\<open>src/windows/listener_windows.py\<close>.  Loading the laptop's key and the certificate chain and opening
  the server are external calls, given by their outcome.
\<close>

section \<open>The TLS context\<close>

text \<open>Client certificates are not asked for: the mode is the default of a server context.\<close>

definition win_ssl_context :: "(string \<times> json) list \<Rightarrow> (string \<Rightarrow> string \<Rightarrow> unit result) \<Rightarrow> ssl_context result" where
  "win_ssl_context config load_chain =
     (let cert_path = jget config ''tls_cert_path''; key_path = jget config ''tls_key_path''
      in if \<not> py_truthy cert_path \<or> \<not> py_truthy key_path
         then Inl (SystemExit ''No TLS certificate configured. Re-run pair_windows.py.'')
         else
           let ctx = \<lparr>minimum_version = TLSv1_2, cert_mode = CERT_NONE, chain = ([], []), trusted = []\<rparr>;
               ctx = ctx\<lparr>minimum_version := TLSv1_2\<rparr>
           in case (cert_path, key_path) of
                (JStr c, JStr k) \<Rightarrow> bindE (load_chain c k) (\<lambda>_. Inr (ctx\<lparr>chain := (c, k)\<rparr>))
              | _ \<Rightarrow> Inl TypeError)"

section \<open>The service object\<close>

text \<open>\<open>UnlockService.__init__\<close>; \<open>load_private\<close> is \<open>load_pem_private_key\<close> without a password.\<close>

definition win_service ::
  "('sk, 'pk) ext \<Rightarrow> (bytes \<Rightarrow> 'sk result) \<Rightarrow> (string \<times> json) list \<Rightarrow> string \<Rightarrow> (('sk, 'pk) win \<times> json) result" where
  "win_service E load_private config laptop_private_key_pem =
     bindE (jitem config ''phone_public_key_pem'') (\<lambda>v.
     bindE (case v of JStr s \<Rightarrow> load_pem E (utf8 s) | _ \<Rightarrow> Inl AttributeError) (\<lambda>pk.
     bindE (load_private (utf8 laptop_private_key_pem)) (\<lambda>sk.
       Inr (\<lparr>phone_public_key = pk, laptop_private_key = sk, pending_nonces = [], used_nonces = [], fail_times = []\<rparr>,
            jget_default config ''listener_port'' (JInt 8765)))))"

section \<open>main\<close>

text \<open>
  What \<open>main\<close> finds: the text of the configuration file, the variable
  \<^verbatim>\<open>REMOTE_UNLOCK_PASSPHRASE\<close> (empty when unset), the answer to the prompt, and the outcomes of the
  external calls.
\<close>

record 'sk win_host =
  config_text :: "string option"
  env_passphrase :: string
  typed_passphrase :: string
  load_private :: "bytes \<Rightarrow> 'sk result"
  win_load_chain :: "string \<Rightarrow> string \<Rightarrow> unit result"
  serve :: "json \<Rightarrow> json \<Rightarrow> unit result"

record ('sk, 'pk) win_runtime =
  win_svc :: "('sk, 'pk) win"
  win_password :: string
  win_ssl :: ssl_context
  win_shutdown :: "bool \<times> json"
  win_bind :: "json \<times> json"

text \<open>\<open>main\<close> returns early with a line in the log, or serves until it is cancelled.\<close>

datatype ('sk, 'pk) win_outcome = NotPaired | NotBound | Serving "('sk, 'pk) win_runtime"

definition default_command :: json where
  "default_command = JList [JStr ''shutdown'', JStr ''/s'', JStr ''/t'', JStr ''0'']"

definition serve_or_report :: "unit result \<Rightarrow> ('sk, 'pk) win_runtime \<Rightarrow> ('sk, 'pk) win_outcome result" where
  "serve_or_report outcome rt =
     (case outcome of
        Inr _ \<Rightarrow> Inr (Serving rt)
      | Inl e \<Rightarrow> if is_os_error e then Inr NotBound else Inl e)"

definition win_main :: "('sk, 'pk) ext \<Rightarrow> kdf \<Rightarrow> 'sk win_host \<Rightarrow> ('sk, 'pk) win_outcome result" where
  "win_main E K h =
     (case config_text h of
        None \<Rightarrow> Inr NotPaired
      | Some t \<Rightarrow>
          (case loads t of
             None \<Rightarrow> Inl JSONDecodeError
           | Some (JObj config) \<Rightarrow>
               (let passphrase = (if env_passphrase h \<noteq> [] then env_passphrase h else typed_passphrase h)
                in bindE (bindE (jitem config ''laptop_private_key_encrypted'') (\<lambda>v. decrypt_secret K v passphrase)) (\<lambda>pem.
                   bindE (case bindE (jitem config ''windows_password_encrypted'') (\<lambda>v. decrypt_secret K v passphrase) of
                            Inl e \<Rightarrow> Inl (if e = InvalidToken then SystemExit ''Wrong passphrase.'' else e)
                          | Inr p \<Rightarrow> Inr p) (\<lambda>password.
                   bindE (win_service E (load_private h) config pem) (\<lambda>(service, port).
                   bindE (win_ssl_context config (win_load_chain h)) (\<lambda>ctx.
                     let enabled = py_truthy (jget_default config ''shutdown_enabled'' (JBool False));
                         command = jget_default config ''shutdown_command'' default_command;
                         bind_ip = jget_default config ''listener_ip'' (JStr ''0.0.0.0'')
                     in serve_or_report (serve h bind_ip port)
                          \<lparr>win_svc = service, win_password = password, win_ssl = ctx,
                           win_shutdown = (enabled, command), win_bind = (bind_ip, port)\<rparr>)))))
           | Some _ \<Rightarrow> Inl TypeError))"

text \<open>The settings the handlers of the running service work with, given whether a provider waits.\<close>

definition settings_of :: "('sk, 'pk) win_runtime \<Rightarrow> bool \<Rightarrow> win_settings" where
  "settings_of rt waits =
     \<lparr>windows_password = win_password rt, shutdown_enabled = fst (win_shutdown rt),
      shutdown_command = snd (win_shutdown rt), pipe_open = waits\<rparr>"

section \<open>What a service that came up has\<close>

lemma win_ssl_Inr:
  "win_ssl_context config lc = Inr ctx \<Longrightarrow>
    minimum_version ctx = TLSv1_2 \<and> cert_mode ctx = CERT_NONE
    \<and> jget config ''tls_cert_path'' = JStr (fst (chain ctx)) \<and> jget config ''tls_key_path'' = JStr (snd (chain ctx))
    \<and> lc (fst (chain ctx)) (snd (chain ctx)) = Inr ()"
  by (auto simp: win_ssl_context_def Let_def bindE_eq_Inr split: if_splits json.splits)

lemma serve_or_report_Serving: "serve_or_report x rt = Inr (Serving rt') \<longleftrightarrow> (\<exists>u. x = Inr u) \<and> rt' = rt"
  by (auto simp: serve_or_report_def split: sum.splits)

lemma win_main_Serving:
  assumes "win_main E K h = Inr (Serving rt)"
  obtains t config pem pw where "config_text h = Some t" "loads t = Some (JObj config)"
    "pw = (if env_passphrase h \<noteq> [] then env_passphrase h else typed_passphrase h)"
    "bindE (jitem config ''laptop_private_key_encrypted'') (\<lambda>v. decrypt_secret K v pw) = Inr pem"
    "bindE (jitem config ''windows_password_encrypted'') (\<lambda>v. decrypt_secret K v pw) = Inr (win_password rt)"
    "win_service E (load_private h) config pem = Inr (win_svc rt, snd (win_bind rt))"
    "win_ssl_context config (win_load_chain h) = Inr (win_ssl rt)"
proof -
  from assms obtain t config where t: "config_text h = Some t" "loads t = Some (JObj config)"
    by (auto simp: win_main_def split: option.splits json.splits)
  define pw where "pw = (if env_passphrase h \<noteq> [] then env_passphrase h else typed_passphrase h)"
  let ?key = "bindE (jitem config ''laptop_private_key_encrypted'') (\<lambda>v. decrypt_secret K v pw)"
  let ?account = "bindE (jitem config ''windows_password_encrypted'') (\<lambda>v. decrypt_secret K v pw)"
  let ?ssl = "win_ssl_context config (win_load_chain h)"
  from assms t obtain pem password where p: "?key = Inr pem" "?account = Inr password"
    unfolding win_main_def pw_def [symmetric] Let_def by (cases ?key; cases ?account) simp_all
  from assms t p obtain svc port where v: "win_service E (load_private h) config pem = Inr (svc, port)"
    unfolding win_main_def pw_def [symmetric] Let_def by (cases "win_service E (load_private h) config pem") auto
  from assms t p v obtain ctx where c: "?ssl = Inr ctx"
    unfolding win_main_def pw_def [symmetric] Let_def by (cases ?ssl) auto
  have "win_password rt = password \<and> win_svc rt = svc \<and> snd (win_bind rt) = port \<and> win_ssl rt = ctx"
    using assms t p v c unfolding win_main_def pw_def [symmetric] Let_def by (auto simp: serve_or_report_Serving)
  with p v c have "?key = Inr pem" "?account = Inr (win_password rt)"
    "win_service E (load_private h) config pem = Inr (win_svc rt, snd (win_bind rt))" "?ssl = Inr (win_ssl rt)" by simp_all
  with t pw_def that show ?thesis by blast
qed

text \<open>
  The two builds do not protect the connection alike: the context of the Windows service accepts
  an older version of TLS than that of the Linux service, and asks no client for a certificate.
\<close>

lemma windows_tls_weaker:
  "win_ssl_context config lc = Inr ctx \<Longrightarrow> build_ssl_context cf t dir lc' la = Inr ctx' \<Longrightarrow>
    minimum_version ctx < minimum_version ctx' \<and> cert_mode ctx = CERT_NONE \<and> cert_mode ctx' \<noteq> CERT_NONE"
  using win_ssl_Inr [of config lc ctx] by (auto simp: build_ssl_context_def Let_def bindE_eq_Inr split: if_splits)

text \<open>Without an address in the file the service listens on every interface.\<close>

lemma default_bind_wildcard:
  "map_of config ''listener_ip'' = None \<Longrightarrow> wildcard ''0.0.0.0'' \<and> jget_default config ''listener_ip'' (JStr ''0.0.0.0'') = JStr ''0.0.0.0''"
  by (simp add: wildcard_def jget_default_def)

end
