(* ===== verification/WinInstall.thy ===== *)
theory WinInstall
  imports Enrolment WinPair WinService
begin

text \<open>
  The two Windows programs together: what \<open>pair_windows\<close> writes, the listener reads back, and the
  phone that was paired unlocks with the password that was typed.
\<close>

section \<open>From pairing to serving\<close>

text \<open>The configuration is read back as it was written.\<close>

lemma paired_config:
  assumes "win_pair W P K r a dir s = (Inr (), s')"
  shows "\<exists>t. map_option contents (fst s' (win_path dir ''pairing.json'')) = Some t \<and> loads t = Some (JObj (win_entries P K r a dir))"
  using assms by (rule win_pair_Inr) (simp add: loads_indent win_entries_plain del: dumps_indent.simps plain.simps)

lemma win_entries_get:
  "jitem (win_entries P K r a dir) ''phone_public_key_pem'' = Inr (JStr (phone_line a))"
  "jitem (win_entries P K r a dir) ''laptop_private_key_encrypted'' =
     Inr (encrypt_secret K (salts r 0) (utf8_decode (plain_pem P (win_keys r 0))) (new_pass a))"
  "jitem (win_entries P K r a dir) ''windows_password_encrypted'' = Inr (encrypt_secret K (salts r 1) (account_pass a) (new_pass a))"
  "jget_default (win_entries P K r a dir) ''listener_port'' v = JInt 8765"
  "jget_default (win_entries P K r a dir) ''listener_ip'' v = JStr (py_strip (ip_line a))"
  "jget_default (win_entries P K r a dir) ''shutdown_enabled'' v = JBool (py_lower (py_strip (shutdown_line a)) = ''y'')"
  "jget_default (win_entries P K r a dir) ''shutdown_command'' v = default_command"
  "jget (win_entries P K r a dir) ''tls_cert_path'' = JStr (win_path dir ''cert.pem'')"
  "jget (win_entries P K r a dir) ''tls_key_path'' = JStr (win_path dir ''key.pem'')"
  by (simp_all add: win_entries_def jitem_def jget_def jget_default_def default_command_def)

lemma paired_serves:
  assumes "fernet_ok K" and "win_pair W P K r a dir s = (Inr (), s')"
    and "config_text h = map_option contents (fst s' (win_path dir ''pairing.json''))"
    and "(if env_passphrase h \<noteq> [] then env_passphrase h else typed_passphrase h) = new_pass a"
    and "load_private h (utf8 (utf8_decode (plain_pem P (win_keys r 0)))) = Inr (win_keys r 0)"
    and "load_pem (base P) (utf8 (phone_line a)) = Inr pk"
    and "win_load_chain h (win_path dir ''cert.pem'') (win_path dir ''key.pem'') = Inr ()"
    and "serve h (JStr (py_strip (ip_line a))) (JInt 8765) = Inr ()"
  shows "\<exists>ctx. win_main (base P) K h = Inr (Serving
    \<lparr>win_svc = \<lparr>phone_public_key = pk, laptop_private_key = win_keys r 0, pending_nonces = [], used_nonces = [], fail_times = []\<rparr>,
     win_password = account_pass a, win_ssl = ctx,
     win_shutdown = (py_lower (py_strip (shutdown_line a)) = ''y'', default_command),
     win_bind = (JStr (py_strip (ip_line a)), JInt 8765)\<rparr>)"
proof -
  obtain t where t: "config_text h = Some t" "loads t = Some (JObj (win_entries P K r a dir))"
    using paired_config [OF assms(2)] assms(3) by metis
  have ne: "win_path dir n \<noteq> []" for n by (simp add: win_path_def)
  have c: "win_ssl_context (win_entries P K r a dir) (win_load_chain h) =
      Inr \<lparr>minimum_version = TLSv1_2, cert_mode = CERT_NONE, chain = (win_path dir ''cert.pem'', win_path dir ''key.pem''), trusted = []\<rparr>"
    by (simp add: win_ssl_context_def win_entries_get ne assms(7) Let_def)
  show ?thesis
    by (simp add: win_main_def t assms(4-6,8) Let_def win_entries_get decrypt_encrypt [OF assms(1)] win_service_def c
        serve_or_report_def)
qed

text \<open>
  C37.  The pairing tool and the service fit together: a service started on the file that a pairing
  wrote, with the passphrase set there, serves on the address given there, with the laptop key that
  was generated, the phone's key and the Windows password that were typed, the remote shutdown on
  or off as answered, and no nonce pending.
\<close>

theorem paired_windows_serves:
  assumes "fernet_ok K" and "win_pair W P K r a dir s = (Inr (), s')"
    and "config_text h = map_option contents (fst s' (win_path dir ''pairing.json''))"
    and "(if env_passphrase h \<noteq> [] then env_passphrase h else typed_passphrase h) = new_pass a"
    and "load_private h (utf8 (utf8_decode (plain_pem P (win_keys r 0)))) = Inr (win_keys r 0)"
    and "load_pem (base P) (utf8 (phone_line a)) = Inr pk"
    and "win_load_chain h (win_path dir ''cert.pem'') (win_path dir ''key.pem'') = Inr ()"
    and "serve h (JStr (py_strip (ip_line a))) (JInt 8765) = Inr ()"
  shows "\<exists>ctx. win_main (base P) K h = Inr (Serving
    \<lparr>win_svc = \<lparr>phone_public_key = pk, laptop_private_key = win_keys r 0, pending_nonces = [], used_nonces = [], fail_times = []\<rparr>,
     win_password = account_pass a, win_ssl = ctx,
     win_shutdown = (py_lower (py_strip (shutdown_line a)) = ''y'', default_command),
     win_bind = (JStr (py_strip (ip_line a)), JInt 8765)\<rparr>)"
  using assms by (rule paired_serves)

section \<open>From serving to unlocking\<close>

lemma map_of_keep_update: "p n t \<Longrightarrow> map_of (dict_keep p (AList.update n t d)) n = Some t"
  by (induction d) (auto simp: dict_keep_def)

lemma opened:
  assumes "handler_open E nonce now s = (es, s1)"
  shows "map_of (pending_nonces s1) nonce = Some now \<and> used_nonces s1 = used_nonces s \<and> fail_times s1 = fail_times s
    \<and> phone_public_key s1 = phone_public_key s"
  using assms by (auto simp: handler_open_def win_issue_challenge_def Let_def map_of_keep_update NONCE_TTL_def)

lemma honest_unlock:
  assumes o: "handler_open E nonce now s = (es, s1)"
    and f: "loads t = Some (JObj msg)" "jget msg ''type'' = JStr ''response''" "jget_default msg ''action'' (JStr ''unlock'') = JStr ''unlock''"
      "response_fields msg = Inr (JStr nonce, Fin ts, JStr (to_hex sig))"
    and v: "ec_verify E (phone_public_key s) sig (action_text E ''unlock'' nonce (Fin ts)) = None"
    and n: "nonce \<notin> set (used_nonces s)" "length (fail_times s) < 5"
    and time: "later - now \<le> 10" "\<bar>later - ts\<bar> \<le> 15"
  shows "fst (handler_frame E W later True (Frame (Inr t)) s1) =
    win_result True @ signal_credential_provider W True @ win_alert ''unlock_success''"
proof -
  have "length (fail_times s1) < 5" using opened [OF o] n(2) by simp
  then have r: "\<not> fst (rate_limited later s1)"
    using le_less_trans [OF length_dropWhile_le] by (auto simp: rate_limited_def Let_def RATE_LIMIT_MAX_FAILS_def not_le)
  have "fst (win_verify E later (JStr nonce) (Fin ts) (JStr (to_hex sig)) ''unlock'' s1)"
    using opened [OF o] v n(1) time r by (simp add: win_verify_iff signature_ok_def)
  then show ?thesis
    using handler_frame_response [OF f(1-3) _ f(4), where E = E and W = W and now = later and send_ok = True and s = s1] by (simp add: after_verify_def)
qed

text \<open>
  C13.  The paired phone unlocks the paired laptop: on a service that came up from the file of a
  pairing, a response that the phone signed for the challenge just issued, within ten seconds of
  it and with a clock at most fifteen seconds off, makes the service answer yes and hand the
  password typed at the pairing to a credential provider that waits.
\<close>

theorem paired_phone_unlocks_windows:
  assumes "fernet_ok K" and "win_pair W P K r a dir s = (Inr (), s')"
    and "config_text h = map_option contents (fst s' (win_path dir ''pairing.json''))"
    and "(if env_passphrase h \<noteq> [] then env_passphrase h else typed_passphrase h) = new_pass a"
    and "load_private h (utf8 (utf8_decode (plain_pem P (win_keys r 0)))) = Inr (win_keys r 0)"
    and "load_pem (base P) (utf8 (phone_line a)) = Inr pk"
    and "win_load_chain h (win_path dir ''cert.pem'') (win_path dir ''key.pem'') = Inr ()"
    and "serve h (JStr (py_strip (ip_line a))) (JInt 8765) = Inr ()"
    and phone: "ec_verify (base P) pk sig (action_text (base P) ''unlock'' nonce (Fin ts)) = None"
    and frame: "loads t = Some (JObj msg)" "jget msg ''type'' = JStr ''response''"
      "jget_default msg ''action'' (JStr ''unlock'') = JStr ''unlock''"
      "response_fields msg = Inr (JStr nonce, Fin ts, JStr (to_hex sig))"
    and time: "later - now \<le> 10" "\<bar>later - ts\<bar> \<le> 15"
  shows "\<exists>rt es s1. win_main (base P) K h = Inr (Serving rt) \<and> handler_open (base P) nonce now (win_svc rt) = (es, s1)
    \<and> WinSent (JObj [(''type'', JStr ''result''), (''ok'', JBool True)])
        \<in> set (fst (handler_frame (base P) (settings_of rt True) later True (Frame (Inr t)) s1))
    \<and> Piped (char_of (1 :: nat) # utf8 (account_pass a))
        \<in> set (fst (handler_frame (base P) (settings_of rt True) later True (Frame (Inr t)) s1))"
proof -
  from paired_serves [OF assms(1-8)] obtain rt where rt: "win_main (base P) K h = Inr (Serving rt)"
    "phone_public_key (win_svc rt) = pk" "used_nonces (win_svc rt) = []" "fail_times (win_svc rt) = []" "win_password rt = account_pass a"
    by force
  obtain es s1 where o: "handler_open (base P) nonce now (win_svc rt) = (es, s1)" by fastforce
  from honest_unlock [OF o frame _ _ _ time, of "settings_of rt True"] rt phone
  have "WinSent (JObj [(''type'', JStr ''result''), (''ok'', JBool True)])
      \<in> set (fst (handler_frame (base P) (settings_of rt True) later True (Frame (Inr t)) s1))
    \<and> Piped (char_of (1 :: nat) # utf8 (account_pass a))
      \<in> set (fst (handler_frame (base P) (settings_of rt True) later True (Frame (Inr t)) s1))"
    by (simp add: signal_credential_provider_def settings_of_def win_result_def)
  with rt(1) o show ?thesis by blast
qed

section \<open>A wrong passphrase\<close>

text \<open>
  C38.  A wrong passphrase stops the service, but not as the code means to: the token of the laptop
  key is decrypted first, outside the \<open>try\<close>, so \<open>InvalidToken\<close> ends the program where
  \<^verbatim>\<open>Wrong passphrase.\<close> was meant to.
\<close>

theorem wrong_passphrase_raises:
  assumes "win_pair W P K r a dir s = (Inr (), s')"
    and "config_text h = map_option contents (fst s' (win_path dir ''pairing.json''))"
    and "typed_passphrase h = pw" "env_passphrase h = []"
    and "decrypt_secret K (encrypt_secret K (salts r 0) (utf8_decode (plain_pem P (win_keys r 0))) (new_pass a)) pw = Inl InvalidToken"
  shows "win_main (base P) K h = Inl InvalidToken \<and> InvalidToken \<noteq> SystemExit ''Wrong passphrase.''"
proof -
  obtain t where "config_text h = Some t" "loads t = Some (JObj (win_entries P K r a dir))"
    using paired_config [OF assms(1)] assms(2) by metis
  then show ?thesis using assms(3-5) by (simp add: win_main_def win_entries_get Let_def) (simp add: InvalidToken_def)
qed

section \<open>Examples\<close>

text \<open>A toy Fernet whose token names the key, so that another key is refused.\<close>

definition toy_kdf :: kdf where
  "toy_kdf = \<lparr>scrypt = (\<lambda>pw salt. pw), fernet_encrypt = (\<lambda>k m. k @ newline_char # m),
     fernet_decrypt = (\<lambda>k b. let c = utf8_decode b; n = length k
       in if take (Suc n) c = k @ [newline_char] then Inr (drop (Suc n) c) else Inl InvalidToken)\<rparr>"

lemma toy_fernet: "fernet_ok toy_kdf"
  by (simp add: fernet_ok_def toy_kdf_def Let_def del: utf8_append utf8_simps)

definition toy_win_run :: "nat win_run" where
  "toy_win_run = \<lparr>utcnow = 0, win_keys = (\<lambda>i. 7), cert_serial = 1, token_hex = ''00'', salts = (\<lambda>i. ''salt''),
     win_disk = (\<lambda>p. Whole)\<rparr>"

text \<open>The access list is the list of the accounts it allows.\<close>

definition toy_security :: "(string, string list) win_security" where
  "toy_security = \<lparr>user_name = ''me'', lookup_account = Inr, new_acl = [], add_allowed = (\<lambda>m x l. l @ [x]),
     made = Inr (), got = Inr (), applied = (\<lambda>l. Inr ())\<rparr>"

definition toy_answers :: win_answers where
  "toy_answers = \<lparr>ip_line = ''100.64.0.5'', new_pass = ''secret'', again_pass = ''secret'', account_pass = ''pw'',
     shutdown_line = ''y'', phone_line = ''1234567''\<rparr>"

lemma toy_pairing: "\<exists>s'. win_pair toy_security toy_pki toy_kdf toy_win_run toy_answers ''d'' (\<lambda>_. None, []) = (Inr (), s')"
proof -
  have "ip_address ''100.64.0.5'' = Inr (IPv4 1681915909)" by code_simp
  moreover have "py_strip ''100.64.0.5'' = ''100.64.0.5''" by code_simp
  ultimately show ?thesis
    by (auto simp: win_pair_def generate_tls_cert_def bindS_def on_files_def lift_def say_def read_file_def write_plain_def write_in_place_def
        lock_down_config_dir_def toy_security_def toy_win_run_def toy_answers_def Let_def win_path_def simp del: dumps_indent.simps)
qed

definition toy_started :: "string \<Rightarrow> fs \<Rightarrow> nat win_host" where
  "toy_started pw fs = \<lparr>config_text = map_option contents (fs (win_path ''d'' ''pairing.json'')), env_passphrase = [],
     typed_passphrase = pw, load_private = (\<lambda>b. Inr 7), win_load_chain = (\<lambda>c k. Inr ()), serve = (\<lambda>i p. Inr ())\<rparr>"

lemma toy_started:
  "config_text (toy_started pw fs) = map_option contents (fs (win_path ''d'' ''pairing.json''))"
  "(if env_passphrase (toy_started ''secret'' fs) \<noteq> [] then env_passphrase (toy_started ''secret'' fs)
    else typed_passphrase (toy_started ''secret'' fs)) = new_pass toy_answers"
  "load_private (toy_started pw fs) x = Inr (win_keys toy_win_run 0)"
  "load_pem (base toy_pki) (utf8 (phone_line toy_answers)) = Inr 7"
  "win_load_chain (toy_started pw fs) x y = Inr ()" "serve (toy_started pw fs) u v = Inr ()"
  "typed_passphrase (toy_started pw fs) = pw" "env_passphrase (toy_started pw fs) = []"
  by (simp_all add: toy_started_def toy_answers_def toy_win_run_def toy_ext_def utf8_char_def is_ascii_def)

lemma paired_windows_serves_witness:
  "\<exists>h ctx. win_main toy_ext toy_kdf h = Inr (Serving
    \<lparr>win_svc = \<lparr>phone_public_key = 7, laptop_private_key = 7, pending_nonces = [], used_nonces = [], fail_times = []\<rparr>,
     win_password = ''pw'', win_ssl = ctx, win_shutdown = (True, default_command), win_bind = (JStr ''100.64.0.5'', JInt 8765)\<rparr>)"
proof -
  obtain s' where p: "win_pair toy_security toy_pki toy_kdf toy_win_run toy_answers ''d'' (\<lambda>_. None, []) = (Inr (), s')"
    using toy_pairing by blast
  have a: "account_pass toy_answers = ''pw''" "py_lower (py_strip (shutdown_line toy_answers)) = ''y''"
    "py_strip (ip_line toy_answers) = ''100.64.0.5''" "win_keys toy_win_run 0 = 7" by code_simp+
  have b: "base toy_pki = toy_ext" by (simp)
  from paired_windows_serves [OF toy_fernet p toy_started(1) [where pw = "''secret''" and fs = "fst s'"] toy_started(2) [where fs = "fst s'"]
      toy_started(3) [where pw = "''secret''" and fs = "fst s'"]
      toy_started(4) toy_started(5,6) [where pw = "''secret''" and fs = "fst s'"], unfolded a b] show ?thesis by auto
qed

lemma paired_phone_unlocks_windows_witness:
  "\<exists>h rt es s1. win_main toy_ext toy_kdf h = Inr (Serving rt) \<and> handler_open toy_ext ''aa'' 0 (win_svc rt) = (es, s1)
    \<and> Piped (char_of (1 :: nat) # utf8 ''pw'')
        \<in> set (fst (handler_frame toy_ext (settings_of rt True) 1 True (toy_wframe ''unlock'') s1))"
proof -
  obtain s' where p: "win_pair toy_security toy_pki toy_kdf toy_win_run toy_answers ''d'' (\<lambda>_. None, []) = (Inr (), s')"
    using toy_pairing by blast
  have a: "account_pass toy_answers = ''pw''" "base toy_pki = toy_ext" by (simp_all add: toy_answers_def)
  have x: "to_hex [CHR 0x07, CHR 0x0D] = ''070d''" by code_simp
  have v: "ec_verify (base toy_pki) 7 [CHR 0x07, CHR 0x0D] (action_text (base toy_pki) ''unlock'' ''aa'' (Fin 1)) = None"
    by code_simp
  have f: "response_fields (toy_reply ''unlock'') = Inr (JStr ''aa'', Fin 1, JStr (to_hex [CHR 0x07, CHR 0x0D]))"
    by (simp add: toy_fields x)
  have t: "(1 :: time) - 0 \<le> 10" "\<bar>(1 :: time) - 1\<bar> \<le> 15" by simp_all
  from paired_phone_unlocks_windows [OF toy_fernet p toy_started(1) [where pw = "''secret''" and fs = "fst s'"] toy_started(2) [where fs = "fst s'"]
      toy_started(3) [where pw = "''secret''" and fs = "fst s'"]
      toy_started(4) toy_started(5,6) [where pw = "''secret''" and fs = "fst s'"] v toy_loads toy_fields(1,2) f t, folded toy_wframe_def]
  show ?thesis unfolding a by blast
qed

lemma wrong_passphrase_raises_witness:
  "\<exists>h. win_main toy_ext toy_kdf h = Inl InvalidToken"
proof -
  obtain s' where p: "win_pair toy_security toy_pki toy_kdf toy_win_run toy_answers ''d'' (\<lambda>_. None, []) = (Inr (), s')"
    using toy_pairing by blast
  have d: "decrypt_secret toy_kdf (encrypt_secret toy_kdf (salts toy_win_run 0) (utf8_decode (plain_pem toy_pki (win_keys toy_win_run 0)))
      (new_pass toy_answers)) ''wrong'' = Inl InvalidToken" by code_simp
  have "base toy_pki = toy_ext" by (simp)
  with wrong_passphrase_raises [OF p toy_started(1,7,8) [where pw = "''wrong''" and fs = "fst s'"] d] show ?thesis by auto
qed

end
