(* ===== verification/WinLimiter.thy ===== *)
theory WinLimiter
  imports WinListener "HOL-Library.While_Combinator"
begin

text \<open>
  The rate limit of the Windows service: the loop of \<open>_rate_limited\<close> and the deque it prunes. The
  service forgets the failures it pops; a reference service keeps every one of them and counts the
  recent ones. As long as the clock does not go back the two answer alike.
\<close>

section \<open>The loop\<close>

definition prune_loop :: "time \<Rightarrow> time list \<Rightarrow> time list" where
  "prune_loop now = while (\<lambda>ts. ts \<noteq> [] \<and> now - hd ts > RATE_LIMIT_WINDOW) tl"

lemma prune_loop_eq: "prune_loop now ts = dropWhile (\<lambda>t. now - t > RATE_LIMIT_WINDOW) ts"
proof (induction ts)
  case Nil
  show ?case unfolding prune_loop_def by (subst while_unfold) simp
next
  case (Cons t ts)
  then show ?case unfolding prune_loop_def by (subst while_unfold) simp
qed

lemma rate_limited_loop:
  "rate_limited now s = (let s = s\<lparr>fail_times := prune_loop now (fail_times s)\<rparr> in (length (fail_times s) \<ge> RATE_LIMIT_MAX_FAILS, s))"
  by (simp add: rate_limited_def prune_loop_eq)

section \<open>The reference\<close>

definition recent :: "time \<Rightarrow> time list \<Rightarrow> time list" where
  "recent now ts = filter (\<lambda>t. now - t \<le> RATE_LIMIT_WINDOW) ts"

text \<open>Nothing is pruned: the checks after the limit run on an empty deque, and what they record is appended.\<close>

definition ref_verify ::
  "('sk, 'pk) ext \<Rightarrow> time \<Rightarrow> json \<Rightarrow> pyfloat \<Rightarrow> json \<Rightarrow> string \<Rightarrow> ('sk, 'pk) win \<Rightarrow> bool \<times> ('sk, 'pk) win" where
  "ref_verify E now nonce ts sg action s =
     (if (action = ''unlock'' \<or> action = ''shutdown'') \<and> length (recent now (fail_times s)) \<ge> RATE_LIMIT_MAX_FAILS then (False, s)
      else let (ok, s') = win_verify E now nonce ts sg action (s\<lparr>fail_times := []\<rparr>)
           in (ok, s'\<lparr>fail_times := fail_times s @ fail_times s'\<rparr>))"

text \<open>The answers of a run, with either service.\<close>

fun verdicts ::
  "(time \<Rightarrow> json \<Rightarrow> pyfloat \<Rightarrow> json \<Rightarrow> string \<Rightarrow> ('sk, 'pk) win \<Rightarrow> bool \<times> ('sk, 'pk) win) \<Rightarrow> ('sk, 'pk) ext \<Rightarrow>
     win_call list \<Rightarrow> ('sk, 'pk) win \<Rightarrow> bool list" where
  "verdicts V E [] s = []"
| "verdicts V E (WIssue nonce now # cs) s = verdicts V E cs (snd (win_issue_challenge E nonce now s))"
| "verdicts V E (WVerify now nonce ts sg action # cs) s =
     (let (ok, s') = V now nonce ts sg action s in ok # verdicts V E cs s')"

section \<open>The deque holds what counts\<close>

lemma dropWhile_recent: "sorted ts \<Longrightarrow> dropWhile (\<lambda>t. now - t > RATE_LIMIT_WINDOW) ts = recent now ts"
proof (induction ts)
  case (Cons t ts)
  then show ?case by (cases "now - t > RATE_LIMIT_WINDOW") (auto simp: recent_def intro!: filter_True [symmetric])
qed (simp add: recent_def)

definition forgot :: "time \<Rightarrow> ('sk, 'pk) win \<Rightarrow> ('sk, 'pk) win \<Rightarrow> bool" where
  "forgot t s r \<longleftrightarrow> (\<exists>d. r = s\<lparr>fail_times := d @ fail_times s\<rparr> \<and> sorted (d @ fail_times s)
     \<and> list_all (\<lambda>x. x \<le> t) (d @ fail_times s) \<and> list_all (\<lambda>x. t - x > RATE_LIMIT_WINDOW) d)"

lemma forgot_refl: "sorted (fail_times s) \<Longrightarrow> list_all (\<lambda>x. x \<le> t) (fail_times s) \<Longrightarrow> forgot t s s"
  unfolding forgot_def by (rule exI [of _ "[]"]) simp

lemma forgot_later: "forgot t s r \<Longrightarrow> t \<le> t' \<Longrightarrow> forgot t' s r"
  unfolding forgot_def list_all_iff by force

lemma forgot_recent:
  assumes "forgot now s r" shows "recent now (fail_times r) = recent now (fail_times s)"
  using assms by (auto simp: forgot_def recent_def list_all_iff filter_empty_conv not_le)

lemma forgot_prune: "forgot now s r \<Longrightarrow> forgot now (snd (rate_limited now s)) r"
proof -
  assume "forgot now s r"
  then obtain d where r: "r = s\<lparr>fail_times := d @ fail_times s\<rparr>" "sorted (d @ fail_times s)"
    "list_all (\<lambda>x. x \<le> now) (d @ fail_times s)" "list_all (\<lambda>x. now - x > RATE_LIMIT_WINDOW) d" by (auto simp: forgot_def)
  let ?p = "\<lambda>x. now - x > RATE_LIMIT_WINDOW"
  have e: "(d @ takeWhile ?p (fail_times s)) @ dropWhile ?p (fail_times s) = d @ fail_times s" by simp
  have "list_all ?p (d @ takeWhile ?p (fail_times s))" using r(4) by (auto simp: list_all_iff dest: set_takeWhileD)
  with r e show ?thesis
    unfolding forgot_def rate_limited_def Let_def by (intro exI [of _ "d @ takeWhile ?p (fail_times s)"]) simp
qed

lemma forgot_record: "forgot now s r \<Longrightarrow> forgot now (s\<lparr>fail_times := fail_times s @ [now]\<rparr>) (r\<lparr>fail_times := fail_times r @ [now]\<rparr>)"
  unfolding forgot_def by (auto simp: sorted_append list_all_iff)

section \<open>One verification\<close>

lemma limited_recent: "sorted (fail_times s) \<Longrightarrow> fst (rate_limited now s) \<longleftrightarrow> length (recent now (fail_times s)) \<ge> RATE_LIMIT_MAX_FAILS"
  by (simp add: rate_limited_def dropWhile_recent)

text \<open>Past the limit, the deque matters no more: what is recorded is appended to it.\<close>

definition open_deque :: "time \<Rightarrow> string \<Rightarrow> ('sk, 'pk) win \<Rightarrow> ('sk, 'pk) win" where
  "open_deque now action s = (if action = ''unlock'' \<or> action = ''shutdown'' then snd (rate_limited now s) else s)"

lemma win_verify_refused:
  "action = ''unlock'' \<or> action = ''shutdown'' \<Longrightarrow> fst (rate_limited now s) \<Longrightarrow>
    win_verify E now nonce ts sg action s = (False, snd (rate_limited now s))"
  by (auto simp: win_verify_def Let_def split: prod.split)

lemma win_verify_past:
  assumes "\<not> ((action = ''unlock'' \<or> action = ''shutdown'') \<and> fst (rate_limited now s))"
    and "win_verify E now nonce ts sg action (s\<lparr>fail_times := []\<rparr>) = (ok, s')"
  shows "win_verify E now nonce ts sg action s = (ok, s'\<lparr>fail_times := fail_times (open_deque now action s) @ fail_times s'\<rparr>)"
    and "fail_times s' \<in> {[], [now]}"
  using assms
  by (cases nonce; auto simp: win_verify_def open_deque_def rate_limited_def record_failure_def Let_def RATE_LIMIT_MAX_FAILS_def
      split: option.splits if_splits)+

section \<open>The two services answer alike\<close>

lemma forgot_sorted: "forgot t s r \<Longrightarrow> sorted (fail_times s)"
  by (auto simp: forgot_def sorted_append)

lemma forgot_issue:
  "forgot t s r \<Longrightarrow> forgot t (snd (win_issue_challenge E nonce now s)) (snd (win_issue_challenge E nonce now r))"
  unfolding forgot_def win_issue_challenge_def by (elim exE, rule_tac x = d in exI) (simp add: Let_def)

lemma forgot_verify:
  assumes f: "forgot now s r" and v: "win_verify E now nonce ts sg action s = (ok, s1)"
  shows "\<exists>r1. ref_verify E now nonce ts sg action r = (ok, r1) \<and> forgot now s1 r1"
proof -
  let ?act = "action = ''unlock'' \<or> action = ''shutdown''"
  have lim: "fst (rate_limited now s) \<longleftrightarrow> length (recent now (fail_times r)) \<ge> RATE_LIMIT_MAX_FAILS"
    unfolding forgot_recent [OF f] by (rule limited_recent [OF forgot_sorted [OF f]])
  have o: "forgot now (open_deque now action s) r"
    using f forgot_prune [OF f] by (simp add: open_deque_def)
  show ?thesis
  proof (cases "?act \<and> fst (rate_limited now s)")
    case True
    with v win_verify_refused [of action now s E nonce ts sg] have "ok = False" "s1 = snd (rate_limited now s)" by simp_all
    moreover have "ref_verify E now nonce ts sg action r = (False, r)" using True lim by (simp add: ref_verify_def)
    ultimately show ?thesis using forgot_prune [OF f] by simp
  next
    case False
    obtain b s' where p: "win_verify E now nonce ts sg action (s\<lparr>fail_times := []\<rparr>) = (b, s')"
      by (cases "win_verify E now nonce ts sg action (s\<lparr>fail_times := []\<rparr>)")
    have e: "s\<lparr>fail_times := []\<rparr> = r\<lparr>fail_times := []\<rparr>" using f by (auto simp: forgot_def)
    note past = win_verify_past [OF False p]
    have s1: "ok = b" "s1 = s'\<lparr>fail_times := fail_times (open_deque now action s) @ fail_times s'\<rparr>"
      using past(1) v by simp_all
    have r1: "ref_verify E now nonce ts sg action r = (b, s'\<lparr>fail_times := fail_times r @ fail_times s'\<rparr>)"
      using False lim p by (auto simp: ref_verify_def e)
    have "forgot now (s'\<lparr>fail_times := fail_times (open_deque now action s)\<rparr>) (s'\<lparr>fail_times := fail_times r\<rparr>)"
      using o by (auto simp: forgot_def)
    with forgot_record [OF this] past(2) s1 r1 show ?thesis by auto
  qed
qed

lemma forgot_verdicts:
  "forgot t s r \<Longrightarrow> sorted (t # map call_time cs) \<Longrightarrow> verdicts (win_verify E) E cs s = verdicts (ref_verify E) E cs r"
proof (induction cs arbitrary: t s r)
  case (Cons c cs)
  have t: "t \<le> call_time c" "sorted (call_time c # map call_time cs)" using Cons.prems(2) by simp_all
  have f: "forgot (call_time c) s r" by (rule forgot_later [OF Cons.prems(1) t(1)])
  show ?case
  proof (cases c)
    case (WIssue nonce now)
    then show ?thesis using Cons.IH [OF forgot_issue [OF f] t(2), of E nonce now] by simp
  next
    case (WVerify now nonce ts sg action)
    obtain ok s1 where v: "win_verify E now nonce ts sg action s = (ok, s1)" by (cases "win_verify E now nonce ts sg action s")
    have "call_time c = now" by (simp add: WVerify call_time_def)
    with f forgot_verify [OF _ v] obtain r1 where "ref_verify E now nonce ts sg action r = (ok, r1)" "forgot (call_time c) s1 r1"
      by auto
    with Cons.IH [OF this(2) t(2)] show ?thesis by (simp add: WVerify v)
  qed
qed simp

text \<open>
  C17.  The pruned deque is as good as the whole history: for a service that starts with no failure
  recorded and a clock that does not go back, any sequence of challenges and responses --- with any
  actions, nonces and signatures --- gets the same answers as from a service that never drops a
  failure and refuses when five of all those recorded are at most a minute old.
\<close>

theorem pruned_limit_equals_history:
  assumes "fail_times s = []" and "sorted (map call_time cs)"
  shows "verdicts (win_verify E) E cs s = verdicts (ref_verify E) E cs s"
proof (cases cs)
  case (Cons c cs')
  have "forgot (call_time c) s s" by (rule forgot_refl) (simp_all add: assms(1))
  then show ?thesis by (rule forgot_verdicts) (use assms(2) Cons in simp)
qed simp

lemma pruned_limit_equals_history_witness:
  "verdicts (ref_verify toy_ext) toy_ext toy_guesses toy_win = verdicts (win_verify toy_ext) toy_ext toy_guesses toy_win"
proof -
  have "fail_times toy_win = []" "sorted (map call_time toy_guesses)"
    by (simp_all add: toy_win_def toy_guesses_def call_time_def)
  from pruned_limit_equals_history [OF this, of toy_ext] show ?thesis by (rule sym)
qed

end
