(* ===== verification/WinSystem.thy ===== *)
theory WinSystem
  imports WinListener
begin

text \<open>
  The running Windows service: its connections as interleaved state machines over one
  \<open>UnlockService\<close>, as a step relation.  A connection is opened with a challenge and waits for one
  frame; the step of the frame ends it.
\<close>

section \<open>State and steps\<close>

text \<open>
  \<open>wissued\<close> and \<open>wauths\<close> are records for the statements: the challenges with their connection, nonce
  and time, and the accepted responses.
\<close>

record win_auth =
  au_conn :: nat
  au_time :: time
  au_nonce :: string
  au_action :: string
  au_stamp :: pyfloat
  au_sig :: json

record ('sk, 'pk) win_system =
  wsvc :: "('sk, 'pk) win"
  waiting_conns :: "nat set"
  wout :: "(nat \<times> win_effect) list"
  wissued :: "(nat \<times> string \<times> time) list"
  wauths :: "win_auth list"

text \<open>The response that a frame makes the service accept.\<close>

definition win_auth_of :: "('sk, 'pk) ext \<Rightarrow> win_settings \<Rightarrow> time \<Rightarrow> nat \<Rightarrow> win_frame \<Rightarrow> ('sk, 'pk) win \<Rightarrow> win_auth option" where
  "win_auth_of E W now c f s =
     (case f of
        Frame (Inr t) \<Rightarrow>
          (case loads t of
             Some (JObj msg) \<Rightarrow>
               (case (jget_default msg ''action'' (JStr ''unlock''), response_fields msg) of
                  (JStr act, Inr (JStr n, ts, sg)) \<Rightarrow>
                    if jget msg ''type'' = JStr ''response'' \<and> (act = ''unlock'' \<or> act = ''shutdown'' \<and> shutdown_enabled W)
                       \<and> fst (win_verify E now (JStr n) ts sg act s)
                    then Some \<lparr>au_conn = c, au_time = now, au_nonce = n, au_action = act, au_stamp = ts, au_sig = sg\<rparr>
                    else None
                | _ \<Rightarrow> None)
           | _ \<Rightarrow> None)
      | _ \<Rightarrow> None)"

inductive wstep :: "('sk, 'pk) ext \<Rightarrow> win_settings \<Rightarrow> ('sk, 'pk) win_system \<Rightarrow> ('sk, 'pk) win_system \<Rightarrow> bool" for E W where
  WOpen: "c \<notin> waiting_conns s \<Longrightarrow> handler_open E nonce now (wsvc s) = (es, w) \<Longrightarrow>
    wstep E W s (s\<lparr>wsvc := w, waiting_conns := insert c (waiting_conns s), wout := wout s @ map (Pair c) es,
      wissued := wissued s @ [(c, nonce, now)]\<rparr>)"
| WFrame: "c \<in> waiting_conns s \<Longrightarrow> handler_frame E (W\<lparr>pipe_open := p\<rparr>) now send_ok f (wsvc s) = (es, x, w) \<Longrightarrow>
    wstep E W s (s\<lparr>wsvc := w, waiting_conns := waiting_conns s - {c}, wout := wout s @ map (Pair c) es,
      wauths := wauths s @ (case win_auth_of E W now c f (wsvc s) of None \<Rightarrow> [] | Some a \<Rightarrow> [a])\<rparr>)"

definition wstart :: "('sk, 'pk) win \<Rightarrow> ('sk, 'pk) win_system" where
  "wstart w = \<lparr>wsvc = w, waiting_conns = {}, wout = [], wissued = [], wauths = []\<rparr>"

definition wreach :: "('sk, 'pk) ext \<Rightarrow> win_settings \<Rightarrow> ('sk, 'pk) win_system \<Rightarrow> ('sk, 'pk) win_system \<Rightarrow> bool" where
  "wreach E W = (wstep E W)\<^sup>*\<^sup>*"

inductive_cases wstepE: "wstep E W s s'"

section \<open>What a frame does\<close>

definition is_password :: "win_effect \<Rightarrow> bool" where
  "is_password e \<longleftrightarrow> (\<exists>p. e = Piped p \<and> p \<noteq> [char_of (0 :: nat)])"

definition is_command :: "win_effect \<Rightarrow> bool" where
  "is_command e \<longleftrightarrow> (\<exists>cmd. e = RanCommand cmd)"

lemma effect_simps [simp]:
  "is_password (Piped p) \<longleftrightarrow> p \<noteq> [char_of (0 :: nat)]" "\<not> is_password (WinSent m)" "\<not> is_password (AlertFailed k)" "\<not> is_password (RanCommand d)"
  "\<not> is_command (Piped p)" "\<not> is_command (WinSent m)" "\<not> is_command (AlertFailed k)" "is_command (RanCommand d)"
  by (simp_all add: is_password_def is_command_def)

text \<open>How many effects of a kind there are; a verified unlock sends one password, a verified shutdown runs one command.\<close>

definition uses :: "('a \<Rightarrow> bool) \<Rightarrow> 'a list \<Rightarrow> nat" where
  "uses P es = length (filter P es)"

lemma uses_simps [simp]: "uses P [] = 0" "uses P (e # es) = of_bool (P e) + uses P es" "uses P (es @ es') = uses P es + uses P es'"
  by (simp_all add: uses_def)

definition quiet :: "win_effect list \<Rightarrow> bool" where
  "quiet es \<longleftrightarrow> uses is_password es = 0 \<and> uses is_command es = 0"

lemma quiet_simps [simp]: "quiet []" "quiet (signal_credential_provider W False)" "quiet (win_alert k)" "quiet (win_result ok)"
  "quiet (reply_false send_ok (win_alert k))" "quiet (reply_false send_ok [])"
  by (simp_all add: quiet_def signal_credential_provider_def win_alert_def win_result_def reply_false_def)

lemma uses_after_verify:
  "uses is_password (after_verify W send_ok action ok) \<le> of_bool (ok \<and> action = ''unlock'')"
  "uses is_command (after_verify W send_ok action ok) \<le> of_bool (ok \<and> action \<noteq> ''unlock'')"
  by (auto simp: after_verify_def trigger_shutdown_def signal_credential_provider_def win_alert_def win_result_def)

lemma win_verify_keeps:
  "phone_public_key (snd (win_verify E now nonce ts sg action s)) = phone_public_key s"
  "used_nonces (snd (win_verify E now nonce ts sg action s)) =
     used_nonces s @ (case nonce of JStr n \<Rightarrow> if fst (win_verify E now nonce ts sg action s) then [n] else [] | _ \<Rightarrow> [])"
  by (cases nonce; auto simp: win_verify_def rate_limited_def record_failure_def Let_def split: option.splits)+

lemma win_verify_pending_sub:
  "set (pending_nonces (snd (win_verify E now nonce ts sg action s))) \<subseteq> set (pending_nonces s)"
  by (cases nonce) (auto simp: win_verify_pending AList.delete_eq)

text \<open>What one frame does to the state and to the log-on screen, in terms of the response accepted.\<close>

definition frame_ok :: "('sk, 'pk) win \<Rightarrow> ('sk, 'pk) win \<Rightarrow> win_effect list \<Rightarrow> win_auth option \<Rightarrow> bool" where
  "frame_ok s s' es a \<longleftrightarrow>
     phone_public_key s' = phone_public_key s
     \<and> used_nonces s' = used_nonces s @ (case a of None \<Rightarrow> [] | Some a \<Rightarrow> [au_nonce a])
     \<and> set (pending_nonces s') \<subseteq> set (pending_nonces s)
     \<and> uses is_password es \<le> (case a of None \<Rightarrow> 0 | Some a \<Rightarrow> of_bool (au_action a = ''unlock''))
     \<and> uses is_command es \<le> (case a of None \<Rightarrow> 0 | Some a \<Rightarrow> of_bool (au_action a \<noteq> ''unlock''))"

lemma win_auth_of_response:
  assumes "loads t = Some (JObj msg)" "jget msg ''type'' = JStr ''response''" "jget_default msg ''action'' (JStr ''unlock'') = JStr act"
    "act = ''unlock'' \<or> act = ''shutdown'' \<and> shutdown_enabled W" "response_fields msg = Inr (nonce, ts, sg)"
  shows "win_auth_of E W now c (Frame (Inr t)) s =
    (case nonce of JStr n \<Rightarrow> if fst (win_verify E now nonce ts sg act s)
       then Some \<lparr>au_conn = c, au_time = now, au_nonce = n, au_action = act, au_stamp = ts, au_sig = sg\<rparr> else None | _ \<Rightarrow> None)"
  using assms by (auto simp: win_auth_of_def split: json.split)

lemma frame_ok_quiet: "quiet es \<Longrightarrow> frame_ok s s es None"
  by (simp add: frame_ok_def quiet_def)

lemma frame_ok_verified:
  assumes "win_verify E now nonce ts sg act s = (ok, s')"
    and "a = (case nonce of JStr n \<Rightarrow> if ok then Some \<lparr>au_conn = c, au_time = now, au_nonce = n, au_action = act, au_stamp = ts, au_sig = sg\<rparr> else None | _ \<Rightarrow> None)"
  shows "frame_ok s s' (after_verify W send_ok act ok) a"
proof -
  have ok: "ok \<Longrightarrow> \<exists>n. nonce = JStr n" using win_verify_iff [of E now nonce ts sg act s] assms(1) by auto
  have "uses is_password (after_verify W send_ok act ok) \<le> (case a of None \<Rightarrow> 0 | Some a \<Rightarrow> of_bool (au_action a = ''unlock''))"
    "uses is_command (after_verify W send_ok act ok) \<le> (case a of None \<Rightarrow> 0 | Some a \<Rightarrow> of_bool (au_action a \<noteq> ''unlock''))"
    using uses_after_verify [of W send_ok act ok] ok by (cases ok; cases nonce; auto simp: assms(2))+
  then show ?thesis
    using win_verify_keeps [of E now nonce ts sg act s] win_verify_pending_sub [of E now nonce ts sg act s] assms(1)
    by (auto simp: frame_ok_def assms(2) split: json.split)
qed

lemma win_response_ok:
  assumes "win_response E W now send_ok msg s = (res, s')" "loads t = Some (JObj msg)"
  shows "frame_ok s s' (case res of Inr es \<Rightarrow> es | Inl e \<Rightarrow> []) (win_auth_of E W now c (Frame (Inr t)) s)"
proof (cases "jget msg ''type'' = JStr ''response''
    \<and> (jget_default msg ''action'' (JStr ''unlock'') = JStr ''unlock''
       \<or> jget_default msg ''action'' (JStr ''unlock'') = JStr ''shutdown'' \<and> shutdown_enabled W)")
  case False
  then have a: "win_auth_of E W now c (Frame (Inr t)) s = None"
    using assms(2) by (auto simp: win_auth_of_def split: json.split sum.split prod.split)
  from False assms(1) have "s' = s \<and> (\<exists>es. res = Inr es \<and> quiet es)"
    by (auto simp: win_response_def Let_def split: if_splits)
  then show ?thesis unfolding a by (auto intro: frame_ok_quiet)
next
  case True
  then obtain act where act: "jget msg ''type'' = JStr ''response''" "jget_default msg ''action'' (JStr ''unlock'') = JStr act"
    "act = ''unlock'' \<or> act = ''shutdown'' \<and> shutdown_enabled W" by blast
  show ?thesis
  proof (cases "response_fields msg")
    case (Inl e)
    with assms act show ?thesis by (auto simp: win_response_def win_auth_of_def Let_def intro!: frame_ok_quiet)
  next
    case (Inr r)
    obtain nonce ts sg where r: "r = (nonce, ts, sg)" by (cases r) auto
    obtain ok w where v: "win_verify E now nonce ts sg act s = (ok, w)" by (cases "win_verify E now nonce ts sg act s")
    have "res = Inr (after_verify W send_ok act ok)" "s' = w"
      using assms(1) act Inr r v by (auto simp: win_response_def Let_def)
    moreover have "win_auth_of E W now c (Frame (Inr t)) s =
        (case nonce of JStr n \<Rightarrow> if ok then Some \<lparr>au_conn = c, au_time = now, au_nonce = n, au_action = act, au_stamp = ts, au_sig = sg\<rparr> else None | _ \<Rightarrow> None)"
      using win_auth_of_response [OF assms(2) act Inr [unfolded r], of E now c s] v by (cases nonce) simp_all
    ultimately show ?thesis using frame_ok_verified [OF v] by simp
  qed
qed

lemma handler_frame_ok:
  assumes "handler_frame E W now send_ok f s = (es, x, s')"
  shows "frame_ok s s' es (win_auth_of E W now c f s)"
proof (cases "\<exists>t msg. f = Frame (Inr t) \<and> loads t = Some (JObj msg)")
  case False
  then have "win_auth_of E W now c f s = None"
    by (auto simp: win_auth_of_def split: win_frame.split sum.split option.split json.split)
  moreover from False assms have "s' = s \<and> quiet es"
    by (auto simp: handler_frame_def Let_def split: win_frame.splits sum.splits option.splits json.splits if_splits)
  ultimately show ?thesis by (auto intro: frame_ok_quiet)
next
  case True
  then obtain t msg where f: "f = Frame (Inr t)" "loads t = Some (JObj msg)" by blast
  obtain res w where r: "win_response E W now send_ok msg s = (res, w)" by (cases "win_response E W now send_ok msg s")
  note ok = win_response_ok [OF r f(2), of c]
  show ?thesis
  proof (cases res)
    case (Inr es')
    with assms f r ok show ?thesis by (simp add: handler_frame_def Let_def)
  next
    case (Inl e)
    with ok have "frame_ok s w [] (win_auth_of E W now c f s)" by (simp add: f)
    moreover from Inl assms f r have "s' = w \<and> quiet es"
      by (auto simp: handler_frame_def Let_def split: if_splits)
    ultimately show ?thesis by (auto simp: frame_ok_def quiet_def)
  qed
qed

section \<open>What holds in every reachable state\<close>

definition backed :: "('sk, 'pk) ext \<Rightarrow> win_settings \<Rightarrow> 'pk \<Rightarrow> (nat \<times> string \<times> time) list \<Rightarrow> win_auth \<Rightarrow> bool" where
  "backed E W pk iss a \<longleftrightarrow>
     (\<exists>c t. (c, au_nonce a, t) \<in> set iss \<and> au_time a - t \<le> 10)
     \<and> (au_action a = ''unlock'' \<or> au_action a = ''shutdown'' \<and> shutdown_enabled W)
     \<and> signature_ok E pk (action_text E (au_action a) (au_nonce a) (au_stamp a)) (au_sig a)"

lemma backed_mono: "backed E W pk iss a \<Longrightarrow> set iss \<subseteq> set iss' \<Longrightarrow> backed E W pk iss' a"
  by (auto simp: backed_def)

lemma win_auth_of_pipe [simp]: "win_auth_of E (W\<lparr>pipe_open := p\<rparr>) now c f s = win_auth_of E W now c f s"
proof -
  have e: "shutdown_enabled (W\<lparr>pipe_open := p\<rparr>) = shutdown_enabled W" by simp
  show ?thesis unfolding win_auth_of_def e ..
qed

lemma win_auth_of_Some:
  assumes "win_auth_of E W now c f s = Some a"
  shows "au_conn a = c" "au_time a = now" "au_nonce a \<notin> set (used_nonces s)"
    "\<exists>t. map_of (pending_nonces s) (au_nonce a) = Some t \<and> now - t \<le> 10"
    "au_action a = ''unlock'' \<or> au_action a = ''shutdown'' \<and> shutdown_enabled W"
    "signature_ok E (phone_public_key s) (action_text E (au_action a) (au_nonce a) (au_stamp a)) (au_sig a)"
  using assms unfolding win_auth_of_def
  by (auto simp: win_verify_iff split: win_frame.splits sum.splits option.splits json.splits prod.splits if_splits)

definition winv :: "('sk, 'pk) ext \<Rightarrow> win_settings \<Rightarrow> 'pk \<Rightarrow> ('sk, 'pk) win_system \<Rightarrow> bool" where
  "winv E W pk s \<longleftrightarrow>
     phone_public_key (wsvc s) = pk
     \<and> map au_nonce (wauths s) = used_nonces (wsvc s) \<and> distinct (used_nonces (wsvc s))
     \<and> (\<forall>x \<in> set (pending_nonces (wsvc s)). \<exists>c. (c, x) \<in> set (wissued s))
     \<and> (\<forall>a \<in> set (wauths s). backed E W pk (wissued s) a)
     \<and> uses is_password (map snd (wout s)) \<le> uses (\<lambda>a. au_action a = ''unlock'') (wauths s)
     \<and> uses is_command (map snd (wout s)) \<le> uses (\<lambda>a. au_action a \<noteq> ''unlock'') (wauths s)"

lemma winv_open:
  assumes "winv E W pk s" "handler_open E nonce now (wsvc s) = (es, w)"
  shows "winv E W pk (s\<lparr>wsvc := w, waiting_conns := insert c (waiting_conns s), wout := wout s @ map (Pair c) es,
      wissued := wissued s @ [(c, nonce, now)]\<rparr>)"
proof -
  have w: "phone_public_key w = phone_public_key (wsvc s)" "used_nonces w = used_nonces (wsvc s)" "quiet es"
    using assms(2) by (auto simp: quiet_def handler_open_def win_issue_challenge_def Let_def)
  have "set (pending_nonces w) \<subseteq> insert (nonce, now) (set (pending_nonces (wsvc s)))"
    using assms(2) set_update_subset [of nonce now "pending_nonces (wsvc s)"]
    by (auto simp: handler_open_def win_issue_challenge_def Let_def dict_keep_def)
  moreover have "\<forall>x \<in> set (pending_nonces (wsvc s)). \<exists>c. (c, x) \<in> set (wissued s)" using assms(1) by (simp add: winv_def)
  ultimately have "\<forall>x \<in> set (pending_nonces w). \<exists>c'. (c', x) \<in> set (wissued s @ [(c, nonce, now)])" by fastforce
  moreover have "backed E W pk (wissued s @ [(c, nonce, now)]) a" if "a \<in> set (wauths s)" for a
  proof (rule backed_mono)
    show "backed E W pk (wissued s) a" using that assms(1) unfolding winv_def by blast
  qed auto
  moreover have "map snd (map (Pair c) es) = es" by (simp add: comp_def)
  ultimately show ?thesis using assms(1) w by (simp add: winv_def quiet_def)
qed

lemma winv_frame:
  assumes inv: "winv E W pk s" and h: "handler_frame E (W\<lparr>pipe_open := p\<rparr>) now send_ok f (wsvc s) = (es, x, w)"
  shows "winv E W pk (s\<lparr>wsvc := w, waiting_conns := waiting_conns s - {c}, wout := wout s @ map (Pair c) es,
      wauths := wauths s @ (case win_auth_of E W now c f (wsvc s) of None \<Rightarrow> [] | Some a \<Rightarrow> [a])\<rparr>)"
proof -
  note ok = handler_frame_ok [OF h, of c, simplified, unfolded frame_ok_def]
  have m: "map snd (map (Pair c) es) = es" by (simp add: comp_def)
  have p: "\<forall>x \<in> set (pending_nonces w). \<exists>c. (c, x) \<in> set (wissued s)"
    using ok inv unfolding winv_def by blast
  show ?thesis
  proof (cases "win_auth_of E W now c f (wsvc s)")
    case None
    with ok m p inv show ?thesis by (simp add: winv_def)
  next
    case (Some a)
    note a = win_auth_of_Some [OF this]
    from a(4) obtain t where t: "(au_nonce a, t) \<in> set (pending_nonces (wsvc s))" "now - t \<le> 10" by (blast dest: map_of_SomeD)
    with inv have "\<exists>c t. (c, au_nonce a, t) \<in> set (wissued s) \<and> au_time a - t \<le> 10"
      unfolding a(2) winv_def by blast
    with a(5,6) inv have "backed E W pk (wissued s) a" by (simp add: backed_def winv_def)
    with Some ok m p a(3) inv show ?thesis by (auto simp: winv_def)
  qed
qed

lemma winv_step: "wstep E W s s' \<Longrightarrow> winv E W pk s \<Longrightarrow> winv E W pk s'"
  by (erule wstepE) (simp_all add: winv_open winv_frame)

lemma winv_reach:
  assumes "wreach E W (wstart w) s" "pending_nonces w = []" "used_nonces w = []"
  shows "winv E W (phone_public_key w) s"
  using assms(1) unfolding wreach_def
proof (induction rule: rtranclp_induct)
  case base
  show ?case using assms(2,3) by (simp add: winv_def wstart_def)
next
  case (step s s')
  show ?case by (rule winv_step [OF step.hyps(2) step.IH])
qed

lemma backed_action: "backed E W pk iss a \<Longrightarrow> (au_action a \<noteq> ''unlock'') = (au_action a = ''shutdown'')"
  by (auto simp: backed_def)

text \<open>
  C10.  Every password that leaves the Windows service and every shutdown is backed by an approval of
  its own: whatever the connections do and however they interleave, the passwords written are at
  most the unlocks accepted and the commands run at most the shutdowns accepted; these responses
  have pairwise different nonces, each drawn for a challenge of this run at most ten seconds
  earlier, and each is signed by the phone's key for exactly its action, a shutdown only where the
  feature is enabled.
\<close>

theorem win_powers_backed:
  assumes "wreach E W (wstart w) s" and "pending_nonces w = []" and "used_nonces w = []"
  shows "uses is_password (map snd (wout s)) \<le> uses (\<lambda>a. au_action a = ''unlock'') (wauths s)
    \<and> uses is_command (map snd (wout s)) \<le> uses (\<lambda>a. au_action a = ''shutdown'') (wauths s)
    \<and> distinct (map au_nonce (wauths s)) \<and> list_all (backed E W (phone_public_key w) (wissued s)) (wauths s)"
proof -
  have inv: "winv E W (phone_public_key w) s" using assms by (rule winv_reach)
  then have "filter (\<lambda>a. au_action a \<noteq> ''unlock'') (wauths s) = filter (\<lambda>a. au_action a = ''shutdown'') (wauths s)"
    by (intro filter_cong) (auto simp: winv_def dest: backed_action)
  with inv show ?thesis by (simp add: winv_def uses_def list_all_iff)
qed

section \<open>Example\<close>

text \<open>
  Two connections; the second answers the challenge of the first with a signed unlock and is
  accepted: a challenge is not bound to its connection.
\<close>

definition toy_two :: "(nat, nat) win" where
  "toy_two = toy_win\<lparr>pending_nonces := [(''aa'', 0), (''bb'', 0)]\<rparr>"

lemma toy_two_verify: "fst (win_verify toy_ext 1 (JStr ''aa'') (Fin 1) (JStr ''070d'') ''unlock'' toy_two)"
  by code_simp

lemma toy_two_auth: "win_auth_of toy_ext toy_settings 1 2 (toy_wframe ''unlock'') toy_two =
    Some \<lparr>au_conn = 2, au_time = 1, au_nonce = ''aa'', au_action = ''unlock'', au_stamp = Fin 1, au_sig = JStr ''070d''\<rparr>"
  unfolding toy_wframe_def
  by (subst win_auth_of_response [OF toy_loads toy_fields(1,2) _ toy_fields(3)]) (simp_all add: toy_two_verify)

lemma toy_two_frame:
  obtains x w where "handler_frame toy_ext (toy_settings\<lparr>pipe_open := True\<rparr>) 1 True (toy_wframe ''unlock'') toy_two =
    (win_result True @ [Piped (char_of (1 :: nat) # ''pw''), AlertFailed ''unlock_success''], x, w)"
proof -
  have a: "after_verify (toy_settings\<lparr>pipe_open := True\<rparr>) True ''unlock'' True =
      win_result True @ [Piped (char_of (1 :: nat) # ''pw''), AlertFailed ''unlock_success'']"
    by (simp add: after_verify_def signal_credential_provider_def toy_settings_def win_alert_def utf8_char_def is_ascii_def)
  have "handler_frame toy_ext (toy_settings\<lparr>pipe_open := True\<rparr>) 1 True (toy_wframe ''unlock'') toy_two =
      (after_verify (toy_settings\<lparr>pipe_open := True\<rparr>) True ''unlock'' (fst (win_verify toy_ext 1 (JStr ''aa'') (Fin 1) (JStr ''070d'') ''unlock'' toy_two)),
       None, snd (win_verify toy_ext 1 (JStr ''aa'') (Fin 1) (JStr ''070d'') ''unlock'' toy_two))"
    unfolding toy_wframe_def by (subst handler_frame_response [OF toy_loads toy_fields(1,2) _ toy_fields(3)]) simp_all
  with a toy_two_verify show ?thesis by (intro that) simp
qed

lemma toy_crossed:
  obtains s where "wreach toy_ext toy_settings (wstart toy_win) s" "map au_conn (wauths s) = [2]"
    "wissued s = [(1, ''aa'', 0), (2, ''bb'', 0)]" "uses is_password (map snd (wout s)) = 1"
proof -
  let ?w1 = "toy_win\<lparr>pending_nonces := [(''aa'', 0)]\<rparr>"
  obtain es1 es2 where o: "handler_open toy_ext ''aa'' 0 toy_win = (es1, ?w1)" "handler_open toy_ext ''bb'' 0 ?w1 = (es2, toy_two)"
    and q: "quiet es1" "quiet es2"
    by (simp add: handler_open_def win_issue_challenge_def Let_def toy_win_def toy_two_def dict_keep_def NONCE_TTL_def quiet_def)
  let ?s1 = "(wstart toy_win)\<lparr>wsvc := ?w1, waiting_conns := insert 1 (waiting_conns (wstart toy_win)),
      wout := wout (wstart toy_win) @ map (Pair 1) es1, wissued := wissued (wstart toy_win) @ [(1, ''aa'', 0)]\<rparr>"
  let ?s2 = "?s1\<lparr>wsvc := toy_two, waiting_conns := insert 2 (waiting_conns ?s1),
      wout := wout ?s1 @ map (Pair 2) es2, wissued := wissued ?s1 @ [(2, ''bb'', 0)]\<rparr>"
  obtain x w where f: "handler_frame toy_ext (toy_settings\<lparr>pipe_open := True\<rparr>) 1 True (toy_wframe ''unlock'') toy_two =
    (win_result True @ [Piped (char_of (1 :: nat) # ''pw''), AlertFailed ''unlock_success''], x, w)" by (rule toy_two_frame)
  have s1: "wstep toy_ext toy_settings (wstart toy_win) ?s1"
    by (rule wstep.WOpen) (simp_all add: wstart_def o)
  have s2: "wstep toy_ext toy_settings ?s1 ?s2"
    by (rule wstep.WOpen) (simp_all add: wstart_def o)
  have "2 \<in> waiting_conns ?s2" "wsvc ?s2 = toy_two" by simp_all
  then obtain s3 where s3: "wstep toy_ext toy_settings ?s2 s3" "wissued s3 = wissued ?s2"
    "wauths s3 = wauths ?s2 @ (case win_auth_of toy_ext toy_settings 1 2 (toy_wframe ''unlock'') toy_two of None \<Rightarrow> [] | Some a \<Rightarrow> [a])"
    "wout s3 = wout ?s2 @ map (Pair 2) (win_result True @ [Piped (char_of (1 :: nat) # ''pw''), AlertFailed ''unlock_success''])"
    using wstep.WFrame [where c = 2 and s = ?s2 and p = True and now = 1 and send_ok = True and f = "toy_wframe ''unlock''" and W = toy_settings and E = toy_ext]
      f by fastforce
  have "wreach toy_ext toy_settings (wstart toy_win) s3"
    unfolding wreach_def using s1 s2 s3(1) by (meson r_into_rtranclp rtranclp_trans)
  moreover have "map au_conn (wauths s3) = [2]" by (simp add: s3(3) toy_two_auth wstart_def)
  moreover have "wissued s3 = [(1, ''aa'', 0), (2, ''bb'', 0)]" by (simp add: s3(2) wstart_def)
  moreover have "uses is_password (map snd (wout s3)) = 1"
    using q by (simp add: s3(4) wstart_def quiet_def comp_def win_result_def)
  ultimately show ?thesis by (rule that)
qed

lemma win_powers_backed_witness:
  "\<exists>s :: (nat, nat) win_system. wauths s \<noteq> [] \<and> uses is_password (map snd (wout s)) = 1 \<and> list_all (backed toy_ext toy_settings 7 (wissued s)) (wauths s)"
proof -
  obtain s where s: "wreach toy_ext toy_settings (wstart toy_win) s" "map au_conn (wauths s) = [2]"
    "uses is_password (map snd (wout s)) = 1" by (rule toy_crossed)
  have w: "pending_nonces toy_win = []" "used_nonces toy_win = []" "phone_public_key toy_win = 7" by (simp_all add: toy_win_def)
  have "list_all (backed toy_ext toy_settings 7 (wissued s)) (wauths s)"
    using win_powers_backed [OF s(1) w(1,2)] unfolding w(3) by blast
  moreover have "wauths s \<noteq> []" using s(2) by auto
  ultimately show ?thesis using s(3) by blast
qed

end
