(* ===== verification/Spec2Isabelle.thy ===== *)
theory Spec2Isabelle
  imports System PamHelper ClientTool Install Deployment Revocation ConfigFile ToolWrites Sha256 Anchors AuditTail WinInstall WinLimiter WinSystem
begin

text \<open>
  A verification development for Remote-Unlock: a phone that holds a key unlocks a laptop over the
  network.  The root holds the properties that span the parts; every part has a theory of its own.

  \<^bold>\<open>The program.\<close>  On Linux, \<^verbatim>\<open>src/listener.py\<close> is the service: a phone connects over TLS, names a
  device, gets a challenge, answers with a signature, and an accepted answer issues a grant that
  the helper of PAM (\<^verbatim>\<open>src/pam_unlock_helper.py\<close>) may use once within \<^verbatim>\<open>grant_ttl\<close> seconds.
  \<^verbatim>\<open>src/common.py\<close> has the signed messages, the files and the configuration, \<^verbatim>\<open>src/audit.py\<close> the
  chained log, \<^verbatim>\<open>src/notify.py\<close> the alerts, \<^verbatim>\<open>src/pair.py\<close> the set-up tool and
  \<^verbatim>\<open>src/client_example.py\<close> a reference phone.  On Windows, \<^verbatim>\<open>src/windows/listener_windows.py\<close> and
  \<^verbatim>\<open>src/windows/pair_windows.py\<close> are a separate build that hands a stored password to the log-on screen.

  \<^bold>\<open>The theories.\<close>
  \<^item> \<open>Prelude\<close>, \<open>Json\<close>, \<open>Numbers\<close>, \<open>Pretty\<close>, \<open>IpAddress\<close>, \<open>Tokens\<close>: the Python the program uses ---
    exceptions as values (\<open>exc\<close>, \<open>result\<close>), dictionaries as association lists, texts, \<open>json.dumps\<close>
    and \<open>json.loads\<close> with their round trips (locale \<open>codec\<close>), \<open>int\<close> and \<open>float\<close>,
    \<open>ipaddress.ip_address\<close> --- and the contract of a store of single-use tokens (locale \<open>single_use\<close>).
  \<^item> \<open>Common\<close> (common.py): \<open>signed_message\<close> and the two patterns, \<open>sign\<close>, \<open>verify_sig\<close>,
    \<open>load_public_key\<close>, \<open>get_passphrase\<close>, \<open>check_private\<close>, \<open>write_private\<close> under every fault, \<open>Config\<close>.
  \<^item> \<open>AuditLog\<close>, \<open>AuditTail\<close> (audit.py): \<open>verify_file\<close>, the object \<open>AuditLog\<close>, both commands; every log
    the program writes verifies, two files with one head have the same entries (locale \<open>append_log\<close>).
  \<^item> \<open>Sha256\<close>: the hash of \<^verbatim>\<open>hashlib\<close> and \<open>sha256_hex\<close> of common.py, which meets \<open>hex_digests\<close>.
  \<^item> \<open>Backoff\<close> (class \<open>Backoff\<close> of listener.py): lockouts, refined to one history per key (locale
    \<open>lockouts\<close>), with the bound on the rate of guesses.
  \<^item> \<open>Grant\<close> (class \<open>GrantBroker\<close>): \<open>issue\<close> and \<open>consume\<close> with the event and the time-out of
    \<^verbatim>\<open>asyncio\<close>, as the step relation \<open>bstep\<close> over any number of waiting consumers.
  \<^item> \<open>Service\<close> (class \<open>UnlockService\<close>): every method; a handler is cut at its awaits into functions
    from one wait to the next (\<open>handle\<close>, \<open>handle_frame\<close>, \<open>handle_sent\<close>, \<open>leave\<close>, \<open>pam_line\<close>,
    \<open>pam_resume\<close>, \<open>pam_timeout\<close>).  The locales \<open>service_frame\<close> to \<open>service_inv\<close> turn an invariant of
    the small operations into one of all handlers; their interpretations give the invariants used.
  \<^item> \<open>System\<close>: the running service, the step relation \<open>sstep\<close> that interleaves those functions for
    all connections and PAM requests, and its refinement of \<open>bstep\<close>.
  \<^item> \<open>Client\<close>, \<open>ClientTool\<close> (client_example.py): the phone's side and its commands.
  \<^item> \<open>PamHelper\<close> (pam_unlock_helper.py): \<open>request_unlock\<close> and \<open>main\<close>.
  \<^item> \<open>Startup\<close> (\<open>build_ssl_context\<close>, \<open>start\<close>, \<open>main\<close> and the script around it, \<open>Runtime.close\<close> of listener.py).
  \<^item> \<open>Notify\<close> (notify.py): the three channels and what one channel can do to the others.
  \<^item> \<open>Registry\<close>, \<open>Pair\<close>, \<open>Enrolment\<close> (pair.py): the five commands on a file system with faults, and
    the abstract registry (locale \<open>registry\<close>) that the configuration file implements.
  \<^item> \<open>Install\<close>: the files of the tool read by the service: a fresh set-up starts, a revocation counts.
  \<^item> \<open>ConfigFile\<close>: the configuration is read back as it was saved; \<open>ToolWrites\<close>: what the tool writes
    and that keys at rest are encrypted; \<open>Revocation\<close>: a revocation from the command through the file to
    every later run of the service.
  \<^item> \<open>Deployment\<close>: the Linux programs in a row, from the first set-up to a login; \<open>Anchors\<close>: an alert of
    the service, through the notifier, carries an anchor against which the log verifies.
  \<^item> \<open>WinSecrets\<close>, \<open>WinListener\<close>, \<open>WinService\<close>, \<open>WinPair\<close>, \<open>WinInstall\<close>: the Windows build, from the
    base64 of the secrets to the password on the pipe; \<open>WinSystem\<close>: its connections interleaved, the
    step relation \<open>wstep\<close>; \<open>WinLimiter\<close>: its rate limit against a reference that forgets nothing.

  \<^bold>\<open>Parameters.\<close>  The \<^verbatim>\<open>cryptography\<close> package, the hash (so that a collision can be named), Scrypt, Fernet and the printing of floats are
  fields of the records \<open>hashing\<close>, \<open>ext\<close>, \<open>pki\<close>, \<open>kdf\<close>, \<open>win_security\<close>; sockets, the network and the disk are given by
  the outcome of each call (\<open>link\<close>, \<open>net\<close>, \<open>fault\<close>, \<open>write_fault\<close>, \<open>host\<close>, \<open>win_host\<close>).  What a
  theorem needs of them is a named hypothesis: \<open>hex_digests\<close>, \<open>key_pair\<close>, \<open>fernet_ok\<close>, \<open>tmp_ok\<close>, \<open>acl_ok\<close>.

  \<^bold>\<open>Conventions.\<close>  Times are rationals without rounding; a stretch of code between two awaits reads
  each clock once and has one outcome of the disk.  Whether the service reloads its
  configuration at a connection, and what it then holds, is an argument of \<open>handle\<close>; \<open>Common\<close> has
  the function that decides it.  Characters have code points up to 255.  The
  configuration of the service is the typed record \<open>config\<close>; \<open>typed_config\<close> reads it from the text.
  Files that are printed and read back hold no floats (\<open>plain\<close>).

  \<^bold>\<open>Fuel.\<close>  Only the parser \<open>loads\<close> has fuel, two steps a character and two more; \<open>pval_fuel\<close> shows
  that any more gives the same.  All other recursions are structural or have a measure.

  \<^bold>\<open>Not modelled.\<close>  Deep JSON that exceeds Python's recursion limit; decoding errors of files;
  directories and their modes; the removal of a temporary file failing; a write of the audit log that
  fails after the line has reached the disk; redirects of an alert; log messages; the texts of \<^verbatim>\<open>argparse\<close>; the wait for a signal; the TLS
  and WebSocket libraries.  Outside
  the Python code: the phone app, the credential provider in C++, the scripts and the unit file.
\<close>

section \<open>The phone, the service and PAM together\<close>

text \<open>
  C1.  Every login that PAM is told to allow is backed by an unlock of its own.  In every
  reachable state of the service, whatever connections, PAM requests and clock readings came
  before, the requests answered yes can be matched with different accepted responses; each was
  answered at or after the time of its response and less than \<open>grant_ttl\<close> seconds later.
\<close>

theorem pam_yes_backed_by_unlock:
  assumes "reach E okc oke (sys_start cf key l t0) s" and "0 \<le> t0"
  shows "\<exists>f. inj_on f (pam_yes (svc s))
    \<and> (\<forall>c \<in> pam_yes (svc s). f c < length (auths s)
         \<and> (\<exists>t. (c, t, f c) \<in> set (pam_grants s) \<and> fst (auths s ! f c) \<le> t \<and> t < fst (auths s ! f c) + grant_ttl cf))"
  using assms by (rule pam_yes_backed)


text \<open>
  C3.  The honest path works end to end.  A registered phone whose hello was taken answers the
  challenge in time, the service accepts, and the helper of a login of the configured user
  within \<open>grant_ttl\<close> seconds is told yes, by the bytes its reader accepts.  The request of PAM is
  taken from where its caller was let in; the audit log is taken to be writable, and signatures to
  verify, which for the service means a DER form that is not 64 bytes long (\<open>key_pair\<close>).
\<close>

theorem honest_login:
  assumes hello: "handle_frame E env c (AwaitHello ip cd) f s = (AwaitResponse ip' d, s1)"
    and server: "key_pair E (signing_key s) lp"
    and phone: "load_public_key E (public_key_pem d) = Inr pk" "key_pair E dk pk"
    and time: "mono env2 - mono env \<le> challenge_ttl (cfg s)" and disk: "disk_ok env2" "disk_ok env3"
    and login: "0 \<le> mono env3" "mono env3 < mono env2 + ttl (sv_broker s)"
  shows "\<exists>ch r s2 s3. peer_view c s1 = peer_view c s @ [Sent c ch]
    \<and> client_respond E dk (dev_id d) lp (target_id (cfg s)) (Inr (send E ch)) = Inr r
    \<and> handle_frame E env2 c (AwaitResponse ip' d) (Text (send E r)) s1 = (Leaving, s2)
    \<and> pam_line E env3 k pid uid (Inr (unlock_request E (unlock_user (cfg s2)))) s2 = (PamAnswered True, s3)
    \<and> PamReplied k True \<in> set (out s3)
    \<and> request_unlock \<lparr>connect = Inr (), peer = Inr u, sendall = Inr (), rx = (\<lambda>_. Inr (answer_bytes True))\<rparr> u"
  using assms by (rule login_run)

section \<open>A run of the whole system\<close>

text \<open>The toy system: a phone connects, says hello, answers; PAM asks and is told yes.\<close>

lemma toy_key_pairs:
  "key_pair toy_ext (signing_key (toy_service\<lparr>active := n\<rparr>)) 7" "load_public_key toy_ext (public_key_pem toy_device) = Inr 5"
  "mono (toy_env 2) - mono (toy_env 1) \<le> challenge_ttl (cfg (toy_service\<lparr>active := n\<rparr>))"
  "disk_ok (toy_env t)" "mono (toy_env t) = t"
  by (simp_all add: toy_service_def new_service_def Let_def key_pair_toy toy_key toy_env_def toy_config_def)

lemma toy_run:
  obtains s1 s2 where "reach toy_ext (\<lambda>cf. cf = toy_config) (\<lambda>_. True) (sys_start toy_config 7 empty_log 0) s1"
    and "sstep toy_ext (\<lambda>cf. cf = toy_config) (\<lambda>_. True) s1 s2"
    and "auths s1 = []" "length (auths s2) = 1" "live (sv_broker (svc s2)) 3" "sys_now s2 = 2" "pams s2 = Map.empty"
    and "pam_grants s2 = []" "cfg (svc s2) = toy_config"
proof -
  let ?S = "sstep toy_ext (\<lambda>cf. cf = toy_config) (\<lambda>_. True)"
  let ?v0 = "toy_service\<lparr>active := 1\<rparr>"
  obtain v1 where h: "handle_frame toy_ext (toy_env 1) 1 (AwaitHello ''ip'' (Some toy_device)) toy_hello ?v0 = (AwaitResponse ''ip'' toy_device, v1)"
    using toy_hello_response_active [of 1] by (metis prod.collapse)
  from honest_response [OF h toy_key_pairs(1,2) key_pair_toy toy_key_pairs(3)] obtain r where
    a: "accepted_nonce toy_ext (toy_env 2) toy_device (Text (send toy_ext r)) v1 = Some (token (toy_env 1))" by blast
  have b: "sv_broker v1 = sv_broker ?v0"
  proof -
    have "on_hello toy_ext (toy_env 1) 1 ''ip'' (Some toy_device) toy_hello ?v0 = (Inr (AwaitResponse ''ip'' toy_device), v1)"
      using h by (auto simp: handle_frame_def intro: guarded_waiting)
    then show ?thesis using brok.P_on_hello [OF refl] by (metis snd_conv)
  qed
  define s1 where "s1 = toy_open\<lparr>svc := v1, conns := [1 \<mapsto> AwaitResponse ''ip'' toy_device]\<rparr>"
  let ?r = "handle_frame toy_ext (toy_env 2) 1 (AwaitResponse ''ip'' toy_device) (Text (send toy_ext r)) v1"
  define s2 where "s2 = s1\<lparr>sys_now := 2, svc := snd ?r, conns := (conns s1)(1 \<mapsto> fst ?r),
    auths := note_auth toy_ext (toy_env 2) 1 (AwaitResponse ''ip'' toy_device) (Text (send toy_ext r)) s1\<rparr>"
  have now: "sys_now toy_open = 1" "conns toy_open = [1 \<mapsto> AwaitHello ''ip'' (Some toy_device)]" "svc toy_open = ?v0"
      "auths toy_open = []" "pams toy_open = Map.empty"
    by (simp_all add: toy_open_def sys_start_def)
  have "?S toy_open (toy_open\<lparr>sys_now := mono (toy_env 1), svc := snd (AwaitResponse ''ip'' toy_device, v1),
      conns := (conns toy_open)(1 \<mapsto> fst (AwaitResponse ''ip'' toy_device, v1)),
      auths := note_auth toy_ext (toy_env 1) 1 (AwaitHello ''ip'' (Some toy_device)) toy_hello toy_open\<rparr>)"
    by (rule sstep.Frame [OF _ _ _ _ trans [OF h [symmetric]]]) (simp_all add: now toy_key_pairs)
  then have "?S toy_open s1"
    by (simp add: s1_def now toy_key_pairs note_auth_def) (simp add: toy_open_def sys_start_def)
  then have "reach toy_ext (\<lambda>cf. cf = toy_config) (\<lambda>_. True) (sys_start toy_config 7 empty_log 0) s1"
    using toy_open_reach [of "\<lambda>_. True" "\<lambda>cf. cf = toy_config"] by (simp add: reach_def)
  moreover have "?S s1 s2"
  proof -
    have "?S s1 (s1\<lparr>sys_now := mono (toy_env 2), svc := snd ?r, conns := (conns s1)(1 \<mapsto> fst ?r),
        auths := note_auth toy_ext (toy_env 2) 1 (AwaitResponse ''ip'' toy_device) (Text (send toy_ext r)) s1\<rparr>)"
      by (rule sstep.Frame) (simp_all add: s1_def now toy_key_pairs)
    then show ?thesis by (simp add: s2_def toy_key_pairs)
  qed
  moreover have "auths s1 = []" by (simp add: s1_def now)
  moreover have "length (auths s2) = 1"
    using a by (simp add: s2_def s1_def note_auth_def now)
  moreover have "live (sv_broker (svc s2)) 3"
    using a b by (simp add: s2_def s1_def broker_on_response live_def issue_def toy_key_pairs)
      (simp add: toy_service_def new_service_def Let_def new_broker_def toy_config_def)
  moreover have "sys_now s2 = 2" "pams s2 = Map.empty" by (simp_all add: s2_def s1_def now)
  moreover have "pam_grants s2 = []" by (simp add: s2_def s1_def toy_open_def sys_start_def)
  moreover have "cfg (svc s2) = toy_config"
  proof -
    have "cfg v1 = cfg ?v0" using cfg_kept(1) h by (metis snd_conv)
    then show ?thesis by (simp add: s2_def toy_service_def new_service_def Let_def)
  qed
  ultimately show ?thesis by (rule that)
qed


lemma toy_run_pam:
  obtains s where "reach toy_ext (\<lambda>cf. cf = toy_config) (\<lambda>_. True) (sys_start toy_config 7 empty_log 0) s"
    and "5 \<in> pam_yes (svc s)" "pam_grants s = [(5, 3, length (auths s) - 1)]"
proof -
  let ?S = "sstep toy_ext (\<lambda>cf. cf = toy_config) (\<lambda>_. True)"
  obtain s1 s2 where r: "reach toy_ext (\<lambda>cf. cf = toy_config) (\<lambda>_. True) (sys_start toy_config 7 empty_log 0) s1"
    and s: "?S s1 s2"
    and l: "live (sv_broker (svc s2)) 3" "sys_now s2 = 2" "pams s2 = Map.empty" "pam_grants s2 = []" "cfg (svc s2) = toy_config"
    by (rule toy_run)
  define s3 where "s3 = s2\<lparr>sys_now := 3, svc := svc s2, pams := [5 \<mapsto> PamReading 42 0]\<rparr>"
  have o: "pam_open toy_ext (toy_env 3) 5 (Inr (42, 0)) (svc s2) = (PamReading 42 0, svc s2)"
    using l(5) by (simp add: pam_open_def toy_config_def)
  have "?S s2 (s2\<lparr>sys_now := mono (toy_env 3), svc := snd (pam_open toy_ext (toy_env 3) 5 (Inr (42, 0)) (svc s2)),
      pams := (pams s2)(5 \<mapsto> fst (pam_open toy_ext (toy_env 3) 5 (Inr (42, 0)) (svc s2)))\<rparr>)"
    by (rule sstep.PamOpen) (simp_all add: l toy_key_pairs)
  then have 3: "?S s2 s3" by (simp only: o s3_def l toy_key_pairs fst_conv snd_conv)
  have lv: "live (sv_broker (svc s3)) (mono (toy_env 3))" "0 \<le> mono (toy_env 3)" using l(1) by (simp_all add: s3_def toy_key_pairs)
  obtain v where v: "pam_line toy_ext (toy_env 3) 5 42 0 (Inr (unlock_request toy_ext (unlock_user (cfg (svc s3))))) (svc s3) = (PamAnswered True, v)"
      "PamReplied 5 True \<in> set (out v)"
    using service_answers_request [OF lv(1) toy_key_pairs(4) lv(2)] by blast
  define t where "t = snd (consume (pam_wait (cfg (svc s3))) (mono (toy_env 3)) (sv_broker (svc s3)))"
  have t: "t = Return True" unfolding t_def using lv(1) by (simp add: consume_def poll_live)
  define s4 where "s4 = pam_moved (toy_env 3) 5 t (PamAnswered True, v) s3"
  have "?S s3 s4" unfolding s4_def
    by (rule sstep.PamAsk [OF _ _ _ v(1) _ t_def]) (simp_all add: s3_def toy_key_pairs)
  with 3 s r have "reach toy_ext (\<lambda>cf. cf = toy_config) (\<lambda>_. True) (sys_start toy_config 7 empty_log 0) s4"
    by (simp add: reach_def)
  moreover have "5 \<in> pam_yes (svc s4)" using v(2) by (simp add: s4_def pam_yes_def)
  moreover have "pam_grants s4 = [(5, 3, length (auths s4) - 1)]"
    by (simp add: s4_def pam_moved_def t) (simp add: s3_def l toy_key_pairs)
  ultimately show ?thesis by (rule that)
qed

lemma pam_yes_backed_by_unlock_witness:
  "\<exists>s i. 5 \<in> pam_yes (svc (s :: nat system)) \<and> i < length (auths s) \<and> fst (auths s ! i) \<le> 3 \<and> 3 < fst (auths s ! i) + 20"
proof -
  obtain s where r: "reach toy_ext (\<lambda>cf. cf = toy_config) (\<lambda>_. True) (sys_start toy_config 7 empty_log 0) s"
    and y: "5 \<in> pam_yes (svc s)" and g: "pam_grants s = [(5, 3, length (auths s) - 1)]"
    by (rule toy_run_pam)
  from pam_yes_backed_by_unlock [OF r order_refl] y obtain f :: "nat \<Rightarrow> nat" and t where "f 5 < length (auths s)" "(5, t, f 5) \<in> set (pam_grants s)"
    "fst (auths s ! f 5) \<le> t" "t < fst (auths s ! f 5) + grant_ttl toy_config" by blast
  with g y show ?thesis by (intro exI [of _ s] exI [of _ "f 5"]) (simp add: toy_config_def)
qed

lemma honest_login_witness:
  "\<exists>s2 s3 :: nat service. pam_line toy_ext (toy_env 9) 1 42 0 (Inr (unlock_request toy_ext (unlock_user (cfg s2)))) s2 = (PamAnswered True, s3)"
proof -
  let ?v0 = "toy_service\<lparr>active := 1\<rparr>"
  obtain v1 where h: "handle_frame toy_ext (toy_env 1) 1 (AwaitHello ''ip'' (Some toy_device)) toy_hello ?v0 = (AwaitResponse ''ip'' toy_device, v1)"
    using toy_hello_response_active [of 1] by (metis prod.collapse)
  have "0 \<le> mono (toy_env 9)" "mono (toy_env 9) < mono (toy_env 2) + ttl (sv_broker ?v0)"
    by (simp_all add: toy_env_def toy_service_def new_service_def Let_def new_broker_def toy_config_def)
  from honest_login [OF h toy_key_pairs(1,2) key_pair_toy toy_key_pairs(3,4,4) this] show ?thesis by blast
qed

end
